(* ===== verification/Rpc_Prelude.thy ===== *)
theory Rpc_Prelude
  imports Main "HOL-Library.Word" "HOL-Library.AList" "HOL-Library.Monad_Syntax"
    "HOL-Library.Multiset"
begin

section \<open>Shared types, host memory, hash maps and interfaces\<close>

text \<open>
  This theory holds what the component theories share.
  \<^item> The machine integers of the C++ code (\<open>u8\<close>, \<open>u16\<close>, \<open>u32\<close>, \<open>u64\<close>) and the
    object representation of an integer in host memory. The byte order of the host is the
    parameter \<open>le\<close> (\<^term>\<open>True\<close>: little endian); \<open>std::string\<close> is a \<^typ>\<open>string\<close>,
    one \<^typ>\<open>char\<close> per byte.
  \<^item> \<open>memcpy\<close> out of and into a buffer. An access outside the buffer is undefined
    behaviour in C++ and the value \<^const>\<open>None\<close> here, so that memory safety is a theorem.
  \<^item> \<open>std::map\<close> and \<open>std::unordered_map\<close> as association lists with distinct keys; the
    order of the list stands for the iteration order of the container.
  \<^item> The interfaces shared by several components: \<open>wire_codec\<close> (an encoder and a decoder
    that are inverse to each other) and \<open>invariant_system\<close> (a step relation with an
    inductive invariant).
\<close>

named_theorems host_simps \<open>host memory and byte order\<close>
named_theorems cursor_simps \<open>symbolic execution of buffer reads and writes\<close>
named_theorems umap_simps \<open>association lists used as hash maps\<close>

type_synonym u8 = "8 word"
type_synonym u16 = "16 word"
type_synonym u32 = "32 word"
type_synonym u64 = "64 word"

text \<open>\<open>size_t\<close> values are kept as \<^typ>\<open>nat\<close>; where a sum can exceed 64 bits it is
  reduced explicitly.\<close>

abbreviation size_max :: nat where
  "size_max \<equiv> 2 ^ 64"

abbreviation UINT32_MAX :: nat where
  "UINT32_MAX \<equiv> 2 ^ 32 - 1"

text \<open>A counter below a bound does not wrap when it is incremented.\<close>

lemma unat_inc: "i < c \<Longrightarrow> unat (i + 1) = Suc (unat i)" for i c :: "'a::len word"
proof -
  assume "i < c"
  then have "unat i < unat c" by (simp add: word_less_nat_alt)
  moreover have "unat c < 2 ^ LENGTH('a)" by simp
  ultimately have "Suc (unat i) < 2 ^ LENGTH('a)" by linarith
  then show ?thesis by (simp add: unat_word_ariths)
qed

subsection \<open>The object representation of integers\<close>

definition size_of :: "'a::len word itself \<Rightarrow> nat" where
  "size_of T = LENGTH('a) div 8"

definition mem_bytes :: "bool \<Rightarrow> 'a::len word \<Rightarrow> string" where
  "mem_bytes le w =
     (let bs = map (\<lambda>i. char_of (drop_bit (8 * i) (uint w))) [0..<LENGTH('a) div 8]
      in if le then bs else rev bs)"

definition load_word :: "bool \<Rightarrow> string \<Rightarrow> 'a::len word" where
  "load_word le bs = word_of_int (horner_sum of_char 256 (if le then bs else rev bs))"

text \<open>The bytes of a value in network order, whatever the host is.\<close>

abbreviation net_bytes :: "'a::len word \<Rightarrow> string" where
  "net_bytes \<equiv> mem_bytes False"

lemma length_mem_bytes [simp]: "length (mem_bytes le (w :: 'a::len word)) = LENGTH('a) div 8"
  by (simp add: mem_bytes_def Let_def)

lemma rev_mem_bytes [host_simps]: "rev (mem_bytes le w) = mem_bytes (\<not> le) w"
  by (simp add: mem_bytes_def Let_def)

lemma load_word_flip: "load_word le (rev bs) = load_word (\<not> le) bs"
  by (simp add: load_word_def)

lemma upt_Suc_zero: "[0..<Suc n] = 0 # map Suc [0..<n]"
  by (simp add: map_Suc_upt upt_conv_Cons del: upt_Suc)

lemma drop_bit_byte: "drop_bit (8 * Suc i) (k::int) = drop_bit (8 * i) (k div 256)"
  by (simp add: drop_bit_eq_div power_add zdiv_zmult2_eq[symmetric] mult.commute)

lemma horner_bytes_of_int:
  "0 \<le> (k::int) \<Longrightarrow> k < 256 ^ n \<Longrightarrow>
     horner_sum of_char 256 (map (\<lambda>i. char_of (drop_bit (8 * i) k)) [0..<n]) = k"
proof (induction n arbitrary: k)
  case 0
  then show ?case by simp
next
  case (Suc n)
  note upt = upt_Suc_zero[of n]
  note step = drop_bit_byte[of _ k]
  have "horner_sum of_char 256
          (map (\<lambda>i. char_of (drop_bit (8 * i) (k div 256))) [0..<n]) = k div 256"
    using Suc.prems by (intro Suc.IH) (auto simp: pos_imp_zdiv_nonneg_iff mult.commute)
  then show ?case
    by (simp add: upt step o_def del: upt_Suc mult_Suc_right)
qed

lemma load_mem_bytes [host_simps]:
  assumes "8 dvd LENGTH('a::len)"
  shows "load_word le (mem_bytes le (w :: 'a word)) = w"
proof -
  have "uint w < 256 ^ (LENGTH('a) div 8)"
    using assms uint_lt2p[of w] by (auto simp: power_mult[of "2::int" 8, simplified, symmetric])
  then have "horner_sum of_char 256
      (map (\<lambda>i. char_of (drop_bit (8 * i) (uint w))) [0..<LENGTH('a) div 8]) = uint w"
    by (intro horner_bytes_of_int) simp_all
  then show ?thesis
    by (simp add: load_word_def mem_bytes_def Let_def)
qed

lemma horner_bytes_bound: "0 \<le> horner_sum of_char (256::int) bs \<and>
    horner_sum of_char (256::int) bs < 256 ^ length bs"
proof (induction bs)
  case (Cons c bs)
  have "(of_char c :: int) < 256" "(0::int) \<le> of_char c"
    by (cases c; simp add: of_char_def horner_sum_simps split: bool.split)+
  with Cons show ?case by (auto simp: algebra_simps)
qed simp

lemma bytes_horner:
  "map (\<lambda>i. char_of (drop_bit (8 * i) (horner_sum of_char (256::int) bs))) [0..<length bs] = bs"
proof (induction bs)
  case (Cons c bs)
  let ?h = "horner_sum of_char (256::int) bs"
  note upt = upt_Suc_zero[of "length bs"]
  have c: "(of_char c + 256 * ?h) div 256 = ?h" "(of_char c + 256 * ?h) mod 256 = of_char c"
    by (cases c; simp add: of_char_def split: bool.split)+
  have step: "drop_bit (8 * Suc i) (of_char c + 256 * ?h) = drop_bit (8 * i) ?h" for i
    using drop_bit_byte[of i "of_char c + 256 * ?h"] by (simp only: c(1))
  have "char_of (of_char c + 256 * ?h) = c"
    using c(2) by (metis char_of_mod_256 char_of_char)
  with Cons show ?case
    by (simp add: upt step o_def del: upt_Suc mult_Suc_right)
qed simp

lemma mem_load_word [host_simps]:
  assumes "LENGTH('a::len) = 8 * length bs"
  shows "mem_bytes le (load_word le bs :: 'a word) = bs"
proof -
  let ?bs = "if le then bs else rev bs"
  have "horner_sum of_char (256::int) ?bs < 2 ^ LENGTH('a)"
    using assms horner_bytes_bound[of ?bs] by (auto simp: power_mult)
  then have "uint (load_word le bs :: 'a word) = horner_sum of_char 256 ?bs"
    using horner_bytes_bound[of ?bs] by (simp add: load_word_def uint_word_of_int take_bit_eq_mod)
  moreover have "LENGTH('a) div 8 = length ?bs"
    using assms by simp
  ultimately have "mem_bytes le (load_word le bs :: 'a word) = (if le then ?bs else rev ?bs)"
    using bytes_horner[of ?bs] by (simp only: mem_bytes_def Let_def)
  then show ?thesis by simp
qed

subsection \<open>Reading and writing a buffer\<close>

text \<open>\<open>memcpy\<close> of \<open>n\<close> bytes from \<open>data + index\<close>.\<close>

definition read_bytes :: "string \<Rightarrow> nat \<Rightarrow> nat \<Rightarrow> string option" where
  "read_bytes data index n =
     (if index + n \<le> length data then Some (take n (drop index data)) else None)"

text \<open>\<open>memcpy(&x, data + index, sizeof(x))\<close> into an integer of the host.\<close>

definition read_word :: "bool \<Rightarrow> string \<Rightarrow> nat \<Rightarrow> ('a::len word) option" where
  "read_word le data index = map_option (load_word le) (read_bytes data index (LENGTH('a) div 8))"

text \<open>\<open>memcpy(data + index, src, n); index += n;\<close> on the pair of buffer and index.\<close>

fun put_bytes :: "string \<Rightarrow> string \<times> nat \<Rightarrow> (string \<times> nat) option" where
  "put_bytes src (data, index) =
     (if index + length src \<le> length data
      then Some (take index data @ src @ drop (index + length src) data, index + length src)
      else None)"

text \<open>\<open>std::string::resize\<close>: truncate, or fill with zero bytes.\<close>

definition resize :: "string \<Rightarrow> nat \<Rightarrow> string" where
  "resize s n = take n s @ replicate (n - length s) (CHR 0x00)"

lemma length_resize [simp]: "length (resize s n) = n"
  by (simp add: resize_def)

declare put_bytes.simps [simp del]

lemma put_bytes_append [cursor_simps]:
  "index = length pre \<Longrightarrow> length src \<le> length rest \<Longrightarrow>
     put_bytes src (pre @ rest, index) = Some ((pre @ src) @ drop (length src) rest, index + length src)"
  by (simp add: put_bytes.simps)

text \<open>Writing consecutive pieces that fill a buffer exactly leaves their concatenation,
  whatever the buffer held before.\<close>

fun put_all :: "string list \<Rightarrow> string \<times> nat \<Rightarrow> (string \<times> nat) option" where
  "put_all [] c = Some c"
| "put_all (s # ss) c = do { c \<leftarrow> put_bytes s c; put_all ss c }"

lemma put_all_append:
  "length rest = length (concat ss) \<Longrightarrow>
     put_all ss (pre @ rest, length pre) = Some (pre @ concat ss, length pre + length (concat ss))"
proof (induction ss arbitrary: pre rest)
  case (Cons s ss)
  have "put_all ss ((pre @ s) @ drop (length s) rest, length (pre @ s)) =
      Some ((pre @ s) @ concat ss, length (pre @ s) + length (concat ss))"
    using Cons.prems by (intro Cons.IH) simp
  then show ?case
    using Cons.prems by (simp add: add.assoc put_bytes_append del: append_assoc)
qed simp

declare put_all.simps [simp del]

lemma put_all_fill:
  "length data = length (concat ss) \<Longrightarrow>
     put_all ss (data, 0) = Some (concat ss, length (concat ss))"
  using put_all_append[of data ss "[]"] by simp

text \<open>The big-endian value stored at an index of a buffer.\<close>

definition net_read :: "string \<Rightarrow> nat \<Rightarrow> 'a::len word" where
  "net_read data index = load_word False (take (LENGTH('a) div 8) (drop index data))"

lemma read_word_in_bounds:
  "index + LENGTH('a) div 8 \<le> length data \<Longrightarrow>
     (read_word le data index :: ('a::len word) option) =
       Some (load_word le (take (LENGTH('a) div 8) (drop index data)))"
  by (simp add: read_word_def read_bytes_def)

lemma read_bytes_in_bounds [cursor_simps]:
  "index + n \<le> length data \<Longrightarrow> read_bytes data index n = Some (take n (drop index data))"
  by (simp add: read_bytes_def)

lemma net_bytes_net_read:
  assumes "index + LENGTH('a::len) div 8 \<le> length data" and "8 dvd LENGTH('a)"
  shows "net_bytes (net_read data index :: 'a word) = take (LENGTH('a) div 8) (drop index data)"
  using assms by (auto simp: net_read_def intro!: mem_load_word)

lemma net_read_append [cursor_simps]:
  assumes "index = length pre" and "8 dvd LENGTH('a::len)"
  shows "net_read (pre @ net_bytes (w :: 'a word) @ rest) index = w"
  using assms by (simp add: net_read_def load_mem_bytes)

text \<open>Peeling one field off the unread rest of a buffer.\<close>

lemma drop_net_read:
  assumes "index + LENGTH('a::len) div 8 \<le> length data" and "8 dvd LENGTH('a)"
  shows "drop index data =
    net_bytes (net_read data index :: 'a word) @ drop (index + LENGTH('a) div 8) data"
  using assms
  by (simp add: net_bytes_net_read) (metis add.commute append_take_drop_id drop_drop)

subsection \<open>Hash maps as association lists\<close>

type_synonym ('k, 'v) umap = "('k \<times> 'v) list"

abbreviation m_wf :: "('k, 'v) umap \<Rightarrow> bool" where
  "m_wf m \<equiv> distinct (map fst m)"

abbreviation m_find :: "('k, 'v) umap \<Rightarrow> 'k \<Rightarrow> 'v option" where
  "m_find \<equiv> map_of"

abbreviation m_put :: "'k \<Rightarrow> 'v \<Rightarrow> ('k, 'v) umap \<Rightarrow> ('k, 'v) umap" where
  "m_put \<equiv> AList.update"

abbreviation m_erase :: "'k \<Rightarrow> ('k, 'v) umap \<Rightarrow> ('k, 'v) umap" where
  "m_erase \<equiv> AList.delete"

abbreviation m_keys :: "('k, 'v) umap \<Rightarrow> 'k set" where
  "m_keys m \<equiv> fst ` set m"

lemma m_find_put [umap_simps]: "m_find (m_put k v m) k' = (if k' = k then Some v else m_find m k')"
  by (simp add: update_conv')

lemma m_find_erase [umap_simps]: "m_find (m_erase k m) k' = (if k' = k then None else m_find m k')"
  by (simp add: delete_conv')

lemma m_find_None_iff: "m_find m k = None \<longleftrightarrow> k \<notin> m_keys m"
  by (rule map_of_eq_None_iff)

lemma m_find_Some_key: "m_find m k = Some v \<Longrightarrow> k \<in> m_keys m"
  by (metis m_find_None_iff option.distinct(1))

lemma m_find_set_iff: "m_wf m \<Longrightarrow> m_find m k = Some v \<longleftrightarrow> (k, v) \<in> set m"
  by (simp add: map_of_eq_Some_iff)

lemma m_wf_put [umap_simps]: "m_wf m \<Longrightarrow> m_wf (m_put k v m)"
  by (rule distinct_update)

lemma m_wf_erase [umap_simps]: "m_wf m \<Longrightarrow> m_wf (m_erase k m)"
  by (rule distinct_delete)

lemma m_keys_put [umap_simps]: "m_keys (m_put k v m) = insert k (m_keys m)"
  by (simp add: dom_update)

lemma m_keys_erase [umap_simps]: "m_keys (m_erase k m) = m_keys m - {k}"
  by (auto simp: AList.delete_eq)

lemma m_put_fresh: "m_find m k = None \<Longrightarrow> m_put k v m = m @ [(k, v)]"
  by (induction m) (auto split: if_splits)

lemma length_m_put [umap_simps]:
  "length (m_put k v m) = (if m_find m k = None then Suc (length m) else length m)"
  by (induction m) auto

lemma m_erase_notin: "m_find m k = None \<Longrightarrow> m_erase k m = m"
  by (simp add: m_find_None_iff)

lemma set_m_erase: "set (m_erase k m) = {p \<in> set m. fst p \<noteq> k}"
  by (auto simp: AList.delete_eq)

text \<open>The entries of a map as a multiset: erasing a present key removes one entry.\<close>

lemma mset_m_erase:
  "m_wf m \<Longrightarrow> m_find m k = Some v \<Longrightarrow> mset m = add_mset (k, v) (mset (m_erase k m))"
proof (induction m)
  case (Cons p m)
  show ?case
  proof (cases "fst p = k")
    case True
    with Cons.prems have "k \<notin> m_keys m" by auto
    then have "m_erase k m = m" by simp
    with True Cons.prems show ?thesis by (cases p) auto
  next
    case False
    with Cons show ?thesis by (cases p) auto
  qed
qed simp

lemma length_m_erase_Some:
  "m_wf m \<Longrightarrow> m_find m k = Some v \<Longrightarrow> length m = Suc (length (m_erase k m))"
  using mset_m_erase[of m k v] by (metis size_add_mset size_mset)

subsection \<open>Interfaces\<close>

text \<open>A message format: \<open>valid\<close> messages are encoded by \<open>enc\<close>; the decoder returns a
  message exactly for the byte strings the encoder produces.\<close>

locale wire_codec =
  fixes valid :: "'m \<Rightarrow> bool"
    and enc :: "'m \<Rightarrow> string"
    and dec :: "string \<Rightarrow> 'm option"
  assumes dec_enc: "valid m \<Longrightarrow> dec (enc m) = Some m"
    and dec_sound: "dec bs = Some m \<Longrightarrow> valid m \<and> enc m = bs"
begin

lemma dec_iff: "dec bs = Some m \<longleftrightarrow> valid m \<and> enc m = bs"
  using dec_enc dec_sound by auto

lemma enc_inj: "valid m \<Longrightarrow> valid m' \<Longrightarrow> enc m = enc m' \<Longrightarrow> m = m'"
  by (metis dec_enc option.inject)

lemma dec_inj: "dec bs = Some m \<Longrightarrow> dec bs' = Some m \<Longrightarrow> bs = bs'"
  using dec_sound by metis

lemma dec_None_iff: "dec bs = None \<longleftrightarrow> bs \<notin> enc ` Collect valid"
  using dec_iff by (metis (mono_tags, lifting) imageE image_eqI mem_Collect_eq not_None_eq)

end

text \<open>A state machine with an invariant that its steps keep.\<close>

locale invariant_system =
  fixes init :: "'s \<Rightarrow> bool"
    and step :: "'s \<Rightarrow> 's \<Rightarrow> bool"
    and inv :: "'s \<Rightarrow> bool"
  assumes inv_init: "init s \<Longrightarrow> inv s"
    and inv_step: "step s t \<Longrightarrow> inv s \<Longrightarrow> inv t"
begin

lemma inv_steps: "step\<^sup>*\<^sup>* s t \<Longrightarrow> inv s \<Longrightarrow> inv t"
  by (induction rule: rtranclp_induct) (auto intro: inv_step)

lemma inv_reachable: "init s \<Longrightarrow> step\<^sup>*\<^sup>* s t \<Longrightarrow> inv t"
  using inv_init inv_steps by blast

end

end
