(* ===== verification/Rpc_Message.thy ===== *)
theory Rpc_Message
  imports Rpc_Prelude
begin

section \<open>The RPC messages (RpcMessage.h, RpcMessage.cc)\<close>

text \<open>
  The wire format: constants and enumerations, the byte-order helpers, \<open>decodeHead\<close>, and
  the three message classes with their \<open>encode\<close> and \<open>decode\<close>. The definitions follow
  the source statement by statement: an encoder resizes its output buffer and copies each field
  at a running index, a decoder carries the index and the number of bytes left. Every function
  returns an option whose \<^const>\<open>None\<close> is an access outside the buffer. The byte order of
  the host is the parameter \<open>le\<close>. A subtraction from the number of bytes left stands behind
  the comparison that makes it exact, so \<open>size_t\<close> is \<^typ>\<open>nat\<close> there.
\<close>

subsection \<open>Constants and enumerations\<close>

definition kRpcProtocolVersion :: u16 where
  "kRpcProtocolVersion = 2"

definition VERSION_LEN :: nat where "VERSION_LEN = 2"

definition REQUEST_TYPE_LEN :: nat where "REQUEST_TYPE_LEN = 1"

definition REQUEST_ID_LEN :: nat where "REQUEST_ID_LEN = 8"

definition SERVICE_NAME_LEN :: nat where "SERVICE_NAME_LEN = 4"

definition METHOD_NAME_LEN :: nat where "METHOD_NAME_LEN = 4"

definition RESPONSE_RESULT_LEN :: nat where "RESPONSE_RESULT_LEN = 1"

definition ERROR_CODE_LEN :: nat where "ERROR_CODE_LEN = 2"

definition PALOAD_MESSAGE_LEN :: nat where "PALOAD_MESSAGE_LEN = 4"

definition ERROR_MESSAGE_LEN :: nat where "ERROR_MESSAGE_LEN = 4"

lemmas field_lens = VERSION_LEN_def REQUEST_TYPE_LEN_def REQUEST_ID_LEN_def SERVICE_NAME_LEN_def
  METHOD_NAME_LEN_def RESPONSE_RESULT_LEN_def ERROR_CODE_LEN_def PALOAD_MESSAGE_LEN_def
  ERROR_MESSAGE_LEN_def

datatype RpcMessageType = kRequest | kResponse | kCancel

fun type_code :: "RpcMessageType \<Rightarrow> u8" where
  "type_code kRequest = 0"
| "type_code kResponse = 1"
| "type_code kCancel = 2"

text \<open>The code compares values of \<open>ResponseResult\<close> and \<open>RpcErrorCode\<close> that are outside
  the enumerators, so both are kept as their underlying integers.\<close>

type_synonym ResponseResult = u32

abbreviation kSuccess :: ResponseResult where "kSuccess \<equiv> 0"

abbreviation kUnsuccess :: ResponseResult where "kUnsuccess \<equiv> 1"

type_synonym RpcErrorCode = u16

abbreviation NO_ERROR :: RpcErrorCode where "NO_ERROR \<equiv> 0"

abbreviation REQUEST_TIMEOUT :: RpcErrorCode where "REQUEST_TIMEOUT \<equiv> 1"

abbreviation REQUEST_CANCELED :: RpcErrorCode where "REQUEST_CANCELED \<equiv> 2"

abbreviation CONNECTION_CLOSED :: RpcErrorCode where "CONNECTION_CLOSED \<equiv> 3"

abbreviation METHOD_NOT_FOUND :: RpcErrorCode where "METHOD_NOT_FOUND \<equiv> 4"

abbreviation BUSINESS_ERROR :: RpcErrorCode where "BUSINESS_ERROR \<equiv> 5"

abbreviation RECONNECT_TIMEOUT :: RpcErrorCode where "RECONNECT_TIMEOUT \<equiv> 6"

abbreviation MESSAGE_TOO_LARGE :: RpcErrorCode where "MESSAGE_TOO_LARGE \<equiv> 7"

abbreviation RESOURCE_EXHAUSTED :: RpcErrorCode where "RESOURCE_EXHAUSTED \<equiv> 8"

abbreviation CONNECTION_UNAVAILABLE :: RpcErrorCode where "CONNECTION_UNAVAILABLE \<equiv> 9"

abbreviation INTERNAL_ERROR :: RpcErrorCode where "INTERNAL_ERROR \<equiv> 10"

abbreviation ERROR_CODE_CNT :: RpcErrorCode where "ERROR_CODE_CNT \<equiv> 11"

subsection \<open>Byte order\<close>

text \<open>\<open>isLittleEnd\<close> looks at the first byte of the \<open>size_t\<close> value 1.\<close>

definition isLittleEnd :: "bool \<Rightarrow> bool" where
  "isLittleEnd le \<longleftrightarrow> hd (mem_bytes le (1 :: u64)) = CHR 0x01"

text \<open>The copy loop of \<open>hton\<close>: \<open>i\<close> runs up through the target bytes, \<open>p\<close> runs down
  from one past the end of the source bytes.\<close>

function hton_loop :: "nat \<Rightarrow> nat \<Rightarrow> string \<Rightarrow> string \<Rightarrow> string" where
  "hton_loop i p hostVal netVal =
     (if i < length hostVal
      then hton_loop (i + 1) (p - 1) hostVal (netVal[i := hostVal ! (p - 1)])
      else netVal)"
  by pat_completeness auto
termination
  by (relation "measure (\<lambda>(i, p, hostVal, netVal). length hostVal - i)") auto

definition hton :: "bool \<Rightarrow> 'a::len word \<Rightarrow> 'a word" where
  "hton le t =
     (if isLittleEnd le
      then load_word le (hton_loop 0 (size_of TYPE('a word)) (mem_bytes le t) (mem_bytes le t))
      else t)"

definition ntoh :: "bool \<Rightarrow> 'a::len word \<Rightarrow> 'a word" where
  "ntoh le t = hton le t"

declare hton_loop.simps [simp del]

lemma isLittleEnd_iff [simp]: "isLittleEnd le = le"
  by (cases le) (simp_all add: isLittleEnd_def mem_bytes_def upt_rec char_of_def)

text \<open>The loop keeps the part already copied and ends with the reversed bytes.\<close>

lemma hton_loop_rev:
  "i \<le> length h \<Longrightarrow> p = length h - i \<Longrightarrow> length nv = length h \<Longrightarrow>
     take i nv = take i (rev h) \<Longrightarrow> hton_loop i p h nv = rev h"
proof (induction i p h nv rule: hton_loop.induct)
  case (1 i p h nv)
  show ?case
  proof (cases "i < length h")
    case True
    then have "take (i + 1) (nv[i := h ! (p - 1)]) = take (i + 1) (rev h)"
      using "1.prems" by (simp add: take_Suc_conv_app_nth rev_nth)
    with True "1.prems" have "hton_loop (i + 1) (p - 1) h (nv[i := h ! (p - 1)]) = rev h"
      by (intro "1.IH") auto
    with True show ?thesis by (simp add: hton_loop.simps[of i p])
  next
    case False
    with "1.prems" show ?thesis by (subst hton_loop.simps) simp
  qed
qed

lemma hton_eq:
  "hton le (t :: 'a::len word) = (if le then load_word le (rev (mem_bytes le t)) else t)"
  by (simp add: hton_def size_of_def hton_loop_rev)

lemma mem_bytes_hton [host_simps]:
  assumes "8 dvd LENGTH('a::len)"
  shows "mem_bytes le (hton le (t :: 'a word)) = net_bytes t"
  using assms by (cases le) (auto simp: hton_eq host_simps)

lemma ntoh_load_word [host_simps]:
  assumes "LENGTH('a::len) = 8 * length bs"
  shows "ntoh le (load_word le bs :: 'a word) = load_word False bs"
  using assms by (cases le) (simp_all add: ntoh_def hton_eq mem_load_word load_word_flip[of True])

lemma ntoh_hton [host_simps]:
  assumes "8 dvd LENGTH('a::len)"
  shows "ntoh le (hton le (t :: 'a word)) = t"
proof -
  have "ntoh le (hton le t) = ntoh le (load_word le (mem_bytes le (hton le t)))"
    using assms by (simp add: load_mem_bytes)
  also have "\<dots> = load_word False (mem_bytes le (hton le t))"
    using assms by (intro ntoh_load_word) simp
  also have "\<dots> = t"
    using assms by (simp add: mem_bytes_hton load_mem_bytes)
  finally show ?thesis .
qed

lemma mem_bytes_u8: "NO_MATCH False le \<Longrightarrow> mem_bytes le (w :: u8) = net_bytes w"
  by (simp add: mem_bytes_def Let_def upt_rec)

lemma hton_u8 [simp]: "hton le (t :: u8) = t"
proof -
  have "rev (mem_bytes le t) = mem_bytes le t"
    by (simp add: mem_bytes_def Let_def upt_rec)
  then show ?thesis using load_mem_bytes[of le t] by (cases le) (simp_all add: hton_eq)
qed

lemma ntoh_u8 [simp]: "ntoh le (t :: u8) = t"
  by (simp add: ntoh_def)

text \<open>Reading a field of a message: the bytes at the index, in network order.\<close>

lemma read_word_net [cursor_simps]:
  assumes "index + LENGTH('a::len) div 8 \<le> length data" and "8 dvd LENGTH('a)"
  shows "(read_word le data index :: 'a word option) = Some (hton le (net_read data index))"
proof -
  let ?bs = "take (LENGTH('a) div 8) (drop index data)"
  have "ntoh le (load_word le ?bs :: 'a word) = net_read data index"
    using assms unfolding net_read_def by (intro ntoh_load_word) auto
  then have "hton le (net_read data index :: 'a word) = ntoh le (hton le (load_word le ?bs))"
    by (simp add: ntoh_def)
  then show ?thesis using assms by (simp add: read_word_in_bounds ntoh_hton)
qed

subsection \<open>\<open>loadString\<close> and \<open>decodeHead\<close>\<close>

text \<open>\<open>index\<close>, \<open>leftLen\<close> and \<open>target\<close> are reference parameters: the result carries
  their new values behind the returned flag.\<close>

definition loadString ::
  "bool \<Rightarrow> nat \<Rightarrow> nat \<Rightarrow> string \<Rightarrow> string \<Rightarrow> (bool \<times> nat \<times> nat \<times> string) option" where
  "loadString le index leftLen data target =
     (if leftLen < size_of TYPE(u32) then Some (False, index, leftLen, target)
      else do {
        netLen \<leftarrow> (read_word le data index :: u32 option);
        let hostLen = unat (ntoh le netLen);
        let leftLen = leftLen - size_of TYPE(u32);
        let index = index + size_of TYPE(u32);
        if leftLen < hostLen then Some (False, index, leftLen, target)
        else do {
          chunk \<leftarrow> read_bytes data index hostLen;
          Some (True, index + hostLen, leftLen - hostLen, target @ chunk)
        }
      })"

text \<open>\<open>messageType\<close> is written only when the head is accepted.\<close>

definition decodeHead :: "bool \<Rightarrow> string \<Rightarrow> RpcMessageType \<Rightarrow> (bool \<times> RpcMessageType) option" where
  "decodeHead le msg messageType =
     (let headSize = size_of TYPE(u16) + size_of TYPE(u8) in
      if length msg < headSize then Some (False, messageType)
      else do {
        version \<leftarrow> (read_word le msg 0 :: u16 option);
        type \<leftarrow> (read_word le msg (size_of TYPE(u16)) :: u8 option);
        let version = ntoh le version;
        let type = ntoh le type;
        if version \<noteq> kRpcProtocolVersion then Some (False, messageType)
        else if type \<noteq> type_code kRequest \<and> type \<noteq> type_code kResponse \<and> type \<noteq> type_code kCancel
        then Some (False, messageType)
        else Some (True, if type = type_code kRequest then kRequest
                         else if type = type_code kResponse then kResponse else kCancel)
      })"

subsection \<open>\<open>RpcRequest\<close>\<close>

record RpcRequest =
  rq_requestId :: u64
  rq_service :: string
  rq_method :: string
  rq_payload :: string

definition RpcRequest_default :: RpcRequest where
  "RpcRequest_default =
     \<lparr>rq_requestId = 0, rq_service = [], rq_method = [], rq_payload = []\<rparr>"

definition RpcRequest_OutputMessageLen :: "nat \<Rightarrow> nat \<Rightarrow> nat \<Rightarrow> nat" where
  "RpcRequest_OutputMessageLen serviceNameLen methodNameLen payloadLen =
     (VERSION_LEN + REQUEST_TYPE_LEN + REQUEST_ID_LEN + SERVICE_NAME_LEN + METHOD_NAME_LEN +
      PALOAD_MESSAGE_LEN + serviceNameLen + methodNameLen + payloadLen) mod size_max"

text \<open>The result is the returned flag, the output buffer and the error message.\<close>

definition RpcRequest_encode ::
  "bool \<Rightarrow> RpcRequest \<Rightarrow> string \<Rightarrow> string \<Rightarrow> (bool \<times> string \<times> string) option" where
  "RpcRequest_encode le this output errorMessage =
     (if length (rq_service this) > UINT32_MAX \<or> length (rq_method this) > UINT32_MAX \<or>
         length (rq_payload this) > UINT32_MAX
      then Some (False, output,
                 errorMessage @ ''service_ or method or payload out of capacity!'')
      else do {
        let msgLen = RpcRequest_OutputMessageLen (length (rq_service this))
                       (length (rq_method this)) (length (rq_payload this));
        let data = resize output msgLen;
        let versionNet = hton le kRpcProtocolVersion;
        let requestIdNet = hton le (rq_requestId this);
        let serviceLenNet = hton le (of_nat (length (rq_service this)) :: u32);
        let methodLenNet = hton le (of_nat (length (rq_method this)) :: u32);
        let payloadLenNet = hton le (of_nat (length (rq_payload this)) :: u32);
        (data, _) \<leftarrow> put_all
          [mem_bytes le versionNet,
           mem_bytes le (type_code kRequest),
           mem_bytes le requestIdNet,
           mem_bytes le serviceLenNet,
           rq_service this,
           mem_bytes le methodLenNet,
           rq_method this,
           mem_bytes le payloadLenNet,
           rq_payload this] (data, 0);
        Some (True, data, errorMessage)
      })"

text \<open>The result is the returned flag, the object after the call and the error message. The
  object changes only at the end of a successful call.\<close>

definition RpcRequest_decode ::
  "bool \<Rightarrow> RpcRequest \<Rightarrow> string \<Rightarrow> string \<Rightarrow> (bool \<times> RpcRequest \<times> string) option" where
  "RpcRequest_decode le this requestMsg errorMsg =
     (let leftLen = length requestMsg; fail = (\<lambda>m. Some (False, this, errorMsg @ m)) in
      if leftLen \<le> 0 then fail ''length <= 0''
      else if leftLen < size_of TYPE(u16) then fail ''version length error''
      else do {
        let index = 0;
        let data = requestMsg;
        versionNet \<leftarrow> (read_word le data index :: u16 option);
        let versionHost = ntoh le versionNet;
        let leftLen = leftLen - size_of TYPE(u16);
        let index = index + size_of TYPE(u16);
        if versionHost \<noteq> kRpcProtocolVersion then fail ''unsupported rpc protocol version''
        else if leftLen < size_of TYPE(u8) then fail ''type length error''
        else do {
          type \<leftarrow> (read_word le data index :: u8 option);
          let leftLen = leftLen - 1;
          let index = index + 1;
          if type \<noteq> type_code kRequest then fail ''illegal request type''
          else if leftLen < size_of TYPE(u64) then fail ''request id length error''
          else do {
            requestIdNet \<leftarrow> (read_word le data index :: u64 option);
            let requestIdHost = ntoh le requestIdNet;
            let leftLen = leftLen - size_of TYPE(u64);
            let index = index + size_of TYPE(u64);
            (ok, index, leftLen, service) \<leftarrow> loadString le index leftLen data [];
            if \<not> ok then fail ''service load error''
            else do {
              (ok, index, leftLen, method) \<leftarrow> loadString le index leftLen data [];
              if \<not> ok then fail ''method load error''
              else do {
                (ok, index, leftLen, payload) \<leftarrow> loadString le index leftLen data [];
                if \<not> ok then fail ''payload load error''
                else if leftLen \<noteq> 0 then fail ''msg length too much''
                else Some (True,
                  \<lparr>rq_requestId = requestIdHost, rq_service = service, rq_method = method,
                   rq_payload = payload\<rparr>, errorMsg)
              }
            }
          }
        }
      })"

subsection \<open>\<open>RpcResponse\<close>\<close>

record RpcResponse =
  rs_requestId :: u64
  rs_responseResult :: ResponseResult
  rs_errorCode :: RpcErrorCode
  rs_payload :: string
  rs_errorMessage :: string

definition RpcResponse_default :: RpcResponse where
  "RpcResponse_default =
     \<lparr>rs_requestId = 0, rs_responseResult = kUnsuccess, rs_errorCode = INTERNAL_ERROR,
      rs_payload = [], rs_errorMessage = []\<rparr>"

text \<open>The four-argument constructor derives the error code from the result.\<close>

definition RpcResponse_of_result ::
  "u64 \<Rightarrow> ResponseResult \<Rightarrow> string \<Rightarrow> string \<Rightarrow> RpcResponse" where
  "RpcResponse_of_result requestId responseResult payload errorMessage =
     \<lparr>rs_requestId = requestId, rs_responseResult = responseResult,
      rs_errorCode = (if responseResult = kSuccess then NO_ERROR else BUSINESS_ERROR),
      rs_payload = payload, rs_errorMessage = errorMessage\<rparr>"

definition RpcResponse_make ::
  "u64 \<Rightarrow> ResponseResult \<Rightarrow> RpcErrorCode \<Rightarrow> string \<Rightarrow> string \<Rightarrow> RpcResponse" where
  "RpcResponse_make requestId responseResult errorCode payload errorMessage =
     \<lparr>rs_requestId = requestId, rs_responseResult = responseResult, rs_errorCode = errorCode,
      rs_payload = payload, rs_errorMessage = errorMessage\<rparr>"

definition RpcResponse_OutputMessageLen :: "nat \<Rightarrow> nat \<Rightarrow> nat" where
  "RpcResponse_OutputMessageLen payloadLen errorMessageLen =
     (VERSION_LEN + REQUEST_TYPE_LEN + REQUEST_ID_LEN + RESPONSE_RESULT_LEN + ERROR_CODE_LEN +
      PALOAD_MESSAGE_LEN + ERROR_MESSAGE_LEN + payloadLen + errorMessageLen) mod size_max"

definition RpcResponse_encode ::
  "bool \<Rightarrow> RpcResponse \<Rightarrow> string \<Rightarrow> string \<Rightarrow> (bool \<times> string \<times> string) option" where
  "RpcResponse_encode le this output errorMessage =
     (let fail = (\<lambda>m. Some (False, output, errorMessage @ m)) in
      if length (rs_payload this) > UINT32_MAX \<or> length (rs_errorMessage this) > UINT32_MAX
      then fail ''payload or error message out of capacity!''
      else if rs_responseResult this = kSuccess \<and> rs_errorMessage this \<noteq> [] \<or>
              rs_responseResult this = kUnsuccess \<and> rs_payload this \<noteq> []
      then fail ''traffic error!''
      else if rs_responseResult this \<noteq> kSuccess \<and> rs_responseResult this \<noteq> kUnsuccess
      then fail ''illegal response result''
      else if rs_errorCode this \<ge> ERROR_CODE_CNT
      then fail ''error code invalid''
      else if rs_responseResult this = kSuccess \<and> rs_errorCode this \<noteq> NO_ERROR \<or>
              rs_responseResult this = kUnsuccess \<and> rs_errorCode this = NO_ERROR
      then fail ''response result and error code not Compatible''
      else do {
        let msgLen = RpcResponse_OutputMessageLen (length (rs_payload this))
                       (length (rs_errorMessage this));
        let data = resize output msgLen;
        let versionNet = hton le kRpcProtocolVersion;
        let requestIdNet = hton le (rs_requestId this);
        let errorCodeNet = hton le (rs_errorCode this);
        let payloadLenNet = hton le (of_nat (length (rs_payload this)) :: u32);
        let errorMessageLenNet = hton le (of_nat (length (rs_errorMessage this)) :: u32);
        (data, _) \<leftarrow> put_all
          [mem_bytes le versionNet,
           mem_bytes le (type_code kResponse),
           mem_bytes le requestIdNet,
           mem_bytes le (ucast (rs_responseResult this) :: u8),
           mem_bytes le errorCodeNet,
           mem_bytes le payloadLenNet,
           rs_payload this,
           mem_bytes le errorMessageLenNet,
           rs_errorMessage this] (data, 0);
        Some (True, data, errorMessage)
      })"

text \<open>The error text of the last check of \<open>decode\<close> is six Chinese characters, here their
  UTF-8 bytes.\<close>

definition data_format_error :: string where
  "data_format_error =
     [CHR 0xE6, CHR 0x95, CHR 0xB0, CHR 0xE6, CHR 0x8D, CHR 0xAE, CHR 0xE6, CHR 0xA0, CHR 0xBC,
      CHR 0xE5, CHR 0xBC, CHR 0x8F, CHR 0xE5, CHR 0x87, CHR 0xBA, CHR 0xE9, CHR 0x94, CHR 0x99]"

definition RpcResponse_decode ::
  "bool \<Rightarrow> RpcResponse \<Rightarrow> string \<Rightarrow> string \<Rightarrow> (bool \<times> RpcResponse \<times> string) option" where
  "RpcResponse_decode le this requestMsg errorMsg =
     (let leftLen = length requestMsg; fail = (\<lambda>m. Some (False, this, errorMsg @ m)) in
      if leftLen \<le> 0 then fail ''length <= 0''
      else if leftLen < size_of TYPE(u16) then fail ''version length error''
      else do {
        let index = 0;
        let data = requestMsg;
        versionNet \<leftarrow> (read_word le data index :: u16 option);
        let versionHost = ntoh le versionNet;
        let leftLen = leftLen - size_of TYPE(u16);
        let index = index + size_of TYPE(u16);
        if versionHost \<noteq> kRpcProtocolVersion then fail ''unsupported rpc protocol version''
        else if leftLen < size_of TYPE(u8) then fail ''type length error''
        else do {
          type \<leftarrow> (read_word le data index :: u8 option);
          let leftLen = leftLen - 1;
          let index = index + 1;
          if type \<noteq> type_code kResponse then fail ''illegal response type''
          else if leftLen < size_of TYPE(u64) then fail ''request id length error''
          else do {
            requestIdNet \<leftarrow> (read_word le data index :: u64 option);
            let requestIdHost = ntoh le requestIdNet;
            let leftLen = leftLen - size_of TYPE(u64);
            let index = index + size_of TYPE(u64);
            if leftLen < 1 then fail ''response result length error''
            else do {
              success \<leftarrow> (read_word le data index :: u8 option);
              let leftLen = leftLen - 1;
              let index = index + 1;
              if success \<noteq> ucast kSuccess \<and> success \<noteq> ucast kUnsuccess
              then fail ''illegal response result''
              else if leftLen < size_of TYPE(u16) then fail ''response result length error''
              else do {
                errorCodeNet \<leftarrow> (read_word le data index :: u16 option);
                let errorCode = ntoh le errorCodeNet;
                let leftLen = leftLen - size_of TYPE(u16);
                let index = index + size_of TYPE(u16);
                if errorCode \<ge> ERROR_CODE_CNT then fail ''error code invalid''
                else if success = ucast kSuccess \<and> errorCode \<noteq> NO_ERROR \<or>
                        success = ucast kUnsuccess \<and> errorCode = NO_ERROR
                then fail ''response result and error code not Compatible''
                else do {
                  (ok, index, leftLen, payload) \<leftarrow> loadString le index leftLen data [];
                  if \<not> ok then fail ''payload load error''
                  else do {
                    (ok, index, leftLen, errorMessage) \<leftarrow> loadString le index leftLen data [];
                    if \<not> ok then fail ''error message load error''
                    else if leftLen \<noteq> 0 then fail ''msg length too much''
                    else if success = ucast kSuccess \<and> errorMessage \<noteq> [] \<or>
                            success = ucast kUnsuccess \<and> payload \<noteq> []
                    then fail data_format_error
                    else Some (True,
                      \<lparr>rs_requestId = requestIdHost, rs_responseResult = ucast success,
                       rs_errorCode = errorCode, rs_payload = payload,
                       rs_errorMessage = errorMessage\<rparr>, errorMsg)
                  }
                }
              }
            }
          }
        }
      })"

subsection \<open>\<open>RpcCancel\<close>\<close>

record RpcCancel =
  cn_requestId :: u64

definition RpcCancel_default :: RpcCancel where
  "RpcCancel_default = \<lparr>cn_requestId = 0\<rparr>"

definition RpcCancel_encode ::
  "bool \<Rightarrow> RpcCancel \<Rightarrow> string \<Rightarrow> string \<Rightarrow> (bool \<times> string \<times> string) option" where
  "RpcCancel_encode le this output errorMessage =
     do {
       let kCancelMessageLen = VERSION_LEN + REQUEST_TYPE_LEN + REQUEST_ID_LEN;
       let data = resize output kCancelMessageLen;
       let versionNet = hton le kRpcProtocolVersion;
       let requestIdNet = hton le (cn_requestId this);
       (data, _) \<leftarrow> put_all
         [mem_bytes le versionNet,
          mem_bytes le (type_code kCancel),
          mem_bytes le requestIdNet] (data, 0);
       Some (True, data, errorMessage)
     }"

definition RpcCancel_decode ::
  "bool \<Rightarrow> RpcCancel \<Rightarrow> string \<Rightarrow> string \<Rightarrow> (bool \<times> RpcCancel \<times> string) option" where
  "RpcCancel_decode le this message errorMsg =
     (let leftLen = length message; fail = (\<lambda>m. Some (False, this, errorMsg @ m)) in
      if leftLen \<le> 0 then fail ''length <= 0''
      else if leftLen < size_of TYPE(u16) then fail ''version length error''
      else do {
        let index = 0;
        let data = message;
        versionNet \<leftarrow> (read_word le data index :: u16 option);
        let versionHost = ntoh le versionNet;
        let leftLen = leftLen - size_of TYPE(u16);
        let index = index + size_of TYPE(u16);
        if versionHost \<noteq> kRpcProtocolVersion then fail ''unsupported rpc protocol version''
        else if leftLen < size_of TYPE(u8) then fail ''type length error''
        else do {
          type \<leftarrow> (read_word le data index :: u8 option);
          let leftLen = leftLen - 1;
          let index = index + 1;
          if type \<noteq> type_code kCancel then fail ''illegal cancel type''
          else if leftLen < size_of TYPE(u64) then fail ''request id length error''
          else do {
            requestIdNet \<leftarrow> (read_word le data index :: u64 option);
            let requestIdHost = ntoh le requestIdNet;
            let leftLen = leftLen - size_of TYPE(u64);
            if leftLen > 0 then fail ''cancel length error''
            else Some (True, \<lparr>cn_requestId = requestIdHost\<rparr>, errorMsg)
          }
        }
      })"

subsection \<open>The wire format\<close>

text \<open>The format itself: what a valid message is and the bytes that stand for it.\<close>

definition string_wire :: "string \<Rightarrow> string" where
  "string_wire s = net_bytes (of_nat (length s) :: u32) @ s"

definition head_wire :: "RpcMessageType \<Rightarrow> u64 \<Rightarrow> string" where
  "head_wire t rid = net_bytes kRpcProtocolVersion @ net_bytes (type_code t) @ net_bytes rid"

definition request_valid :: "RpcRequest \<Rightarrow> bool" where
  "request_valid r \<longleftrightarrow> length (rq_service r) \<le> UINT32_MAX \<and> length (rq_method r) \<le> UINT32_MAX \<and>
     length (rq_payload r) \<le> UINT32_MAX"

definition request_wire :: "RpcRequest \<Rightarrow> string" where
  "request_wire r = head_wire kRequest (rq_requestId r) @ string_wire (rq_service r) @
     string_wire (rq_method r) @ string_wire (rq_payload r)"

text \<open>A success carries no error code and no error text, a failure a defined non-zero error code
  and no payload.\<close>

definition outcome_valid :: "ResponseResult \<Rightarrow> RpcErrorCode \<Rightarrow> string \<Rightarrow> string \<Rightarrow> bool" where
  "outcome_valid res ec payload err \<longleftrightarrow>
     res = kSuccess \<and> ec = NO_ERROR \<and> err = [] \<or>
     res = kUnsuccess \<and> ec \<noteq> NO_ERROR \<and> ec < ERROR_CODE_CNT \<and> payload = []"

definition response_valid :: "RpcResponse \<Rightarrow> bool" where
  "response_valid r \<longleftrightarrow>
     length (rs_payload r) \<le> UINT32_MAX \<and> length (rs_errorMessage r) \<le> UINT32_MAX \<and>
     outcome_valid (rs_responseResult r) (rs_errorCode r) (rs_payload r) (rs_errorMessage r)"

definition response_wire :: "RpcResponse \<Rightarrow> string" where
  "response_wire r = head_wire kResponse (rs_requestId r) @
     net_bytes (ucast (rs_responseResult r) :: u8) @ net_bytes (rs_errorCode r) @
     string_wire (rs_payload r) @ string_wire (rs_errorMessage r)"

definition cancel_wire :: "RpcCancel \<Rightarrow> string" where
  "cancel_wire r = head_wire kCancel (cn_requestId r)"

lemma length_string_wire [simp]: "length (string_wire s) = 4 + length s"
  by (simp add: string_wire_def)

lemma length_head_wire [simp]: "length (head_wire t rid) = 11"
  by (simp add: head_wire_def)

lemma length_request_wire: "request_valid r \<Longrightarrow> length (request_wire r) =
    RpcRequest_OutputMessageLen (length (rq_service r)) (length (rq_method r)) (length (rq_payload r))"
  by (simp add: request_valid_def request_wire_def RpcRequest_OutputMessageLen_def field_lens)

lemma length_response_wire: "response_valid r \<Longrightarrow> length (response_wire r) =
    RpcResponse_OutputMessageLen (length (rs_payload r)) (length (rs_errorMessage r))"
  by (simp add: response_valid_def response_wire_def RpcResponse_OutputMessageLen_def field_lens)

lemma length_cancel_wire [simp]: "length (cancel_wire c) = 11"
  by (simp add: cancel_wire_def)

subsection \<open>The encoders\<close>

lemma RpcRequest_encode_eq:
  "RpcRequest_encode le r out e =
     (if request_valid r then Some (True, request_wire r, e)
      else Some (False, out, e @ ''service_ or method or payload out of capacity!''))"
proof (cases "request_valid r")
  case True
  then have len: "length (resize out (RpcRequest_OutputMessageLen (length (rq_service r))
      (length (rq_method r)) (length (rq_payload r)))) = length (request_wire r)"
    by (simp add: length_request_wire)
  show ?thesis
    using True len unfolding RpcRequest_encode_def Let_def request_wire_def head_wire_def string_wire_def
    by (simp add: request_valid_def mem_bytes_hton mem_bytes_u8 put_all_fill)
next
  case False
  then show ?thesis by (auto simp: RpcRequest_encode_def request_valid_def)
qed

lemma RpcResponse_encode_valid:
  assumes "response_valid r"
  shows "RpcResponse_encode le r out e = Some (True, response_wire r, e)"
proof -
  have len: "length (resize out (RpcResponse_OutputMessageLen (length (rs_payload r))
      (length (rs_errorMessage r)))) = length (response_wire r)"
    using assms by (simp add: length_response_wire)
  show ?thesis
    using assms len unfolding RpcResponse_encode_def Let_def response_wire_def head_wire_def
      string_wire_def response_valid_def outcome_valid_def
    by (auto simp add: mem_bytes_hton mem_bytes_u8 put_all_fill)
qed

lemma RpcResponse_encode_invalid:
  assumes "\<not> response_valid r"
  shows "\<exists>m. m \<noteq> [] \<and> RpcResponse_encode le r out e = Some (False, out, e @ m)"
  using assms
  unfolding RpcResponse_encode_def Let_def response_valid_def outcome_valid_def
  by (auto simp: not_le)

lemma RpcCancel_encode_eq: "RpcCancel_encode le c out e = Some (True, cancel_wire c, e)"
  by (simp add: RpcCancel_encode_def Let_def cancel_wire_def head_wire_def field_lens
      mem_bytes_hton mem_bytes_u8 put_all_fill)

subsection \<open>Reading a length-prefixed string\<close>

text \<open>At a well-formed string the loader takes it and stops behind it.\<close>

lemma loadString_wire:
  assumes data: "data = pre @ string_wire s @ rest" and index: "index = length pre"
    and len: "length s \<le> UINT32_MAX" and left: "leftLen = length data - index"
  shows "loadString le index leftLen data t =
           Some (True, index + (4 + length s), length rest, t @ s)"
proof -
  have read: "(net_read data index :: u32) = of_nat (length s)"
    using data index by (simp add: net_read_def string_wire_def load_mem_bytes)
  have "unat (of_nat (length s) :: u32) = length s"
    using len by (simp add: unat_of_nat)
  then show ?thesis
    using data index left
    by (simp add: loadString_def size_of_def cursor_simps read ntoh_hton Let_def string_wire_def)
qed

text \<open>With the number of bytes left equal to the length of the unread rest, the loader never
  leaves the buffer, and what it accepts is a well-formed string.\<close>

lemma loadString_cases [consumes 2]:
  assumes "index \<le> length data" and "leftLen = length data - index"
  obtains (fail) i l where "loadString le index leftLen data t = Some (False, i, l, t)"
  | (ok) i s where "loadString le index leftLen data t = Some (True, i, length data - i, t @ s)"
      and "i \<le> length data" and "drop index data = string_wire s @ drop i data"
      and "length s \<le> UINT32_MAX" and "i = index + (4 + length s)"
proof -
  let ?n = "unat (net_read data index :: u32)"
  consider "leftLen < 4" | "4 \<le> leftLen" "leftLen - 4 < ?n" | "4 \<le> leftLen" "?n \<le> leftLen - 4"
    by linarith
  then show thesis
  proof cases
    case 1
    then show thesis by (intro fail) (simp add: loadString_def size_of_def)
  next
    case 2
    then show thesis
      using assms by (intro fail) (simp add: loadString_def size_of_def cursor_simps ntoh_hton Let_def)
  next
    case 3
    let ?s = "take ?n (drop (index + 4) data)"
    have len: "length ?s = ?n" using 3 assms by simp
    have "?n < 2 ^ 32" using unsigned_less[of "net_read data index :: u32"] by simp
    moreover have "drop index data = net_bytes (net_read data index :: u32) @ drop (index + 4) data"
      using 3 assms drop_net_read[where 'a = 32, of index data] by simp
    moreover have "drop (index + 4) data = ?s @ drop (index + (4 + ?n)) data"
      by (metis (no_types, opaque_lifting) add.assoc add.commute append_take_drop_id drop_drop)
    ultimately show thesis
      using 3 assms len
      by (intro ok[of "index + (4 + ?n)" ?s])
        (auto simp: loadString_def size_of_def cursor_simps ntoh_hton Let_def string_wire_def)
  qed
qed

subsection \<open>The common head of a message\<close>

declare add_2_eq_Suc [simp del] add_2_eq_Suc' [simp del]

definition head_ok :: "RpcMessageType \<Rightarrow> string \<Rightarrow> bool" where
  "head_ok t msg \<longleftrightarrow> 11 \<le> length msg \<and> (net_read msg 0 :: u16) = kRpcProtocolVersion \<and>
     (net_read msg 2 :: u8) = type_code t"

lemma head_ok_wire: "head_ok t (head_wire t rid @ rest)"
  by (simp add: head_ok_def head_wire_def net_read_def load_mem_bytes)

lemma net_read_head_wire [simp]: "net_read (head_wire t rid @ rest) 3 = rid"
  by (simp add: head_wire_def net_read_def load_mem_bytes)

lemma head_ok_split: "head_ok t msg \<Longrightarrow> msg = head_wire t (net_read msg 3) @ drop 11 msg"
  using drop_net_read[where 'a = 16, of 0 msg] drop_net_read[where 'a = 8, of 2 msg]
    drop_net_read[where 'a = 64, of 3 msg]
  by (simp add: head_ok_def head_wire_def)

lemma head_ok_type: "head_ok t msg \<Longrightarrow> head_ok t' msg \<Longrightarrow> t = t'"
  by (cases t; cases t') (auto simp: head_ok_def)

lemmas decode_simps = size_of_def cursor_simps ntoh_hton Let_def

text \<open>A decoder rejects a message whose head is not the one of its type.\<close>

lemma RpcRequest_decode_head:
  assumes "\<not> head_ok kRequest msg"
  shows "\<exists>m. m \<noteq> [] \<and> RpcRequest_decode le this msg e = Some (False, this, e @ m)"
  using assms by (auto simp: RpcRequest_decode_def head_ok_def decode_simps not_le)

lemma RpcResponse_decode_head:
  assumes "\<not> head_ok kResponse msg"
  shows "\<exists>m. m \<noteq> [] \<and> RpcResponse_decode le this msg e = Some (False, this, e @ m)"
  using assms by (auto simp: RpcResponse_decode_def head_ok_def decode_simps not_le)

lemma RpcCancel_decode_head:
  assumes "\<not> head_ok kCancel msg"
  shows "\<exists>m. m \<noteq> [] \<and> RpcCancel_decode le this msg e = Some (False, this, e @ m)"
  using assms by (auto simp: RpcCancel_decode_def head_ok_def decode_simps not_le)

subsection \<open>The decoders\<close>

lemma RpcRequest_decode_body:
  assumes "head_ok kRequest msg"
  shows "RpcRequest_decode le this msg e =
     do {
       (ok, index, leftLen, service) \<leftarrow> loadString le 11 (length msg - 11) msg [];
       if \<not> ok then Some (False, this, e @ ''service load error'')
       else do {
         (ok, index, leftLen, method) \<leftarrow> loadString le index leftLen msg [];
         if \<not> ok then Some (False, this, e @ ''method load error'')
         else do {
           (ok, index, leftLen, payload) \<leftarrow> loadString le index leftLen msg [];
           if \<not> ok then Some (False, this, e @ ''payload load error'')
           else if leftLen \<noteq> 0 then Some (False, this, e @ ''msg length too much'')
           else Some (True, \<lparr>rq_requestId = net_read msg 3, rq_service = service,
             rq_method = method, rq_payload = payload\<rparr>, e)
         }
       }
     }"
proof -
  have "\<not> length msg - 3 < 8" "msg \<noteq> []"
    using assms by (auto simp: head_ok_def)
  then show ?thesis
    using assms by (simp add: RpcRequest_decode_def head_ok_def decode_simps cong: if_cong)
qed

lemma RpcRequest_decode_wire:
  assumes valid: "request_valid r"
  shows "RpcRequest_decode le this (request_wire r) e = Some (True, r, e)"
proof -
  let ?m = "request_wire r" and ?h = "head_wire kRequest (rq_requestId r)"
  let ?s = "string_wire (rq_service r)" and ?mt = "string_wire (rq_method r)"
    and ?p = "string_wire (rq_payload r)"
  have head: "head_ok kRequest ?m" and rid: "net_read ?m 3 = rq_requestId r"
    by (simp_all add: request_wire_def head_ok_wire)
  have "loadString le 11 (length ?m - 11) ?m [] =
      Some (True, 11 + length ?s, length (?mt @ ?p), rq_service r)"
    using valid loadString_wire[of ?m ?h "rq_service r" "?mt @ ?p" 11 _ le "[]"]
    by (simp add: request_wire_def request_valid_def)
  moreover have "loadString le (11 + length ?s) (length (?mt @ ?p)) ?m [] =
      Some (True, 11 + length (?s @ ?mt), length ?p, rq_method r)"
    using valid loadString_wire[of ?m "?h @ ?s" "rq_method r" ?p "11 + length ?s" _ le "[]"]
    by (simp add: request_wire_def request_valid_def)
  moreover have "loadString le (11 + length (?s @ ?mt)) (length ?p) ?m [] =
      Some (True, length ?m, 0, rq_payload r)"
    using valid
      loadString_wire[of ?m "?h @ ?s @ ?mt" "rq_payload r" "[]" "11 + length (?s @ ?mt)" _ le "[]"]
    by (simp add: request_wire_def request_valid_def)
  ultimately show ?thesis
    by (simp add: RpcRequest_decode_body[OF head] rid)
qed

lemma RpcRequest_decode_cases:
  obtains (fail) m where "m \<noteq> []" and "RpcRequest_decode le this msg e = Some (False, this, e @ m)"
  | (ok) r where "RpcRequest_decode le this msg e = Some (True, r, e)"
      and "request_valid r" and "msg = request_wire r"
proof (cases "head_ok kRequest msg")
  case False
  then show thesis using RpcRequest_decode_head fail by blast
next
  case True
  note msg = head_ok_split[OF True]
  have len: "11 \<le> length msg" using True by (simp add: head_ok_def)
  note body = RpcRequest_decode_body[OF True, of le this e]
  from len refl[of "length msg - 11"] show thesis
  proof (cases rule: loadString_cases[where le = le and t = "[]"])
    case fail
    then show thesis by (intro that(1)) (auto simp: body)
  next
    case (ok i s)
    note l1 = ok
    from l1(2) refl[of "length msg - i"] show thesis
    proof (cases rule: loadString_cases[where le = le and t = "[]"])
      case fail
      with l1 show thesis by (intro that(1)) (auto simp: body)
    next
      case (ok i2 mt)
      note l2 = ok
      from l2(2) refl[of "length msg - i2"] show thesis
      proof (cases rule: loadString_cases[where le = le and t = "[]"])
        case fail
        with l1 l2 show thesis by (intro that(1)) (auto simp: body)
      next
        case (ok i3 p)
        note l3 = ok
        let ?r = "\<lparr>rq_requestId = net_read msg 3, rq_service = s, rq_method = mt, rq_payload = p\<rparr>"
        show thesis
        proof (cases "i3 = length msg")
          case True
          have "msg = request_wire ?r"
            using msg l1(3) l2(3) l3(3) True by (simp add: request_wire_def)
          with True l1 l2 l3 show thesis
            by (intro that(2)[of ?r]) (simp_all add: body request_valid_def)
        next
          case False
          with l1 l2 l3 show thesis
            by (intro that(1)) (auto simp: body)
        qed
      qed
    qed
  qed
qed

text \<open>The result of a decoder in one statement: it never leaves the buffer; it accepts exactly
  the encodings of valid messages and then returns the message and no error; it rejects every
  other byte string with a non-empty error text and leaves the object as it was.\<close>

definition decode_result ::
  "('m \<Rightarrow> bool) \<Rightarrow> ('m \<Rightarrow> string) \<Rightarrow> 'm \<Rightarrow> string \<Rightarrow> string \<Rightarrow> (bool \<times> 'm \<times> string) option \<Rightarrow> bool" where
  "decode_result valid wire this msg e res \<longleftrightarrow>
     (case res of
        None \<Rightarrow> False
      | Some (ok, m, e') \<Rightarrow>
          if ok then valid m \<and> msg = wire m \<and> e' = e
          else m = this \<and> (\<exists>t. t \<noteq> [] \<and> e' = e @ t) \<and> msg \<notin> wire ` Collect valid)"

text \<open>C6: \<open>RpcRequest::decode\<close>, on any host and any input, reads only inside the message,
  accepts exactly the encodings of valid requests and returns the encoded request; on every other
  input it fails with an error text and leaves the request object unchanged.\<close>

theorem RpcRequest_decode_correct:
  "decode_result request_valid request_wire this msg e (RpcRequest_decode le this msg e)"
proof (cases rule: RpcRequest_decode_cases[of le this msg e])
  case (fail m)
  moreover have "msg \<notin> request_wire ` Collect request_valid"
    using fail RpcRequest_decode_wire[of _ le this e] by auto
  ultimately show ?thesis by (auto simp: decode_result_def)
next
  case (ok r)
  then show ?thesis by (simp add: decode_result_def)
qed

text \<open>The fixed part of a response behind the head: the result byte and the error code.\<close>

definition response_head_ok :: "string \<Rightarrow> bool" where
  "response_head_ok msg \<longleftrightarrow> head_ok kResponse msg \<and> 14 \<le> length msg \<and>
     ((net_read msg 11 :: u8) = 0 \<and> (net_read msg 12 :: u16) = NO_ERROR \<or>
      (net_read msg 11 :: u8) = 1 \<and> (net_read msg 12 :: u16) \<noteq> NO_ERROR \<and>
      (net_read msg 12 :: u16) < ERROR_CODE_CNT)"

lemma RpcResponse_decode_fixed:
  assumes "\<not> response_head_ok msg"
  shows "\<exists>m. m \<noteq> [] \<and> RpcResponse_decode le this msg e = Some (False, this, e @ m)"
proof (cases "head_ok kResponse msg")
  case True
  then have "\<not> length msg - 3 < 8" "msg \<noteq> []" by (auto simp: head_ok_def)
  with assms True show ?thesis
    by (auto simp: RpcResponse_decode_def response_head_ok_def head_ok_def decode_simps not_le)
qed (rule RpcResponse_decode_head)

lemma response_head_ok_wire:
  assumes "response_valid r"
  shows "response_head_ok (response_wire r)"
    and "net_read (response_wire r) 3 = rs_requestId r"
    and "(net_read (response_wire r) 11 :: u8) = ucast (rs_responseResult r)"
    and "net_read (response_wire r) 12 = rs_errorCode r"
proof -
  show "net_read (response_wire r) 3 = rs_requestId r"
    by (simp add: response_wire_def)
  show res: "(net_read (response_wire r) 11 :: u8) = ucast (rs_responseResult r)"
    and ec: "net_read (response_wire r) 12 = rs_errorCode r"
    by (simp_all add: response_wire_def net_read_def load_mem_bytes)
  have "head_ok kResponse (response_wire r)"
    by (simp add: response_wire_def head_ok_wire)
  then show "response_head_ok (response_wire r)"
    using assms res ec
    by (auto simp: response_head_ok_def response_valid_def outcome_valid_def response_wire_def)
qed

lemma response_head_ok_split:
  assumes "response_head_ok msg"
  shows "msg = head_wire kResponse (net_read msg 3) @ net_bytes (net_read msg 11 :: u8) @
    net_bytes (net_read msg 12 :: u16) @ drop 14 msg"
proof -
  have "drop 11 msg = net_bytes (net_read msg 11 :: u8) @ drop 12 msg"
    using assms drop_net_read[where 'a = 8, of 11 msg] by (simp add: response_head_ok_def)
  moreover have "drop 12 msg = net_bytes (net_read msg 12 :: u16) @ drop 14 msg"
    using assms drop_net_read[where 'a = 16, of 12 msg] by (simp add: response_head_ok_def)
  ultimately show ?thesis
    using assms head_ok_split[of kResponse msg] by (simp add: response_head_ok_def)
qed

lemma RpcResponse_decode_body:
  assumes "response_head_ok msg"
  shows "RpcResponse_decode le this msg e =
     do {
       (ok, index, leftLen, payload) \<leftarrow> loadString le 14 (length msg - 14) msg [];
       if \<not> ok then Some (False, this, e @ ''payload load error'')
       else do {
         (ok, index, leftLen, errorMessage) \<leftarrow> loadString le index leftLen msg [];
         if \<not> ok then Some (False, this, e @ ''error message load error'')
         else if leftLen \<noteq> 0 then Some (False, this, e @ ''msg length too much'')
         else if (net_read msg 11 :: u8) = 0 \<and> errorMessage \<noteq> [] \<or>
                 (net_read msg 11 :: u8) = 1 \<and> payload \<noteq> []
         then Some (False, this, e @ data_format_error)
         else Some (True, \<lparr>rs_requestId = net_read msg 3,
           rs_responseResult = ucast (net_read msg 11 :: u8), rs_errorCode = net_read msg 12,
           rs_payload = payload, rs_errorMessage = errorMessage\<rparr>, e)
       }
     }"
proof -
  have "\<not> length msg - 3 < 8" "msg \<noteq> []" "\<not> length msg - 12 < 2" "\<not> length msg - 11 < 1"
    using assms by (auto simp: response_head_ok_def)
  moreover have "\<not> ERROR_CODE_CNT \<le> (net_read msg 12 :: u16)"
    using assms by (auto simp: response_head_ok_def)
  moreover have "(net_read msg 11 :: u8) = 0 \<or> (net_read msg 11 :: u8) = 1"
    using assms by (auto simp: response_head_ok_def)
  ultimately show ?thesis
    using assms
    by (auto simp: RpcResponse_decode_def response_head_ok_def head_ok_def decode_simps cong: if_cong)
qed

lemma RpcResponse_decode_wire:
  assumes valid: "response_valid r"
  shows "RpcResponse_decode le this (response_wire r) e = Some (True, r, e)"
proof -
  let ?m = "response_wire r"
  let ?p = "string_wire (rs_payload r)" and ?em = "string_wire (rs_errorMessage r)"
  let ?h = "head_wire kResponse (rs_requestId r) @
      net_bytes (ucast (rs_responseResult r) :: u8) @ net_bytes (rs_errorCode r)"
  note fixed = response_head_ok_wire[OF valid]
  have "loadString le 14 (length ?m - 14) ?m [] =
      Some (True, 14 + length ?p, length ?em, rs_payload r)"
    using valid loadString_wire[of ?m ?h "rs_payload r" ?em 14 _ le "[]"]
    by (simp add: response_wire_def response_valid_def)
  moreover have "loadString le (14 + length ?p) (length ?em) ?m [] =
      Some (True, length ?m, 0, rs_errorMessage r)"
    using valid
      loadString_wire[of ?m "?h @ ?p" "rs_errorMessage r" "[]" "14 + length ?p" _ le "[]"]
    by (simp add: response_wire_def response_valid_def)
  moreover have "rs_responseResult r = kSuccess \<or> rs_responseResult r = kUnsuccess"
    using valid by (auto simp: response_valid_def outcome_valid_def)
  ultimately show ?thesis
    using fixed(2-4) valid
    by (auto simp: RpcResponse_decode_body[OF fixed(1)] response_valid_def outcome_valid_def)
qed

lemma RpcResponse_decode_cases:
  obtains (fail) m where "m \<noteq> []" and "RpcResponse_decode le this msg e = Some (False, this, e @ m)"
  | (ok) r where "RpcResponse_decode le this msg e = Some (True, r, e)"
      and "response_valid r" and "msg = response_wire r"
proof (cases "response_head_ok msg")
  case False
  then show thesis using RpcResponse_decode_fixed fail by blast
next
  case True
  note msg = response_head_ok_split[OF True]
  have len: "14 \<le> length msg" using True by (simp add: response_head_ok_def)
  note body = RpcResponse_decode_body[OF True, of le this e]
  from len refl[of "length msg - 14"] show thesis
  proof (cases rule: loadString_cases[where le = le and t = "[]"])
    case fail
    then show thesis by (intro that(1)) (auto simp: body)
  next
    case (ok i p)
    note l1 = ok
    from l1(2) refl[of "length msg - i"] show thesis
    proof (cases rule: loadString_cases[where le = le and t = "[]"])
      case fail
      with l1 show thesis by (intro that(1)) (auto simp: body)
    next
      case (ok i2 em)
      note l2 = ok
      let ?r = "\<lparr>rs_requestId = net_read msg 3, rs_responseResult = ucast (net_read msg 11 :: u8),
          rs_errorCode = net_read msg 12, rs_payload = p, rs_errorMessage = em\<rparr>"
      consider "i2 < length msg" | "i2 = length msg" "\<not> response_valid ?r"
        | "i2 = length msg" "response_valid ?r"
        using l2(2) by linarith
      then show thesis
      proof cases
        case 1
        with l1 l2 show thesis by (intro that(1)) (auto simp: body)
      next
        case 2
        with True l1 l2 show thesis
          by (intro that(1)[of data_format_error])
            (auto simp: body response_head_ok_def response_valid_def outcome_valid_def data_format_error_def)
      next
        case 3
        have "msg = response_wire ?r"
          using msg l1(3) l2(3) 3(1) True by (auto simp: response_wire_def response_head_ok_def)
        with True l1 l2 3 show thesis
          by (intro that(2)[of ?r]) (auto simp: body response_valid_def outcome_valid_def)
      qed
    qed
  qed
qed

lemma RpcCancel_decode_wire: "RpcCancel_decode le this (cancel_wire c) e = Some (True, c, e)"
proof -
  have "head_ok kCancel (cancel_wire c)" "net_read (cancel_wire c) 3 = cn_requestId c"
    using head_ok_wire[of kCancel "cn_requestId c" "[]"] net_read_head_wire[of kCancel "cn_requestId c" "[]"]
    by (simp_all add: cancel_wire_def)
  moreover have "cancel_wire c \<noteq> []" by (metis length_cancel_wire list.size(3) zero_neq_numeral)
  ultimately show ?thesis by (simp add: RpcCancel_decode_def head_ok_def decode_simps)
qed

lemma RpcCancel_decode_cases:
  obtains (fail) m where "m \<noteq> []" and "RpcCancel_decode le this msg e = Some (False, this, e @ m)"
  | (ok) c where "RpcCancel_decode le this msg e = Some (True, c, e)" and "msg = cancel_wire c"
proof (cases "head_ok kCancel msg")
  case False
  then show thesis using RpcCancel_decode_head fail by blast
next
  case True
  note msg = head_ok_split[OF True]
  have len: "\<not> length msg - 3 < 8" "msg \<noteq> []" using True by (auto simp: head_ok_def)
  show thesis
  proof (cases "length msg = 11")
    case True
    then have "msg = cancel_wire \<lparr>cn_requestId = net_read msg 3\<rparr>"
      using msg by (simp add: cancel_wire_def)
    then show thesis using RpcCancel_decode_wire ok by metis
  next
    case False
    with True len show thesis
      by (intro fail) (auto simp: RpcCancel_decode_def head_ok_def decode_simps)
  qed
qed

text \<open>The way a caller uses a decoder: the message counts only when the flag is set and the error
  text is empty; the output of an encoder likewise.\<close>

definition accepted :: "(bool \<times> 'm \<times> string) option \<Rightarrow> 'm option" where
  "accepted res = (case res of None \<Rightarrow> None | Some (ok, m, e) \<Rightarrow> if \<not> ok \<or> e \<noteq> [] then None else Some m)"

interpretation request_codec: wire_codec request_valid request_wire
  "\<lambda>bs. accepted (RpcRequest_decode le this bs [])" for le this
proof
  fix m assume "request_valid m"
  then show "accepted (RpcRequest_decode le this (request_wire m) []) = Some m"
    by (simp add: RpcRequest_decode_wire accepted_def)
next
  fix bs m assume "accepted (RpcRequest_decode le this bs []) = Some m"
  then show "request_valid m \<and> request_wire m = bs"
    by (cases rule: RpcRequest_decode_cases[of le this bs "[]"]) (auto simp: accepted_def)
qed

interpretation response_codec: wire_codec response_valid response_wire
  "\<lambda>bs. accepted (RpcResponse_decode le this bs [])" for le this
proof
  fix m assume "response_valid m"
  then show "accepted (RpcResponse_decode le this (response_wire m) []) = Some m"
    by (simp add: RpcResponse_decode_wire accepted_def)
next
  fix bs m assume "accepted (RpcResponse_decode le this bs []) = Some m"
  then show "response_valid m \<and> response_wire m = bs"
    by (cases rule: RpcResponse_decode_cases[of le this bs "[]"]) (auto simp: accepted_def)
qed

interpretation cancel_codec: wire_codec "\<lambda>_. True" cancel_wire
  "\<lambda>bs. accepted (RpcCancel_decode le this bs [])" for le this
proof
  fix m :: RpcCancel
  show "accepted (RpcCancel_decode le this (cancel_wire m) []) = Some m"
    by (simp add: RpcCancel_decode_wire accepted_def)
next
  fix bs m assume "accepted (RpcCancel_decode le this bs []) = Some m"
  then show "True \<and> cancel_wire m = bs"
    by (cases rule: RpcCancel_decode_cases[of le this bs "[]"]) (auto simp: accepted_def)
qed

lemma decodeHead_eq:
  "decodeHead le msg mt =
     (if length msg < 3 \<or> (net_read msg 0 :: u16) \<noteq> kRpcProtocolVersion \<or> (net_read msg 2 :: u8) \<notin> {0, 1, 2}
      then Some (False, mt)
      else Some (True, if (net_read msg 2 :: u8) = 0 then kRequest
                       else if (net_read msg 2 :: u8) = 1 then kResponse else kCancel))"
  by (simp add: decodeHead_def decode_simps)

lemma decodeHead_wire: "decodeHead le (head_wire t rid @ rest) mt = Some (True, t)"
proof -
  have "head_ok t (head_wire t rid @ rest)" by (rule head_ok_wire)
  then show ?thesis by (cases t) (simp_all add: decodeHead_eq head_ok_def)
qed

lemma decodeHead_total: "\<exists>ok t. decodeHead le msg mt = Some (ok, t)"
  by (auto simp: decodeHead_eq)

subsection \<open>Properties of the message layer\<close>

text \<open>C8: \<open>RpcResponse::decode\<close>, on any host and any input, reads only inside the message,
  accepts exactly the encodings of valid responses (a success without error code and error text, a
  failure with a defined non-zero error code and without payload) and returns the encoded response;
  on every other input it fails with an error text and leaves the object unchanged.\<close>

theorem RpcResponse_decode_correct:
  "decode_result response_valid response_wire this msg e (RpcResponse_decode le this msg e)"
proof (cases rule: RpcResponse_decode_cases[of le this msg e])
  case (fail m)
  moreover have "msg \<notin> response_wire ` Collect response_valid"
    using fail RpcResponse_decode_wire[of _ le this e] by auto
  ultimately show ?thesis by (auto simp: decode_result_def)
next
  case (ok r)
  then show ?thesis by (simp add: decode_result_def)
qed

text \<open>\<open>RpcCancel::decode\<close> accepts exactly the eleven-byte encodings of cancel messages,
  never reads outside the message and leaves the object unchanged when it fails.\<close>

theorem RpcCancel_decode_correct:
  "decode_result (\<lambda>_. True) cancel_wire this msg e (RpcCancel_decode le this msg e)"
proof (cases rule: RpcCancel_decode_cases[of le this msg e])
  case (fail m)
  moreover have "msg \<notin> range cancel_wire"
    using fail RpcCancel_decode_wire[of le this _ e] by auto
  ultimately show ?thesis by (auto simp: decode_result_def)
next
  case (ok r)
  then show ?thesis by (simp add: decode_result_def)
qed

text \<open>What the two ends of a connection need from an encoder and a decoder that may run on hosts
  of different byte order: an encoding that succeeds stays inside its buffer, has the announced
  length and is decoded to the same message; one that fails leaves the output as it was and
  happens for invalid messages only.\<close>

definition round_trip ::
  "('m \<Rightarrow> bool) \<Rightarrow> ('m \<Rightarrow> nat) \<Rightarrow> 'm \<Rightarrow> string \<Rightarrow> string \<Rightarrow> (bool \<times> string \<times> string) option \<Rightarrow>
     (string \<Rightarrow> (bool \<times> 'm \<times> string) option) \<Rightarrow> bool" where
  "round_trip valid len m out e res dec \<longleftrightarrow>
     (case res of
        None \<Rightarrow> False
      | Some (ok, bs, e') \<Rightarrow>
          if ok then valid m \<and> length bs = len m \<and> e' = e \<and> dec bs = Some (True, m, e)
          else \<not> valid m \<and> bs = out \<and> (\<exists>t. t \<noteq> [] \<and> e' = e @ t))"

text \<open>C21: a request encoded on one host is decoded to the same request on any other host, whatever
  their byte orders and whatever the output buffer held; the encoding has the length
  \<open>OutputMessageLen\<close> announces, and \<open>encode\<close> refuses exactly the requests with a field longer
  than \<open>UINT32_MAX\<close>.\<close>

theorem RpcRequest_round_trip:
  "round_trip request_valid
     (\<lambda>r. RpcRequest_OutputMessageLen (length (rq_service r)) (length (rq_method r)) (length (rq_payload r)))
     r out e (RpcRequest_encode le r out e) (\<lambda>bs. RpcRequest_decode le' this bs e)"
  by (simp add: round_trip_def RpcRequest_encode_eq RpcRequest_decode_wire length_request_wire)

text \<open>A response encoded on one host is decoded to the same response on any other host; the
  encoding has the announced length, and \<open>encode\<close> refuses exactly the responses that are not
  valid: an over-long field, an undefined result or error code, or a result that does not fit the
  error code, the payload or the error text.\<close>

theorem RpcResponse_round_trip:
  "round_trip response_valid
     (\<lambda>r. RpcResponse_OutputMessageLen (length (rs_payload r)) (length (rs_errorMessage r)))
     r out e (RpcResponse_encode le r out e) (\<lambda>bs. RpcResponse_decode le' this bs e)"
proof (cases "response_valid r")
  case True
  then show ?thesis
    by (simp add: round_trip_def RpcResponse_encode_valid RpcResponse_decode_wire length_response_wire)
next
  case False
  then show ?thesis
    using RpcResponse_encode_invalid[of r le out e] by (auto simp: round_trip_def)
qed

text \<open>\<open>decodeHead\<close> never reads outside the message; it accepts a message exactly when the
  first three bytes are the protocol version and a known type code, returns that type, and leaves
  its output untouched otherwise.\<close>

theorem decodeHead_correct:
  "case decodeHead le msg mt of
     None \<Rightarrow> False
   | Some (ok, t) \<Rightarrow>
       if ok then (\<exists>rest. msg = net_bytes kRpcProtocolVersion @ net_bytes (type_code t) @ rest)
       else t = mt \<and>
         (\<nexists>t' rest. msg = net_bytes kRpcProtocolVersion @ net_bytes (type_code t') @ rest)"
proof (cases "length msg < 3")
  case True
  then have "\<nexists>t' rest. msg = net_bytes kRpcProtocolVersion @ net_bytes (type_code t') @ rest"
    by auto
  with True show ?thesis by (simp add: decodeHead_def size_of_def)
next
  case False
  let ?v = "net_read msg 0 :: u16" and ?c = "net_read msg 2 :: u8"
  have split: "msg = net_bytes ?v @ net_bytes ?c @ drop 3 msg"
    using False drop_net_read[where 'a = 16, of 0 msg] drop_net_read[where 'a = 8, of 2 msg] by simp
  have uniq: "v = ?v \<and> c = ?c" if "msg = net_bytes v @ net_bytes c @ rest" for v :: u16 and c :: u8 and rest
    using that by (simp add: net_read_def load_mem_bytes)
  have dec: "decodeHead le msg mt =
      (if ?v \<noteq> kRpcProtocolVersion \<or> ?c \<notin> {0, 1, 2} then Some (False, mt)
       else Some (True, if ?c = 0 then kRequest else if ?c = 1 then kResponse else kCancel))"
    using False by (simp add: decodeHead_eq)
  show ?thesis
  proof (cases "?v = kRpcProtocolVersion \<and> ?c \<in> {0, 1, 2}")
    case True
    then show ?thesis using split by (auto simp: dec)
  next
    case False
    have code: "type_code t \<in> {0, 1, 2}" for t by (cases t) auto
    have none: "msg \<noteq> net_bytes kRpcProtocolVersion @ net_bytes (type_code t') @ rest" for t' rest
      using uniq[of kRpcProtocolVersion "type_code t'" rest] code[of t'] False by auto
    from False show ?thesis by (simp add: dec none)
  qed
qed

end
