(* ===== verification/Task_Thread_Pool.thy ===== *)
theory Task_Thread_Pool
  imports Rpc_Prelude
begin

section \<open>The task thread pool (TaskThreadPool.h, TaskThreadPool.cc)\<close>

text \<open>
  The pool is a monitor: one mutex, one condition variable, a queue and worker threads. A
  critical section of the source is one operation here, and everything that happens outside the
  mutex is a step of its own, so that all interleavings of workers, submitters and the stopping
  thread are runs of the relation \<open>pool_step\<close>:
  \<^item> a worker between two critical sections is \<open>Checking\<close> (about to evaluate the predicate
    of \<open>condition_.wait\<close>), \<open>Blocked\<close> in the wait, \<open>Executing\<close> a task, or \<open>Exited\<close>;
  \<^item> \<open>addTask\<close> releases the mutex before \<open>notify_one\<close>: \<open>notifies\<close> counts the calls
    between the two;
  \<^item> \<open>stop\<close> (and the error path of \<open>start\<close>) runs through the phases \<open>join_phase\<close>:
    \<open>notify_all\<close>, the join loop with its \<open>uint8_t\<close> index, clearing the vector, the
    final status.
  Tasks are values of any type; an empty \<open>std::function\<close> is \<^const>\<open>None\<close>. A task that throws
  ends like one that returns. The extension \<open>traced_pool\<close> adds the history of accepted, begun
  and finished tasks, which no operation reads.
\<close>

datatype TaskThreadPoolStatus = NOT_START | RUNNING | STOPPING | STOPPED

datatype TaskSubmitResult = kAccepted | kNotRunning | kQueueFull | kEmptyTask

datatype 'a worker = Checking | Blocked | Executing 'a | Exited

datatype join_phase = J_none | J_notify | J_join u8 | J_finish

record 'a pool =
  pl_status :: TaskThreadPoolStatus
  pl_threadCnt :: u8
  pl_maxQueueTasks :: "nat option"
  pl_tasks :: "'a list"
  pl_threads :: "'a worker list"
  pl_notifies :: nat
  pl_phase :: join_phase

text \<open>The constructor asserts that the number of threads is positive.\<close>

definition TaskThreadPool_new :: "u8 \<Rightarrow> 'a pool option" where
  "TaskThreadPool_new cnt =
     (if cnt > 0 then Some \<lparr>pl_status = NOT_START, pl_threadCnt = cnt, pl_maxQueueTasks = None, pl_tasks = [],
        pl_threads = [], pl_notifies = 0, pl_phase = J_none\<rparr> else None)"

text \<open>The creation loop of \<open>start\<close>: the index runs up to the thread count and each round adds a
  worker; \<open>created\<close> is the number of threads the system can still create before
  \<open>emplace_back\<close> throws. The flag tells whether the loop ended normally.\<close>

function start_loop :: "u8 \<Rightarrow> u8 \<Rightarrow> nat \<Rightarrow> 'a worker list \<Rightarrow> bool \<times> 'a worker list" where
  "start_loop i cnt created ts =
     (if i < cnt then (case created of 0 \<Rightarrow> (False, ts)
                       | Suc n \<Rightarrow> start_loop (i + 1) cnt n (ts @ [Checking]))
      else (True, ts))"
  by pat_completeness auto
termination
  by (relation "measure (\<lambda>(i, cnt, created, ts). created)") auto

declare start_loop.simps [simp del]

text \<open>\<open>start\<close>. When a thread cannot be created the pool goes to \<open>STOPPING\<close>, wakes and joins
  the workers made so far, ends \<open>STOPPED\<close> and rethrows: it enters the phases of \<open>stop\<close>.\<close>

definition TaskThreadPool_start :: "nat \<Rightarrow> ('a, 'b) pool_scheme \<Rightarrow> ('a, 'b) pool_scheme" where
  "TaskThreadPool_start created p =
     (if pl_status p \<noteq> NOT_START then p
      else case start_loop 0 (pl_threadCnt p) created (pl_threads p) of
        (True, ts) \<Rightarrow> p\<lparr>pl_status := RUNNING, pl_threads := ts\<rparr>
      | (False, ts) \<Rightarrow> p\<lparr>pl_status := STOPPING, pl_threads := ts, pl_phase := J_notify\<rparr>)"

text \<open>The critical section of \<open>addTask\<close>; an accepted task leaves a \<open>notify_one\<close> to be done.\<close>

definition addTask ::
  "'a option \<Rightarrow> ('a, 'b) pool_scheme \<Rightarrow> TaskSubmitResult \<times> ('a, 'b) pool_scheme" where
  "addTask task p =
     (case task of
        None \<Rightarrow> (kEmptyTask, p)
      | Some t \<Rightarrow>
          if pl_status p \<noteq> RUNNING then (kNotRunning, p)
          else if (case pl_maxQueueTasks p of None \<Rightarrow> False | Some m \<Rightarrow> length (pl_tasks p) \<ge> m)
          then (kQueueFull, p)
          else (kAccepted, p\<lparr>pl_tasks := pl_tasks p @ [t], pl_notifies := pl_notifies p + 1\<rparr>))"

text \<open>\<open>setMaxQueueTasks\<close> asserts a positive limit and acts only before the start.\<close>

definition setMaxQueueTasks :: "nat \<Rightarrow> ('a, 'b) pool_scheme \<Rightarrow> ('a, 'b) pool_scheme option" where
  "setMaxQueueTasks m p =
     (if \<not> m > 0 then None
      else if pl_status p \<noteq> NOT_START \<or> m < 1 then Some p
      else Some (p\<lparr>pl_maxQueueTasks := Some m\<rparr>))"

text \<open>\<open>notify_one\<close> wakes one blocked worker, if there is one; which one is not determined.\<close>

definition wake :: "nat \<Rightarrow> ('a, 'b) pool_scheme \<Rightarrow> ('a, 'b) pool_scheme" where
  "wake i p = p\<lparr>pl_threads := (pl_threads p)[i := Checking]\<rparr>"

definition wake_all :: "'a worker list \<Rightarrow> 'a worker list" where
  "wake_all = map (\<lambda>w. if w = Blocked then Checking else w)"

text \<open>The critical section of \<open>run\<close> in worker \<open>i\<close>: the wait predicate, the exit test, or
  taking the front task.\<close>

definition run_check :: "nat \<Rightarrow> ('a, 'b) pool_scheme \<Rightarrow> ('a, 'b) pool_scheme" where
  "run_check i p =
     (if \<not> (pl_tasks p \<noteq> [] \<or> pl_status p \<noteq> RUNNING) then p\<lparr>pl_threads := (pl_threads p)[i := Blocked]\<rparr>
      else case pl_tasks p of
        [] \<Rightarrow> if pl_status p \<noteq> RUNNING then p\<lparr>pl_threads := (pl_threads p)[i := Exited]\<rparr> else p
      | t # ts \<Rightarrow> p\<lparr>pl_threads := (pl_threads p)[i := Executing t], pl_tasks := ts\<rparr>)"

text \<open>\<open>task()\<close> returned or threw: the worker goes back to the head of the loop.\<close>

definition run_finish :: "nat \<Rightarrow> ('a, 'b) pool_scheme \<Rightarrow> ('a, 'b) pool_scheme" where
  "run_finish i p = p\<lparr>pl_threads := (pl_threads p)[i := Checking]\<rparr>"

text \<open>\<open>stop\<close>: the critical section, and the phases behind it.\<close>

definition stop_begin :: "('a, 'b) pool_scheme \<Rightarrow> ('a, 'b) pool_scheme" where
  "stop_begin p = (if pl_status p \<noteq> RUNNING then p else p\<lparr>pl_status := STOPPING, pl_phase := J_notify\<rparr>)"

definition stop_notify :: "('a, 'b) pool_scheme \<Rightarrow> ('a, 'b) pool_scheme" where
  "stop_notify p = p\<lparr>pl_threads := wake_all (pl_threads p), pl_phase := J_join 0\<rparr>"

definition stop_clear :: "('a, 'b) pool_scheme \<Rightarrow> ('a, 'b) pool_scheme" where
  "stop_clear p = p\<lparr>pl_threads := [], pl_phase := J_finish\<rparr>"

definition stop_finish :: "('a, 'b) pool_scheme \<Rightarrow> ('a, 'b) pool_scheme" where
  "stop_finish p = p\<lparr>pl_status := STOPPED, pl_phase := J_none\<rparr>"

subsection \<open>Runs of the pool\<close>

record 'a traced_pool = "'a pool" +
  pl_accepted :: "'a list"
  pl_begun :: "'a list"
  pl_finished :: "'a list"

text \<open>Steps a caller makes.\<close>

inductive pool_call :: "'a traced_pool \<Rightarrow> 'a traced_pool \<Rightarrow> bool" where
  call_start: "pool_call p (TaskThreadPool_start created p)"
| call_submit: "addTask task p = (res, p') \<Longrightarrow>
    pool_call p (if res = kAccepted then p'\<lparr>pl_accepted := pl_accepted p @ [the task]\<rparr> else p')"
| call_limit: "setMaxQueueTasks m p = Some p' \<Longrightarrow> pool_call p p'"
| call_stop: "pool_call p (stop_begin p)"

text \<open>Steps the pool's own threads, and a caller behind its critical section, make.\<close>

inductive pool_internal :: "'a traced_pool \<Rightarrow> 'a traced_pool \<Rightarrow> bool" where
  int_notify: "pl_notifies p > 0 \<Longrightarrow> i < length (pl_threads p) \<Longrightarrow> pl_threads p ! i = Blocked \<Longrightarrow>
    pool_internal p (wake i p\<lparr>pl_notifies := pl_notifies p - 1\<rparr>)"
| int_notify_none: "pl_notifies p > 0 \<Longrightarrow> Blocked \<notin> set (pl_threads p) \<Longrightarrow>
    pool_internal p (p\<lparr>pl_notifies := pl_notifies p - 1\<rparr>)"
| int_spurious: "i < length (pl_threads p) \<Longrightarrow> pl_threads p ! i = Blocked \<Longrightarrow>
    pool_internal p (wake i p)"
| int_check: "i < length (pl_threads p) \<Longrightarrow> pl_threads p ! i = Checking \<Longrightarrow>
    pool_internal p ((run_check i p)\<lparr>pl_begun := pl_begun p @ take 1 (pl_tasks p)\<rparr>)"
| int_finish: "i < length (pl_threads p) \<Longrightarrow> pl_threads p ! i = Executing t \<Longrightarrow>
    pool_internal p ((run_finish i p)\<lparr>pl_finished := pl_finished p @ [t]\<rparr>)"
| int_notify_all: "pl_phase p = J_notify \<Longrightarrow> pool_internal p (stop_notify p)"
| int_join: "pl_phase p = J_join i \<Longrightarrow> unat i < length (pl_threads p) \<Longrightarrow>
    pl_threads p ! unat i = Exited \<Longrightarrow> pool_internal p (p\<lparr>pl_phase := J_join (i + 1)\<rparr>)"
| int_clear: "pl_phase p = J_join i \<Longrightarrow> \<not> unat i < length (pl_threads p) \<Longrightarrow>
    pool_internal p (stop_clear p)"
| int_finish_stop: "pl_phase p = J_finish \<Longrightarrow> pool_internal p (stop_finish p)"

definition pool_step :: "'a traced_pool \<Rightarrow> 'a traced_pool \<Rightarrow> bool" where
  "pool_step p q \<longleftrightarrow> pool_call p q \<or> pool_internal p q"

definition pool_init :: "'a traced_pool \<Rightarrow> bool" where
  "pool_init p \<longleftrightarrow> TaskThreadPool_new (pl_threadCnt p) = Some (pool.truncate p) \<and>
     pl_accepted p = [] \<and> pl_begun p = [] \<and> pl_finished p = []"

subsection \<open>The invariant\<close>

definition executing :: "'a worker list \<Rightarrow> 'a list" where
  "executing ws = concat (map (\<lambda>w. case w of Executing t \<Rightarrow> [t] | _ \<Rightarrow> []) ws)"

definition awake :: "'a worker \<Rightarrow> bool" where
  "awake w \<longleftrightarrow> w \<noteq> Blocked \<and> w \<noteq> Exited"

text \<open>The control part, clause by clause: the number of workers; the phase of the stopping thread
  and the vector of workers against the status; when a worker may have exited; what the join loop
  has established; the queue limit; and the absence of lost wake-ups.\<close>

definition pool_sizes :: "('a, 'b) pool_scheme \<Rightarrow> bool" where
  "pool_sizes p \<longleftrightarrow> pl_threadCnt p > 0 \<and> length (pl_threads p) \<le> unat (pl_threadCnt p) \<and>
     (pl_status p = RUNNING \<longrightarrow> length (pl_threads p) = unat (pl_threadCnt p))"

definition pool_phases :: "('a, 'b) pool_scheme \<Rightarrow> bool" where
  "pool_phases p \<longleftrightarrow> (pl_phase p = J_none \<longleftrightarrow> pl_status p \<noteq> STOPPING) \<and>
     (pl_status p = NOT_START \<or> pl_status p = STOPPED \<or> pl_phase p = J_finish \<longrightarrow> pl_threads p = [])"

definition pool_exits :: "('a, 'b) pool_scheme \<Rightarrow> bool" where
  "pool_exits p \<longleftrightarrow> (Exited \<in> set (pl_threads p) \<longrightarrow> pl_status p = STOPPING \<and> pl_tasks p = []) \<and>
     (pl_threads p = [] \<longrightarrow> pl_tasks p = [])"

definition pool_joins :: "('a, 'b) pool_scheme \<Rightarrow> bool" where
  "pool_joins p \<longleftrightarrow> (case pl_phase p of J_join i \<Rightarrow>
     Blocked \<notin> set (pl_threads p) \<and> unat i \<le> length (pl_threads p) \<and>
     (\<forall>j < unat i. pl_threads p ! j = Exited) | _ \<Rightarrow> True)"

definition pool_limit :: "('a, 'b) pool_scheme \<Rightarrow> bool" where
  "pool_limit p \<longleftrightarrow>
     (case pl_maxQueueTasks p of None \<Rightarrow> True | Some m \<Rightarrow> 0 < m \<and> length (pl_tasks p) \<le> m)"

definition pool_wakeups :: "('a, 'b) pool_scheme \<Rightarrow> bool" where
  "pool_wakeups p \<longleftrightarrow>
     (pl_status p = RUNNING \<and> pl_tasks p \<noteq> [] \<and> Blocked \<in> set (pl_threads p) \<longrightarrow>
        pl_notifies p > 0 \<or> (\<exists>w \<in> set (pl_threads p). awake w))"

definition pool_ctl :: "('a, 'b) pool_scheme \<Rightarrow> bool" where
  "pool_ctl p \<longleftrightarrow> pool_sizes p \<and> pool_phases p \<and> pool_exits p \<and> pool_joins p \<and> pool_limit p \<and>
     pool_wakeups p"

lemmas pool_clauses = pool_sizes_def pool_phases_def pool_exits_def pool_joins_def pool_limit_def
  pool_wakeups_def

text \<open>Each clause depends on a few fields only.\<close>

lemma pool_frame [simp]:
  "pool_sizes (p\<lparr>pl_tasks := a\<rparr>) = pool_sizes p"
  "pool_sizes (p\<lparr>pl_notifies := b\<rparr>) = pool_sizes p"
  "pool_sizes (p\<lparr>pl_phase := c\<rparr>) = pool_sizes p"
  "pool_sizes (p\<lparr>pl_maxQueueTasks := d\<rparr>) = pool_sizes p"
  "pool_phases (p\<lparr>pl_tasks := a\<rparr>) = pool_phases p"
  "pool_phases (p\<lparr>pl_notifies := b\<rparr>) = pool_phases p"
  "pool_phases (p\<lparr>pl_maxQueueTasks := d\<rparr>) = pool_phases p"
  "pool_exits (p\<lparr>pl_notifies := b\<rparr>) = pool_exits p"
  "pool_exits (p\<lparr>pl_phase := c\<rparr>) = pool_exits p"
  "pool_exits (p\<lparr>pl_maxQueueTasks := d\<rparr>) = pool_exits p"
  "pool_joins (p\<lparr>pl_tasks := a\<rparr>) = pool_joins p"
  "pool_joins (p\<lparr>pl_notifies := b\<rparr>) = pool_joins p"
  "pool_joins (p\<lparr>pl_maxQueueTasks := d\<rparr>) = pool_joins p"
  "pool_joins (p\<lparr>pl_status := e\<rparr>) = pool_joins p"
  "pool_limit (p\<lparr>pl_notifies := b\<rparr>) = pool_limit p"
  "pool_limit (p\<lparr>pl_phase := c\<rparr>) = pool_limit p"
  "pool_limit (p\<lparr>pl_threads := f\<rparr>) = pool_limit p"
  "pool_limit (p\<lparr>pl_status := e\<rparr>) = pool_limit p"
  "pool_wakeups (p\<lparr>pl_phase := c\<rparr>) = pool_wakeups p"
  "pool_wakeups (p\<lparr>pl_maxQueueTasks := d\<rparr>) = pool_wakeups p"
  by (simp_all add: pool_clauses cong: option.case_cong join_phase.case_cong)

lemma pool_ctl_history [simp]:
  "pool_ctl (p\<lparr>pl_accepted := xs\<rparr>) = pool_ctl p"
  "pool_ctl (p\<lparr>pl_begun := xs\<rparr>) = pool_ctl p"
  "pool_ctl (p\<lparr>pl_finished := xs\<rparr>) = pool_ctl p"
  by (simp_all add: pool_ctl_def pool_clauses cong: option.case_cong join_phase.case_cong)

text \<open>The data part: tasks are begun in the order in which they were accepted, and every begun task
  is either finished or in the hands of one worker.\<close>

definition pool_flow :: "'a traced_pool \<Rightarrow> bool" where
  "pool_flow p \<longleftrightarrow> pl_accepted p = pl_begun p @ pl_tasks p \<and>
     mset (pl_begun p) = mset (pl_finished p) + mset (executing (pl_threads p))"

definition pool_inv :: "'a traced_pool \<Rightarrow> bool" where
  "pool_inv p \<longleftrightarrow> pool_ctl p \<and> pool_flow p"

lemma set_update_cases: "x \<in> set (xs[i := y]) \<Longrightarrow> x = y \<or> x \<in> set xs"
  using set_update_subset_insert by fastforce

lemma executing_append: "executing (xs @ ys) = executing xs @ executing ys"
  by (simp add: executing_def)

lemma executing_update:
  assumes "i < length ws"
  shows "mset (executing (ws[i := w])) + mset (executing [ws ! i]) =
    mset (executing ws) + mset (executing [w])"
proof -
  have "ws = take i ws @ [ws ! i] @ drop (Suc i) ws"
    using assms by (simp add: id_take_nth_drop)
  moreover have "ws[i := w] = take i ws @ [w] @ drop (Suc i) ws"
    using assms by (simp add: upd_conv_take_nth_drop)
  ultimately have "executing ws = executing (take i ws) @ executing [ws ! i] @ executing (drop (Suc i) ws)"
    and "executing (ws[i := w]) = executing (take i ws) @ executing [w] @ executing (drop (Suc i) ws)"
    by (metis executing_append)+
  then show ?thesis by simp
qed

lemma executing_Nil: "(\<And>w. w \<in> set ws \<Longrightarrow> w = Exited \<or> w = Checking) \<Longrightarrow> executing ws = []"
  by (induction ws) (auto simp: executing_def split: worker.split)

lemma executing_simps [simp]:
  "executing [] = []" "executing [Executing t] = [t]" "executing [Checking] = []"
  "executing [Blocked] = []" "executing [Exited] = []"
  by (simp_all add: executing_def)

lemma executing_wake_all [simp]: "executing (wake_all ws) = executing ws"
  unfolding executing_def wake_all_def by (induction ws) (auto split: worker.split)

lemma start_loop_threads:
  "start_loop i cnt created ts = (ok, ts') \<Longrightarrow> length ts = unat i \<Longrightarrow> i \<le> cnt \<Longrightarrow>
     length ts' \<le> unat cnt \<and> (ok \<longrightarrow> length ts' = unat cnt) \<and>
     (\<exists>n. ts' = ts @ replicate n Checking)"
proof (induction i cnt created ts rule: start_loop.induct)
  case (1 i cnt created ts)
  show ?case
  proof (cases "i < cnt \<and> created \<noteq> 0")
    case True
    then obtain n where n: "created = Suc n" by (cases created) auto
    have i: "unat (i + 1) = Suc (unat i)" and le: "i + 1 \<le> cnt"
      using True by (auto simp: unat_inc inc_le)
    have "start_loop (i + 1) cnt n (ts @ [Checking]) = (ok, ts')"
      using "1.prems"(1) True n by (subst (asm) start_loop.simps) simp
    with "1.IH"[of n] True n i le "1.prems"(2) have
      "length ts' \<le> unat cnt \<and> (ok \<longrightarrow> length ts' = unat cnt) \<and>
       (\<exists>n. ts' = (ts @ [Checking]) @ replicate n Checking)" by simp
    then show ?thesis by (metis append.assoc append_Cons append_Nil replicate_Suc)
  next
    case False
    then show ?thesis
      using "1.prems" by (subst (asm) start_loop.simps)
        (auto simp: word_le_nat_alt word_less_nat_alt split: nat.splits if_splits intro!: exI[of _ 0])
  qed
qed

subsection \<open>Every step keeps the invariant\<close>

lemma TaskThreadPool_start_cases [consumes 2]:
  assumes "pool_ctl p" and "pl_status p = NOT_START"
  obtains (ok) "TaskThreadPool_start created p =
      p\<lparr>pl_status := RUNNING, pl_threads := replicate (unat (pl_threadCnt p)) Checking\<rparr>"
  | (error) n where "n \<le> unat (pl_threadCnt p)" and "TaskThreadPool_start created p =
      p\<lparr>pl_status := STOPPING, pl_threads := replicate n Checking, pl_phase := J_notify\<rparr>"
proof -
  have Nil: "pl_threads p = []" using assms by (simp add: pool_ctl_def pool_phases_def)
  obtain b ts where loop: "start_loop 0 (pl_threadCnt p) created (pl_threads p) = (b, ts)"
    by fastforce
  then obtain n where n: "ts = replicate n Checking" "n \<le> unat (pl_threadCnt p)"
    "b \<longrightarrow> n = unat (pl_threadCnt p)"
    using start_loop_threads[OF loop] Nil by auto
  show thesis
    using assms loop n ok error[of n] by (cases b) (auto simp: TaskThreadPool_start_def)
qed

lemma pool_ctl_start:
  assumes inv: "pool_ctl p"
  shows "pool_ctl (TaskThreadPool_start created p)"
proof (cases "pl_status p = NOT_START")
  case True
  with inv have facts: "pl_tasks p = []" "pl_phase p = J_none" "pl_threadCnt p > 0" "pool_limit p"
    by (auto simp: pool_ctl_def pool_phases_def pool_exits_def pool_sizes_def)
  from inv True show ?thesis
    by (cases rule: TaskThreadPool_start_cases[where created = created])
      (use facts in \<open>auto simp: pool_ctl_def pool_clauses split: option.splits\<close>)
qed (use inv in \<open>simp add: TaskThreadPool_start_def\<close>)

lemma pool_ctl_addTask:
  assumes "pool_ctl p" and "addTask t p = (r, q)"
  shows "pool_ctl q"
proof (cases "r = kAccepted")
  case True
  then obtain x where q: "q = p\<lparr>pl_tasks := pl_tasks p @ [x], pl_notifies := pl_notifies p + 1\<rparr>"
    and run: "pl_status p = RUNNING"
    and space: "\<And>m. pl_maxQueueTasks p = Some m \<Longrightarrow> length (pl_tasks p) < m"
    using assms(2) by (auto simp: addTask_def split: option.splits if_splits)
  have "pl_threads p \<noteq> []"
    using assms(1) run by (auto simp: pool_ctl_def pool_sizes_def word_gt_0 unat_eq_0)
  then have "pool_exits q" using assms(1) run by (auto simp: q pool_ctl_def pool_exits_def)
  moreover have "pool_limit q"
    using assms(1) space by (auto simp: q pool_ctl_def pool_limit_def Suc_le_eq split: option.splits)
  moreover have "pool_wakeups q" by (simp add: q pool_wakeups_def)
  ultimately show ?thesis using assms(1) by (simp add: pool_ctl_def) (simp add: q)
next
  case False
  with assms show ?thesis by (auto simp: addTask_def split: option.splits if_splits)
qed

lemma pool_ctl_limit: "pool_ctl p \<Longrightarrow> setMaxQueueTasks m p = Some q \<Longrightarrow> pool_ctl q"
proof -
  assume inv: "pool_ctl p" and "setMaxQueueTasks m p = Some q"
  then consider "q = p" | "q = p\<lparr>pl_maxQueueTasks := Some m\<rparr>" "pl_status p = NOT_START" "0 < m"
    by (auto simp: setMaxQueueTasks_def split: if_splits)
  then show "pool_ctl q"
  proof cases
    case 2
    then have "pl_tasks p = []"
      using inv by (auto simp: pool_ctl_def pool_phases_def pool_exits_def)
    with inv 2 show ?thesis by (simp add: pool_ctl_def) (simp add: pool_limit_def)
  qed (use inv in simp)
qed

lemma pool_ctl_stop_begin:
  assumes inv: "pool_ctl p"
  shows "pool_ctl (stop_begin p)"
proof (cases "pl_status p = RUNNING")
  case True
  then have "pl_threads p \<noteq> []"
    using inv by (auto simp: pool_ctl_def pool_sizes_def word_gt_0 unat_eq_0)
  with inv True have "pool_exits (stop_begin p)" "pool_phases (stop_begin p)"
    "pool_sizes (stop_begin p)" "pool_joins (stop_begin p)" "pool_wakeups (stop_begin p)"
    by (auto simp: stop_begin_def pool_ctl_def pool_exits_def pool_phases_def pool_sizes_def
        pool_joins_def pool_wakeups_def)
  with inv True show ?thesis by (simp add: pool_ctl_def) (simp add: stop_begin_def)
qed (use inv in \<open>simp add: stop_begin_def\<close>)

text \<open>A worker that is not \<open>Exited\<close> can be replaced by one that is awake.\<close>

lemma pool_ctl_worker:
  assumes inv: "pool_ctl p" and i: "i < length (pl_threads p)" "pl_threads p ! i \<noteq> Exited"
    and w: "awake w"
  shows "pool_ctl (p\<lparr>pl_threads := (pl_threads p)[i := w]\<rparr>)" (is "pool_ctl ?q")
proof -
  have mem: "w \<in> set ((pl_threads p)[i := w])" using i(1) by (rule set_update_memI)
  have sub: "x \<in> set (pl_threads p)" if "x \<in> set ((pl_threads p)[i := w])" "\<not> awake x" for x
    using that w set_update_cases by metis
  have ne: "pl_threads p \<noteq> []" using i by auto
  have "pool_sizes ?q" "pool_limit ?q"
    using inv by (auto simp: pool_ctl_def pool_sizes_def pool_limit_def split: option.splits)
  moreover have "pool_phases ?q" using inv ne by (auto simp: pool_ctl_def pool_phases_def)
  moreover have "pool_exits ?q"
    using inv ne sub[of Exited] by (auto simp: pool_ctl_def pool_exits_def awake_def)
  moreover have "pool_joins ?q"
    using inv i sub[of Blocked]
    by (auto simp: pool_ctl_def pool_joins_def awake_def nth_list_update split: join_phase.splits)
  moreover have "pool_wakeups ?q" using mem w by (auto simp: pool_wakeups_def)
  ultimately show ?thesis by (simp add: pool_ctl_def)
qed

lemma pool_ctl_check:
  assumes inv: "pool_ctl p" and i: "i < length (pl_threads p)" "pl_threads p ! i = Checking"
  shows "pool_ctl (run_check i p)"
proof (cases "pl_tasks p")
  case Nil
  let ?q = "\<lambda>w. p\<lparr>pl_threads := (pl_threads p)[i := w]\<rparr>"
  have ne: "pl_threads p \<noteq> []" using i by auto
  have sub: "x \<in> set (pl_threads p)" if "x \<in> set ((pl_threads p)[i := w])" "x \<noteq> w" for x w
    using that set_update_cases by metis
  have nth: "\<forall>j < n. (pl_threads p)[i := w] ! j = Exited"
    if "\<forall>j < n. pl_threads p ! j = Exited" for n w
    using that i by (metis nth_list_update worker.distinct(5))
  show ?thesis
  proof (cases "pl_status p = RUNNING")
    case True
    then have "pl_phase p = J_none" using inv by (simp add: pool_ctl_def pool_phases_def)
    then have "pool_joins (?q Blocked)" by (simp add: pool_joins_def)
    moreover have "pool_exits (?q Blocked)" "pool_sizes (?q Blocked)" "pool_phases (?q Blocked)"
      "pool_wakeups (?q Blocked)"
      using inv ne sub[of Exited Blocked] Nil
      by (auto simp: pool_ctl_def pool_exits_def pool_sizes_def pool_phases_def pool_wakeups_def)
    ultimately have "pool_ctl (?q Blocked)" using inv by (simp add: pool_ctl_def)
    with True Nil show ?thesis by (simp add: run_check_def)
  next
    case False
    have "pl_status p = STOPPING" using inv ne False
      by (cases "pl_status p") (auto simp: pool_ctl_def pool_phases_def)
    then have "pool_exits (?q Exited)" "pool_sizes (?q Exited)" "pool_phases (?q Exited)"
      "pool_wakeups (?q Exited)"
      using inv ne Nil
      by (auto simp: pool_ctl_def pool_exits_def pool_sizes_def pool_phases_def pool_wakeups_def)
    moreover have "pool_joins (?q Exited)"
      using inv sub[of Blocked Exited] nth[of _ Exited]
      by (auto simp: pool_ctl_def pool_joins_def split: join_phase.splits)
    ultimately have "pool_ctl (?q Exited)" using inv by (simp add: pool_ctl_def)
    with False Nil show ?thesis by (simp add: run_check_def)
  qed
next
  case (Cons t ts)
  let ?q = "p\<lparr>pl_threads := (pl_threads p)[i := Executing t]\<rparr>"
  have "pool_ctl ?q" using inv i by (intro pool_ctl_worker) (auto simp: awake_def)
  moreover have "run_check i p = ?q\<lparr>pl_tasks := ts\<rparr>"
    using Cons by (simp add: run_check_def)
  moreover have "Executing t \<in> set (pl_threads ?q)" using i by (simp add: set_update_memI)
  moreover have "pool_exits (?q\<lparr>pl_tasks := ts\<rparr>)" "pool_limit (?q\<lparr>pl_tasks := ts\<rparr>)"
    "pool_wakeups (?q\<lparr>pl_tasks := ts\<rparr>)"
    using calculation Cons
    by (auto simp: pool_ctl_def pool_exits_def pool_limit_def pool_wakeups_def awake_def split: option.splits)
  ultimately show ?thesis by (simp add: pool_ctl_def)
qed

lemma pool_ctl_notify_none:
  assumes "pool_ctl p" and "Blocked \<notin> set (pl_threads p)"
  shows "pool_ctl (p\<lparr>pl_notifies := n\<rparr>)"
  using assms by (simp add: pool_ctl_def) (simp add: pool_wakeups_def)

lemma pool_ctl_notify:
  assumes "pool_ctl p" and i: "i < length (pl_threads p)" "pl_threads p ! i = Blocked"
  shows "pool_ctl (wake i p\<lparr>pl_notifies := n\<rparr>)"
proof -
  have "pool_ctl (wake i p)"
    unfolding wake_def using assms by (intro pool_ctl_worker) (auto simp: awake_def)
  moreover have "Checking \<in> set (pl_threads (wake i p))"
    using i by (simp add: wake_def set_update_memI)
  moreover have "wake i p\<lparr>pl_notifies := n\<rparr> = (wake i p)\<lparr>pl_notifies := n\<rparr>"
    by (simp add: wake_def)
  moreover have "pool_wakeups ((wake i p)\<lparr>pl_notifies := n\<rparr>)"
    using calculation(2) by (auto simp: pool_wakeups_def awake_def)
  ultimately show ?thesis by (simp add: pool_ctl_def)
qed

lemma pool_ctl_notify_all:
  assumes "pool_ctl p" and "pl_phase p = J_notify"
  shows "pool_ctl (stop_notify p)"
proof -
  have "Blocked \<notin> set (wake_all ws)" "Exited \<in> set (wake_all ws) \<longleftrightarrow> Exited \<in> set ws"
    "length (wake_all ws) = length ws" "wake_all ws = [] \<longleftrightarrow> ws = []" for ws :: "'a worker list"
    by (auto simp: wake_all_def image_iff)
  with assms show ?thesis
    by (auto simp: stop_notify_def pool_ctl_def pool_clauses split: option.splits)
qed

lemma pool_ctl_join:
  assumes "pool_ctl p" and ph: "pl_phase p = J_join i"
    and i: "unat i < length (pl_threads p)" "pl_threads p ! unat i = Exited"
  shows "pool_ctl (p\<lparr>pl_phase := J_join (i + 1)\<rparr>)"
proof -
  have "unat i < unat (pl_threadCnt p)"
    using assms by (auto simp: pool_ctl_def pool_sizes_def)
  then have "unat (i + 1) = Suc (unat i)"
    by (intro unat_inc[of _ "pl_threadCnt p"]) (simp add: word_less_nat_alt)
  with assms show ?thesis
    by (auto simp: pool_ctl_def pool_clauses less_Suc_eq split: option.splits)
qed

lemma pool_joined:
  assumes "pool_ctl p" and "pl_phase p = J_join i" and "\<not> unat i < length (pl_threads p)"
  shows "set (pl_threads p) \<subseteq> {Exited}" and "pl_tasks p = []"
proof -
  show all: "set (pl_threads p) \<subseteq> {Exited}"
    using assms by (auto simp: pool_ctl_def pool_joins_def in_set_conv_nth)
  show "pl_tasks p = []"
  proof (cases "pl_threads p")
    case Nil
    with assms(1) show ?thesis by (simp add: pool_ctl_def pool_exits_def)
  next
    case (Cons w ws)
    with all have "Exited \<in> set (pl_threads p)" by auto
    with assms(1) show ?thesis by (simp add: pool_ctl_def pool_exits_def)
  qed
qed

lemma pool_ctl_clear:
  assumes "pool_ctl p" and "pl_phase p = J_join i" and "\<not> unat i < length (pl_threads p)"
  shows "pool_ctl (stop_clear p)"
  using assms(1,2) pool_joined[OF assms]
  by (auto simp: stop_clear_def pool_ctl_def pool_clauses split: option.splits)

lemma pool_ctl_finish: "pool_ctl p \<Longrightarrow> pl_phase p = J_finish \<Longrightarrow> pool_ctl (stop_finish p)"
  by (auto simp: stop_finish_def pool_ctl_def pool_clauses split: option.splits)

lemmas pool_ctl_ops = pool_ctl_start pool_ctl_addTask pool_ctl_limit pool_ctl_stop_begin pool_ctl_check
  pool_ctl_notify_none pool_ctl_notify pool_ctl_notify_all pool_ctl_join pool_ctl_clear pool_ctl_finish

lemma pool_internal_ctl: "pool_internal p q \<Longrightarrow> pool_ctl p \<Longrightarrow> pool_ctl q"
proof (induction rule: pool_internal.induct)
  case (int_spurious i p)
  then show ?case unfolding wake_def by (intro pool_ctl_worker) (auto simp: awake_def)
next
  case (int_finish i p t)
  then have "pool_ctl (run_finish i p)"
    unfolding run_finish_def by (intro pool_ctl_worker) (auto simp: awake_def)
  then show ?case by simp
qed (auto intro: pool_ctl_ops)

lemma pool_call_ctl: "pool_call p q \<Longrightarrow> pool_ctl p \<Longrightarrow> pool_ctl q"
  by (induction rule: pool_call.induct) (auto intro: pool_ctl_ops)

subsection \<open>The flow of tasks\<close>

lemma pool_flow_worker:
  assumes "pool_flow p" and "i < length (pl_threads p)"
    and "executing [pl_threads p ! i] = []" and "executing [w] = []"
  shows "pool_flow (p\<lparr>pl_threads := (pl_threads p)[i := w]\<rparr>)"
  using assms executing_update[of i "pl_threads p" w] by (simp add: pool_flow_def)

lemma pool_internal_flow:
  "pool_internal p q \<Longrightarrow> pool_ctl p \<Longrightarrow> pool_flow p \<Longrightarrow> pool_flow q"
proof (induction rule: pool_internal.induct)
  case (int_notify p i)
  have "pool_flow (p\<lparr>pl_threads := (pl_threads p)[i := Checking]\<rparr>)"
    using int_notify by (intro pool_flow_worker) auto
  then show ?case by (simp add: wake_def pool_flow_def)
next
  case (int_spurious i p)
  then show ?case unfolding wake_def by (intro pool_flow_worker) auto
next
  case (int_check i p)
  show ?case
  proof (cases "pl_tasks p")
    case Nil
    have "pool_flow (p\<lparr>pl_threads := (pl_threads p)[i := w]\<rparr>)" if "w \<in> {Blocked, Exited}" for w
      using int_check that by (intro pool_flow_worker) auto
    from this[of Blocked] this[of Exited] Nil show ?thesis
      by (simp add: run_check_def pool_flow_def)
  next
    case (Cons t ts)
    with int_check executing_update[of i "pl_threads p" "Executing t"] show ?thesis
      by (simp add: run_check_def pool_flow_def)
  qed
next
  case (int_finish i p t)
  with executing_update[of i "pl_threads p" Checking] show ?case
    by (simp add: run_finish_def pool_flow_def)
next
  case (int_clear p i)
  then have "executing (pl_threads p) = []"
    using pool_joined(1)[of p i] by (intro executing_Nil) auto
  with int_clear show ?case by (simp add: stop_clear_def pool_flow_def)
qed (simp_all add: pool_flow_def stop_notify_def stop_finish_def)

lemma pool_call_flow: "pool_call p q \<Longrightarrow> pool_ctl p \<Longrightarrow> pool_flow p \<Longrightarrow> pool_flow q"
proof (induction rule: pool_call.induct)
  case (call_start p created)
  show ?case
  proof (cases "pl_status p = NOT_START")
    case True
    have "executing (replicate n Checking) = ([] :: 'a list)" for n
      by (rule executing_Nil) auto
    moreover have "pl_threads p = []"
      using call_start(1) True by (simp add: pool_ctl_def pool_phases_def)
    ultimately have "pool_flow (p\<lparr>pl_status := st, pl_threads := replicate n Checking, pl_phase := ph\<rparr>)"
      for st n ph using call_start(2) by (simp add: pool_flow_def)
    from call_start(1) True this show ?thesis
      by (cases rule: TaskThreadPool_start_cases[where created = created])
        (metis pool.update_convs(7) pool.surjective)+
  next
    case False
    with call_start show ?thesis by (simp add: TaskThreadPool_start_def)
  qed
qed (auto simp: pool_flow_def addTask_def setMaxQueueTasks_def stop_begin_def
    split: option.splits if_splits)

lemma pool_init_inv: "pool_init p \<Longrightarrow> pool_inv p"
  by (auto simp: pool_init_def TaskThreadPool_new_def pool.truncate_def pool_inv_def pool_ctl_def
      pool_clauses pool_flow_def split: if_splits)

interpretation pool: invariant_system pool_init pool_step pool_inv
proof
  fix s t :: "'a traced_pool"
  show "pool_init s \<Longrightarrow> pool_inv s" by (rule pool_init_inv)
  show "pool_step s t \<Longrightarrow> pool_inv s \<Longrightarrow> pool_inv t"
    by (auto simp: pool_step_def pool_inv_def intro: pool_internal_ctl pool_call_ctl
        pool_internal_flow pool_call_flow)
qed

definition pool_reachable :: "'a traced_pool \<Rightarrow> bool" where
  "pool_reachable p \<longleftrightarrow> (\<exists>p0. pool_init p0 \<and> pool_step\<^sup>*\<^sup>* p0 p)"

lemma pool_reachable_inv: "pool_reachable p \<Longrightarrow> pool_inv p"
  using pool.inv_reachable by (auto simp: pool_reachable_def)

subsection \<open>Termination of \<open>stop\<close>\<close>

text \<open>What is left to do for a pool that stops: every step of its threads makes it smaller.\<close>

fun worker_work :: "'a worker \<Rightarrow> nat" where
  "worker_work Exited = 0"
| "worker_work Checking = 1"
| "worker_work Blocked = 2"
| "worker_work (Executing t) = 2"

fun phase_work :: "nat \<Rightarrow> join_phase \<Rightarrow> nat" where
  "phase_work n J_none = 0"
| "phase_work n J_finish = 1"
| "phase_work n (J_join i) = n - unat i + 2"
| "phase_work n J_notify = n + 3"

definition stop_work :: "('a, 'b) pool_scheme \<Rightarrow> nat" where
  "stop_work p = 3 * length (pl_tasks p) + sum_list (map worker_work (pl_threads p)) +
     pl_notifies p + phase_work (length (pl_threads p)) (pl_phase p)"

lemma sum_list_update_work:
  "i < length ws \<Longrightarrow> sum_list (map worker_work (ws[i := w])) + worker_work (ws ! i) =
     sum_list (map worker_work ws) + worker_work w"
  by (induction ws arbitrary: i) (auto split: nat.splits)

lemma wake_all_work: "sum_list (map worker_work (wake_all ws)) \<le> sum_list (map worker_work ws)"
  by (induction ws) (auto simp: wake_all_def)

lemma pool_internal_work:
  "pool_internal p q \<Longrightarrow> pool_ctl p \<Longrightarrow> pl_status p = STOPPING \<or> pl_status p = STOPPED \<Longrightarrow>
     stop_work q < stop_work p \<and> (pl_status q = STOPPING \<or> pl_status q = STOPPED)"
proof (induction rule: pool_internal.induct)
  case (int_notify p i)
  with sum_list_update_work[of i "pl_threads p" Checking] show ?case
    by (auto simp: stop_work_def wake_def)
next
  case (int_spurious i p)
  with sum_list_update_work[of i "pl_threads p" Checking] show ?case
    by (auto simp: stop_work_def wake_def)
next
  case (int_check i p)
  show ?case
  proof (cases "pl_tasks p")
    case Nil
    with int_check sum_list_update_work[of i "pl_threads p" Exited] show ?thesis
      by (auto simp: stop_work_def run_check_def)
  next
    case (Cons t ts)
    with int_check sum_list_update_work[of i "pl_threads p" "Executing t"] show ?thesis
      by (auto simp: stop_work_def run_check_def)
  qed
next
  case (int_finish i p t)
  with sum_list_update_work[of i "pl_threads p" Checking] show ?case
    by (auto simp: stop_work_def run_finish_def)
next
  case (int_notify_all p)
  with wake_all_work[of "pl_threads p"] show ?case
    by (auto simp: stop_work_def stop_notify_def wake_all_def)
next
  case (int_join p i)
  have "unat i < unat (pl_threadCnt p)"
    using int_join by (auto simp: pool_ctl_def pool_sizes_def)
  then have "unat (i + 1) = Suc (unat i)"
    by (intro unat_inc[of _ "pl_threadCnt p"]) (simp add: word_less_nat_alt)
  with int_join show ?case by (auto simp: stop_work_def)
qed (auto simp: stop_work_def stop_clear_def stop_finish_def)

text \<open>A stopping pool is never stuck: some worker can move, or the stopping thread can.\<close>

lemma pool_stopping_progress:
  assumes inv: "pool_ctl p" and "pl_status p = STOPPING"
  shows "\<exists>q. pool_internal p q"
proof (cases "pl_phase p")
  case J_none
  with assms show ?thesis by (simp add: pool_ctl_def pool_phases_def)
next
  case J_notify
  then show ?thesis by (blast intro: int_notify_all)
next
  case (J_join i)
  show ?thesis
  proof (cases "unat i < length (pl_threads p)")
    case True
    let ?w = "pl_threads p ! unat i"
    have "?w \<in> set (pl_threads p)" using True by simp
    then have "?w \<noteq> Blocked" using inv J_join by (auto simp: pool_ctl_def pool_joins_def)
    then show ?thesis
      using True J_join by (cases ?w) (blast intro: int_check int_finish int_join)+
  next
    case False
    with J_join show ?thesis by (blast intro: int_clear)
  qed
next
  case J_finish
  then show ?thesis by (blast intro: int_finish_stop)
qed

lemma pool_internal_run:
  "(pool_internal ^^ n) p q \<Longrightarrow> pool_inv p \<Longrightarrow> pl_status p = STOPPING \<or> pl_status p = STOPPED \<Longrightarrow>
     n + stop_work q \<le> stop_work p \<and> pool_inv q \<and> (pl_status q = STOPPING \<or> pl_status q = STOPPED)"
proof (induction n arbitrary: q)
  case (Suc n)
  then obtain r where r: "(pool_internal ^^ n) p r" "pool_internal r q" by auto
  note IH = Suc.IH[OF r(1) Suc.prems(2,3)]
  have "stop_work q < stop_work r \<and> (pl_status q = STOPPING \<or> pl_status q = STOPPED)"
    using IH r(2) by (intro pool_internal_work) (auto simp: pool_inv_def)
  moreover have "pool_inv q" using IH r(2) pool.inv_step by (auto simp: pool_step_def)
  ultimately show ?case using IH by simp
qed simp

subsection \<open>Executing a schedule\<close>

text \<open>The relation as a function of an event, to evaluate concrete runs.\<close>

datatype 'a pool_event =
    Ev_start nat | Ev_submit "'a option" | Ev_limit nat | Ev_stop
  | Ev_check nat | Ev_finish nat | Ev_notify nat | Ev_notify_none | Ev_notify_all | Ev_join | Ev_stopped

fun pool_exec :: "'a pool_event \<Rightarrow> 'a traced_pool \<Rightarrow> 'a traced_pool option" where
  "pool_exec (Ev_start created) p = Some (TaskThreadPool_start created p)"
| "pool_exec (Ev_submit task) p =
     (case addTask task p of (res, p') \<Rightarrow>
        Some (if res = kAccepted then p'\<lparr>pl_accepted := pl_accepted p @ [the task]\<rparr> else p'))"
| "pool_exec (Ev_limit m) p = setMaxQueueTasks m p"
| "pool_exec Ev_stop p = Some (stop_begin p)"
| "pool_exec (Ev_check i) p =
     (if i < length (pl_threads p) \<and> pl_threads p ! i = Checking
      then Some ((run_check i p)\<lparr>pl_begun := pl_begun p @ take 1 (pl_tasks p)\<rparr>) else None)"
| "pool_exec (Ev_finish i) p =
     (if i < length (pl_threads p)
      then (case pl_threads p ! i of
              Executing t \<Rightarrow> Some ((run_finish i p)\<lparr>pl_finished := pl_finished p @ [t]\<rparr>)
            | _ \<Rightarrow> None) else None)"
| "pool_exec (Ev_notify i) p =
     (if pl_notifies p > 0 \<and> i < length (pl_threads p) \<and> pl_threads p ! i = Blocked
      then Some (wake i p\<lparr>pl_notifies := pl_notifies p - 1\<rparr>) else None)"
| "pool_exec Ev_notify_none p =
     (if pl_notifies p > 0 \<and> Blocked \<notin> set (pl_threads p)
      then Some (p\<lparr>pl_notifies := pl_notifies p - 1\<rparr>) else None)"
| "pool_exec Ev_notify_all p = (if pl_phase p = J_notify then Some (stop_notify p) else None)"
| "pool_exec Ev_join p =
     (case pl_phase p of
        J_join i \<Rightarrow>
          if unat i < length (pl_threads p)
          then (if pl_threads p ! unat i = Exited then Some (p\<lparr>pl_phase := J_join (i + 1)\<rparr>) else None)
          else Some (stop_clear p)
      | _ \<Rightarrow> None)"
| "pool_exec Ev_stopped p = (if pl_phase p = J_finish then Some (stop_finish p) else None)"

lemma pool_exec_step:
  assumes "pool_exec e p = Some q"
  shows "pool_step p q"
proof (cases e)
  case (Ev_submit task)
  then show ?thesis
    using assms call_submit[of task p "fst (addTask task p)" "snd (addTask task p)"]
    by (auto simp: pool_step_def split: prod.splits)
qed (use assms in \<open>auto simp: pool_step_def simp del: One_nat_def
      intro: pool_internal.intros pool_call.intros
      split: if_splits worker.splits join_phase.splits\<close>)

text \<open>The events that are no calls of \<open>start\<close>, \<open>addTask\<close>, \<open>setMaxQueueTasks\<close> or \<open>stop\<close>.\<close>

fun internal_event :: "'a pool_event \<Rightarrow> bool" where
  "internal_event (Ev_start _) = False"
| "internal_event (Ev_submit _) = False"
| "internal_event (Ev_limit _) = False"
| "internal_event Ev_stop = False"
| "internal_event _ = True"

lemma pool_exec_internal: "pool_exec e p = Some q \<Longrightarrow> internal_event e \<Longrightarrow> pool_internal p q"
  by (cases e) (auto simp del: One_nat_def intro: pool_internal.intros
      split: if_splits worker.splits join_phase.splits)

text \<open>A stopping pool can always be run to its end.\<close>

lemma pool_stopping_completes:
  assumes "pool_inv p" and "pl_status p = STOPPING"
  shows "\<exists>q. pool_internal\<^sup>*\<^sup>* p q \<and> pl_status q = STOPPED"
  using assms
proof (induction "stop_work p" arbitrary: p rule: less_induct)
  case less
  obtain q where q: "pool_internal p q" using pool_stopping_progress less.prems by (auto simp: pool_inv_def)
  have "stop_work q < stop_work p \<and> (pl_status q = STOPPING \<or> pl_status q = STOPPED)"
    using less.prems q by (intro pool_internal_work) (auto simp: pool_inv_def)
  moreover have "pool_inv q" using less.prems(1) q pool.inv_step by (auto simp: pool_step_def)
  ultimately show ?case
    using less.hyps[of q] q by (metis converse_rtranclp_into_rtranclp r_into_rtranclp)
qed

fun pool_run :: "'a pool_event list \<Rightarrow> 'a traced_pool \<Rightarrow> 'a traced_pool option" where
  "pool_run [] p = Some p"
| "pool_run (e # es) p = do { p \<leftarrow> pool_exec e p; pool_run es p }"

lemma pool_run_steps: "pool_run es p = Some q \<Longrightarrow> pool_step\<^sup>*\<^sup>* p q"
proof (induction es arbitrary: p)
  case (Cons e es)
  then obtain r where "pool_exec e p = Some r" "pool_run es r = Some q"
    by (auto split: Option.bind_splits)
  with Cons.IH show ?case by (meson converse_rtranclp_into_rtranclp pool_exec_step)
qed simp

definition pool_start_state :: "u8 \<Rightarrow> 'a traced_pool" where
  "pool_start_state cnt = \<lparr>pl_status = NOT_START, pl_threadCnt = cnt, pl_maxQueueTasks = None,
     pl_tasks = [], pl_threads = [], pl_notifies = 0, pl_phase = J_none,
     pl_accepted = [], pl_begun = [], pl_finished = []\<rparr>"

lemma pool_run_reachable:
  "cnt > 0 \<Longrightarrow> pool_run es (pool_start_state cnt) = Some p \<Longrightarrow> pool_reachable p"
  by (auto simp: pool_reachable_def pool_init_def TaskThreadPool_new_def pool.truncate_def
      pool_start_state_def dest: pool_run_steps intro!: exI[of _ "pool_start_state cnt"])

lemmas pool_eval = pool_start_state_def TaskThreadPool_start_def start_loop.simps run_check_def
  addTask_def setMaxQueueTasks_def wake_def stop_begin_def stop_notify_def wake_all_def
  run_finish_def stop_clear_def stop_finish_def

subsection \<open>Properties of the pool\<close>

text \<open>C10: when the pool has reached \<open>STOPPED\<close>, whatever the interleaving of submitters, workers
  and the stopping thread was, its queue is empty, no worker is left and the tasks that ran are
  exactly the accepted ones, each as often as it was accepted.\<close>

theorem pool_stopped_drained:
  assumes "pool_reachable p" and "pl_status p = STOPPED"
  shows "pl_tasks p = [] \<and> pl_threads p = [] \<and> mset (pl_finished p) = mset (pl_accepted p)"
proof -
  have "pool_inv p" using assms(1) by (rule pool_reachable_inv)
  with assms(2) show ?thesis
    by (auto simp: pool_inv_def pool_ctl_def pool_phases_def pool_exits_def pool_flow_def)
qed

text \<open>One worker, a submission before the stop and one after it, which is refused.\<close>

abbreviation stopped_schedule :: "nat pool_event list" where
  "stopped_schedule \<equiv> [Ev_start 1, Ev_check 0, Ev_submit (Some 7), Ev_notify 0, Ev_stop,
     Ev_submit (Some 8), Ev_notify_all, Ev_check 0, Ev_finish 0, Ev_check 0, Ev_join, Ev_join, Ev_stopped]"

theorem pool_stopped_drained_witness:
  "\<exists>p :: nat traced_pool. pool_run stopped_schedule (pool_start_state 1) = Some p \<and>
     pl_status p = STOPPED \<and> pl_finished p = [7] \<and>
     pl_tasks p = [] \<and> pl_threads p = [] \<and> mset (pl_finished p) = mset (pl_accepted p)"
proof -
  obtain p :: "nat traced_pool" where p: "pool_run stopped_schedule (pool_start_state 1) = Some p"
    "pl_status p = STOPPED" "pl_finished p = [7]"
    by (simp add: pool_eval)
  have "pool_reachable p" using p(1) by (rule pool_run_reachable[rotated]) simp
  from pool_stopped_drained[OF this p(2)] p show ?thesis by blast
qed

text \<open>C28: \<open>stop\<close> ends. From a pool that is stopping, no matter how its threads are scheduled,
  at most \<open>stop_work\<close> steps are possible, and as long as the status is not \<open>STOPPED\<close> some step
  is possible, provided every task that was begun returns or throws.\<close>

theorem pool_stop_terminates:
  assumes "pool_reachable p" and "pl_status p = STOPPING" and "(pool_internal ^^ n) p q"
  shows "n \<le> stop_work p \<and> (pl_status q = STOPPED \<or> (\<exists>r. pool_internal q r))"
proof -
  have "pool_inv p" using assms(1) by (rule pool_reachable_inv)
  from pool_internal_run[OF assms(3) this] assms(2) have
    "n + stop_work q \<le> stop_work p" "pool_inv q" "pl_status q = STOPPING \<or> pl_status q = STOPPED"
    by auto
  then show ?thesis using pool_stopping_progress[of q] by (auto simp: pool_inv_def)
qed

text \<open>A pool of two workers told to stop while one worker sleeps, one executes a task and another
  task waits in the queue.\<close>

abbreviation stopping_schedule :: "nat pool_event list" where
  "stopping_schedule \<equiv> [Ev_limit 3, Ev_start 2, Ev_check 0, Ev_submit (Some 5), Ev_check 1,
     Ev_submit (Some 6), Ev_stop]"

theorem pool_stop_terminates_witness:
  "\<exists>p :: nat traced_pool. pool_run stopping_schedule (pool_start_state 2) = Some p \<and>
     pl_status p = STOPPING \<and> pl_tasks p = [6] \<and> stop_work p = 14 \<and>
     (\<forall>q. pool_internal p q \<longrightarrow> 1 \<le> stop_work p \<and> (pl_status q = STOPPED \<or> (\<exists>r. pool_internal q r)))"
proof -
  obtain p :: "nat traced_pool" where p: "pool_run stopping_schedule (pool_start_state 2) = Some p"
    "pl_status p = STOPPING" "pl_tasks p = [6]" "stop_work p = 14"
    by (simp add: pool_eval stop_work_def)
  have r: "pool_reachable p" using p(1) by (rule pool_run_reachable[rotated]) simp
  have "1 \<le> stop_work p \<and> (pl_status q = STOPPED \<or> (\<exists>r. pool_internal q r))"
    if "pool_internal p q" for q
    using that by (intro pool_stop_terminates[OF r p(2), of 1 q]) auto
  with p show ?thesis by blast
qed

text \<open>C29: no wake-up is lost. In every reachable state of a running pool with a queued task, a
  notification is on its way or some worker is awake (it is about to look at the queue or executes
  a task, after which it looks at the queue), although \<open>addTask\<close> notifies outside the mutex.\<close>

theorem pool_no_lost_wakeup:
  assumes "pool_reachable p" and "pl_status p = RUNNING" and "pl_tasks p \<noteq> []"
  shows "pl_notifies p > 0 \<or> (\<exists>w \<in> set (pl_threads p). w = Checking \<or> (\<exists>t. w = Executing t))"
proof -
  have ctl: "pool_ctl p" using assms(1) pool_reachable_inv by (auto simp: pool_inv_def)
  then have "pl_threads p \<noteq> []" "Exited \<notin> set (pl_threads p)"
    using assms(2,3) by (auto simp: pool_ctl_def pool_exits_def)
  moreover have "Blocked \<in> set (pl_threads p) \<Longrightarrow>
      pl_notifies p > 0 \<or> (\<exists>w \<in> set (pl_threads p). awake w)"
    using ctl assms by (auto simp: pool_ctl_def pool_wakeups_def)
  ultimately show ?thesis
    unfolding awake_def by (metis list.set_sel(1) worker.exhaust)
qed

theorem pool_no_lost_wakeup_witness:
  "\<exists>p :: nat traced_pool. pool_run [Ev_start 1, Ev_check 0, Ev_submit (Some 5)] (pool_start_state 1) = Some p \<and>
     pl_status p = RUNNING \<and> pl_tasks p = [5] \<and> pl_threads p = [Blocked] \<and>
     (pl_notifies p > 0 \<or> (\<exists>w \<in> set (pl_threads p). w = Checking \<or> (\<exists>t. w = Executing t)))"
proof -
  obtain p :: "nat traced_pool" where
    p: "pool_run [Ev_start 1, Ev_check 0, Ev_submit (Some 5)] (pool_start_state 1) = Some p"
    "pl_status p = RUNNING" "pl_tasks p = [5]" "pl_threads p = [Blocked]"
    by (simp add: pool_eval)
  have "pool_reachable p" using p(1) by (rule pool_run_reachable[rotated]) simp
  from pool_no_lost_wakeup[OF this p(2)] p show ?thesis by auto
qed

text \<open>C34: tasks are taken in the order in which they were accepted, none is taken twice or invented,
  and the number of queued tasks never exceeds the configured limit.\<close>

theorem pool_fifo_bounded:
  assumes "pool_reachable p"
  shows "pl_accepted p = pl_begun p @ pl_tasks p \<and> mset (pl_finished p) \<subseteq># mset (pl_begun p) \<and>
    (case pl_maxQueueTasks p of None \<Rightarrow> True | Some m \<Rightarrow> length (pl_tasks p) \<le> m)"
proof -
  have "pool_inv p" using assms by (rule pool_reachable_inv)
  then show ?thesis
    by (auto simp: pool_inv_def pool_ctl_def pool_limit_def pool_flow_def split: option.splits)
qed

theorem pool_fifo_bounded_witness:
  "\<exists>p :: nat traced_pool.
     pool_run [Ev_limit 1, Ev_start 1, Ev_submit (Some 5), Ev_check 0, Ev_submit (Some 6), Ev_submit (Some 7)]
       (pool_start_state 1) = Some p \<and> pl_accepted p = [5, 6] \<and> pl_maxQueueTasks p = Some 1 \<and>
     pl_accepted p = pl_begun p @ pl_tasks p \<and> mset (pl_finished p) \<subseteq># mset (pl_begun p) \<and>
     (case pl_maxQueueTasks p of None \<Rightarrow> True | Some m \<Rightarrow> length (pl_tasks p) \<le> m)"
proof -
  obtain p :: "nat traced_pool" where
    p: "pool_run [Ev_limit 1, Ev_start 1, Ev_submit (Some 5), Ev_check 0, Ev_submit (Some 6), Ev_submit (Some 7)]
       (pool_start_state 1) = Some p" "pl_accepted p = [5, 6]" "pl_maxQueueTasks p = Some 1"
    by (simp add: pool_eval)
  have "pool_reachable p" using p(1) by (rule pool_run_reachable[rotated]) simp
  from pool_fifo_bounded[OF this] p show ?thesis by blast
qed

text \<open>A second \<open>stop\<close> (for instance the one of the destructor) that finds the pool
  \<open>STOPPING\<close> returns at once, although the header promises that \<open>stop\<close> returns after all
  accepted tasks have run: there is a reachable state with a queued task and a live worker in which
  the call changes nothing and enters no phase of its own.\<close>

theorem concurrent_stop_returns_early:
  "\<exists>p :: nat traced_pool. pool_reachable p \<and> pl_tasks p \<noteq> [] \<and> pl_threads p \<noteq> [] \<and>
     pl_finished p \<noteq> pl_accepted p \<and> stop_begin p = p"
proof -
  obtain p :: "nat traced_pool" where p: "pool_run stopping_schedule (pool_start_state 2) = Some p"
    "pl_tasks p = [6]" "pl_threads p \<noteq> []" "pl_finished p \<noteq> pl_accepted p" "stop_begin p = p"
    by (simp add: pool_eval)
  have "pool_reachable p" using p(1) by (rule pool_run_reachable[rotated]) simp
  with p show ?thesis by auto
qed

end
