(* ===== verification/Cancellation_Registry.thy ===== *)
theory Cancellation_Registry
  imports Rpc_Prelude
begin

section \<open>The cancellation registry (RpcServer.cc)\<close>

text \<open>
  \<open>CancellationRegistry\<close> keeps, for every connection, the cancellation tokens of its active
  asynchronous requests. Each method holds the registry's mutex for its whole body, so each is one
  operation here. A connection is identified by a value of the type \<open>'c\<close> (the shared pointer);
  a token is the address of a shared \<open>std::atomic<bool>\<close>, and \<open>rg_canceled\<close> is the heap of
  these flags, which handlers read through \<open>isCanceled\<close>.

  The registry refines a partial map from connection and request id to token: the interface
  \<open>request_registry\<close> states the laws, its lemmas are what the server relies on, and the
  interpretation at the end proves the laws for the model.
\<close>

datatype RegisterTokenStatus =
  kRegistered | kDuplicateRequestId | kGlobalLimitReached | kConnectionLimitReached

type_synonym token = nat

record 'c registry =
  rg_maxActiveRequests :: "u64 option"
  rg_maxActiveRequestsPerConnection :: "u64 option"
  rg_cancellations :: "('c, (u64, token) umap) umap"
  rg_canceled :: "token \<Rightarrow> bool"

definition registry_empty :: "'c registry" where
  "registry_empty = \<lparr>rg_maxActiveRequests = None, rg_maxActiveRequestsPerConnection = None,
     rg_cancellations = [], rg_canceled = (\<lambda>_. False)\<rparr>"

definition isCanceled :: "'c registry \<Rightarrow> token \<Rightarrow> bool" where
  "isCanceled r tok = rg_canceled r tok"

text \<open>Removing a request of a connection whose inner map is \<open>m\<close>; the connection goes when its
  last request does.\<close>

definition erase_request ::
  "'c \<Rightarrow> u64 \<Rightarrow> (u64, token) umap \<Rightarrow> ('c, (u64, token) umap) umap \<Rightarrow> ('c, (u64, token) umap) umap" where
  "erase_request conn requestId m cs =
     (let m' = m_erase requestId m in
      if length m' = 0 then m_erase conn cs else m_put conn m' cs)"

definition registry_take :: "'c \<Rightarrow> u64 \<Rightarrow> 'c registry \<Rightarrow> token option \<times> 'c registry" where
  "registry_take conn requestId r =
     (case m_find (rg_cancellations r) conn of
        None \<Rightarrow> (None, r)
      | Some m \<Rightarrow>
          (case m_find m requestId of
             None \<Rightarrow> (None, r)
           | Some tok \<Rightarrow>
               (Some tok,
                r\<lparr>rg_cancellations := erase_request conn requestId m (rg_cancellations r)\<rparr>)))"

text \<open>The loop that adds up the sizes of the inner maps, in \<open>uint64_t\<close>.\<close>

definition count_active :: "('c, (u64, token) umap) umap \<Rightarrow> u64" where
  "count_active cs = fold (\<lambda>item n. n + of_nat (length (snd item))) cs 0"

definition registerToken ::
  "'c \<Rightarrow> u64 \<Rightarrow> token \<Rightarrow> 'c registry \<Rightarrow> RegisterTokenStatus \<times> 'c registry" where
  "registerToken conn requestId token r =
     (let cs = rg_cancellations r; connFindRes = m_find cs conn in
      if (case connFindRes of None \<Rightarrow> False | Some m \<Rightarrow> m_find m requestId \<noteq> None)
      then (kDuplicateRequestId, r)
      else if (case rg_maxActiveRequests r of None \<Rightarrow> False | Some mx \<Rightarrow> count_active cs \<ge> mx)
      then (kGlobalLimitReached, r)
      else if (case connFindRes of None \<Rightarrow> False
               | Some m \<Rightarrow> (case rg_maxActiveRequestsPerConnection r of None \<Rightarrow> False
                            | Some mx \<Rightarrow> length m \<ge> unat mx))
      then (kConnectionLimitReached, r)
      else
        let m = (case connFindRes of None \<Rightarrow> [] | Some m \<Rightarrow> m)
        in (kRegistered, r\<lparr>rg_cancellations := m_put conn (m_put requestId token m) cs\<rparr>))"

definition registry_cancel :: "'c \<Rightarrow> u64 \<Rightarrow> 'c registry \<Rightarrow> 'c registry" where
  "registry_cancel conn requestId r =
     (case m_find (rg_cancellations r) conn of
        None \<Rightarrow> r
      | Some m \<Rightarrow>
          (case m_find m requestId of
             None \<Rightarrow> r
           | Some tok \<Rightarrow>
               r\<lparr>rg_canceled := (rg_canceled r)(tok := True),
                 rg_cancellations := erase_request conn requestId m (rg_cancellations r)\<rparr>))"

definition clearConnectionCancellations :: "'c \<Rightarrow> 'c registry \<Rightarrow> 'c registry" where
  "clearConnectionCancellations conn r =
     (case m_find (rg_cancellations r) conn of
        None \<Rightarrow> r
      | Some m \<Rightarrow>
          r\<lparr>rg_canceled := fold (\<lambda>it fl. fl(snd it := True)) m (rg_canceled r),
            rg_cancellations := m_erase conn (rg_cancellations r)\<rparr>)"

subsection \<open>Well-formedness and the abstract view\<close>

definition registry_wf :: "'c registry \<Rightarrow> bool" where
  "registry_wf r \<longleftrightarrow> m_wf (rg_cancellations r) \<and>
     (\<forall>p \<in> set (rg_cancellations r). m_wf (snd p) \<and> snd p \<noteq> [])"

definition registry_lookup :: "'c registry \<Rightarrow> 'c \<Rightarrow> u64 \<Rightarrow> token option" where
  "registry_lookup r conn requestId =
     Option.bind (m_find (rg_cancellations r) conn) (\<lambda>m. m_find m requestId)"

definition active_total :: "'c registry \<Rightarrow> nat" where
  "active_total r = sum_list (map (\<lambda>p. length (snd p)) (rg_cancellations r))"

definition active_on :: "'c registry \<Rightarrow> 'c \<Rightarrow> nat" where
  "active_on r conn = (case m_find (rg_cancellations r) conn of None \<Rightarrow> 0 | Some m \<Rightarrow> length m)"

definition within_limits :: "'c registry \<Rightarrow> bool" where
  "within_limits r \<longleftrightarrow>
     (case rg_maxActiveRequests r of None \<Rightarrow> True | Some mx \<Rightarrow> active_total r \<le> unat mx) \<and>
     (case rg_maxActiveRequestsPerConnection r of None \<Rightarrow> True
      | Some mx \<Rightarrow> \<forall>conn. active_on r conn \<le> unat mx)"

lemma registry_wf_inner:
  "registry_wf r \<Longrightarrow> m_find (rg_cancellations r) conn = Some m \<Longrightarrow> m_wf m \<and> m \<noteq> []"
  by (auto simp: registry_wf_def dest: map_of_SomeD)

lemma set_m_put: "set (m_put k v m) \<subseteq> insert (k, v) (set m)"
  by (induction m) auto

lemma registry_wf_put:
  assumes "registry_wf r" and "m_wf m" and "m \<noteq> []"
  shows "registry_wf (r\<lparr>rg_cancellations := m_put conn m (rg_cancellations r)\<rparr>)"
  using assms set_m_put[of conn m "rg_cancellations r"]
  by (auto simp: registry_wf_def umap_simps)

lemma registry_wf_erase_request:
  assumes "registry_wf r" and "m_find (rg_cancellations r) conn = Some m"
  shows "registry_wf (r\<lparr>rg_cancellations := erase_request conn rid m (rg_cancellations r)\<rparr>)"
proof (cases "m_erase rid m = []")
  case True
  with assms show ?thesis
    by (auto simp: erase_request_def registry_wf_def umap_simps set_m_erase)
next
  case False
  with assms registry_wf_inner[OF assms] show ?thesis
    by (auto simp: erase_request_def umap_simps intro: registry_wf_put)
qed

lemma lookup_erase_request:
  assumes "m_find (rg_cancellations r) conn = Some m"
  shows "registry_lookup (r\<lparr>rg_cancellations := erase_request conn rid m (rg_cancellations r)\<rparr>) c k =
    (if c = conn \<and> k = rid then None else registry_lookup r c k)"
proof -
  have "m_find m k = None" if "m_erase rid m = []" "k \<noteq> rid"
    using that by (metis m_find_erase map_of.simps(1))
  with assms show ?thesis
    by (auto simp: erase_request_def registry_lookup_def umap_simps Let_def split: if_splits)
qed


subsection \<open>The laws of the operations\<close>

lemma registry_take_eq:
  "registry_take conn k r =
     (registry_lookup r conn k,
      case registry_lookup r conn k of None \<Rightarrow> r
      | Some _ \<Rightarrow> r\<lparr>rg_cancellations :=
          erase_request conn k (the (m_find (rg_cancellations r) conn)) (rg_cancellations r)\<rparr>)"
  by (auto simp: registry_take_def registry_lookup_def split: option.splits bind_splits)

lemma registry_lookup_SomeE:
  assumes "registry_lookup r conn k = Some tok"
  obtains m where "m_find (rg_cancellations r) conn = Some m" "m_find m k = Some tok"
  using assms by (auto simp: registry_lookup_def split: bind_splits)

lemma fst_registry_take: "fst (registry_take conn k r) = registry_lookup r conn k"
  by (simp add: registry_take_eq)

lemma lookup_registry_take:
  "registry_lookup (snd (registry_take conn k r)) c j =
     (if c = conn \<and> j = k then None else registry_lookup r c j)"
  by (cases "registry_lookup r conn k")
    (auto simp: registry_take_eq lookup_erase_request elim: registry_lookup_SomeE)

lemma canceled_registry_take [simp]:
  "rg_canceled (snd (registry_take conn k r)) = rg_canceled r"
  by (simp add: registry_take_eq split: option.splits)

lemma registry_wf_take: "registry_wf r \<Longrightarrow> registry_wf (snd (registry_take conn k r))"
  by (auto simp: registry_take_eq split: option.splits
      intro!: registry_wf_erase_request elim: registry_lookup_SomeE)

lemma registry_cancel_eq:
  "registry_cancel conn k r =
     (case registry_lookup r conn k of None \<Rightarrow> r
      | Some tok \<Rightarrow> (snd (registry_take conn k r))\<lparr>rg_canceled := (rg_canceled r)(tok := True)\<rparr>)"
  by (auto simp: registry_cancel_def registry_take_def registry_lookup_def
      split: option.splits bind_splits)

lemma registry_lookup_flags [simp]:
  "registry_lookup (r\<lparr>rg_canceled := f\<rparr>) c k = registry_lookup r c k"
  by (simp add: registry_lookup_def)

lemma registry_wf_flags [simp]: "registry_wf (r\<lparr>rg_canceled := f\<rparr>) = registry_wf r"
  by (simp add: registry_wf_def)

lemma lookup_registry_cancel:
  "registry_lookup (registry_cancel conn k r) c j =
     (if c = conn \<and> j = k then None else registry_lookup r c j)"
  by (auto simp: registry_cancel_eq lookup_registry_take split: option.split)

lemma canceled_registry_cancel:
  "rg_canceled (registry_cancel conn k r) t \<longleftrightarrow>
     rg_canceled r t \<or> registry_lookup r conn k = Some t"
  by (auto simp: registry_cancel_eq split: option.split)

lemma registry_wf_cancel: "registry_wf r \<Longrightarrow> registry_wf (registry_cancel conn k r)"
  by (auto simp: registry_cancel_eq registry_wf_take split: option.split)

lemma lookup_clearConnection:
  "registry_lookup (clearConnectionCancellations conn r) c k =
     (if c = conn then None else registry_lookup r c k)"
  by (auto simp: clearConnectionCancellations_def registry_lookup_def umap_simps
      split: option.split)

lemma fold_flags: "fold (\<lambda>it fl. fl(snd it := True)) m f t \<longleftrightarrow> f t \<or> t \<in> snd ` set m"
  by (induction m arbitrary: f) auto

lemma canceled_clearConnection:
  assumes "registry_wf r"
  shows "rg_canceled (clearConnectionCancellations conn r) t \<longleftrightarrow>
     rg_canceled r t \<or> (\<exists>k. registry_lookup r conn k = Some t)"
proof (cases "m_find (rg_cancellations r) conn")
  case None
  then show ?thesis by (simp add: clearConnectionCancellations_def registry_lookup_def)
next
  case (Some m)
  then have "m_wf m" using registry_wf_inner[OF assms] by simp
  moreover have "t \<in> snd ` set m \<longleftrightarrow> (\<exists>k. (k, t) \<in> set m)"
    by (auto simp: image_iff intro: rev_bexI)
  ultimately have "t \<in> snd ` set m \<longleftrightarrow> (\<exists>k. m_find m k = Some t)"
    by (simp only: m_find_set_iff)
  with Some show ?thesis
    by (simp add: clearConnectionCancellations_def registry_lookup_def fold_flags)
qed

lemma registry_wf_clearConnection:
  "registry_wf r \<Longrightarrow> registry_wf (clearConnectionCancellations conn r)"
  by (auto simp: clearConnectionCancellations_def registry_wf_def umap_simps set_m_erase
      split: option.split)

text \<open>Registration, by its outcome.\<close>

lemma registerToken_eq:
  "registerToken conn k tok r =
     (if registry_lookup r conn k \<noteq> None then (kDuplicateRequestId, r)
      else if (case rg_maxActiveRequests r of None \<Rightarrow> False
               | Some mx \<Rightarrow> count_active (rg_cancellations r) \<ge> mx)
      then (kGlobalLimitReached, r)
      else if m_find (rg_cancellations r) conn \<noteq> None \<and>
              (case rg_maxActiveRequestsPerConnection r of None \<Rightarrow> False
               | Some mx \<Rightarrow> active_on r conn \<ge> unat mx)
      then (kConnectionLimitReached, r)
      else (kRegistered, r\<lparr>rg_cancellations :=
              m_put conn (m_put k tok (case m_find (rg_cancellations r) conn of None \<Rightarrow> [] | Some m \<Rightarrow> m))
                (rg_cancellations r)\<rparr>))"
  by (cases "m_find (rg_cancellations r) conn")
    (simp_all add: registerToken_def registry_lookup_def active_on_def Let_def cong: option.case_cong)

lemma lookup_registerToken:
  assumes "registerToken conn k tok r = (st, r')"
  shows "registry_lookup r' c j =
    (if st = kRegistered \<and> c = conn \<and> j = k then Some tok else registry_lookup r c j)"
  using assms
  by (cases "m_find (rg_cancellations r) conn")
    (auto simp: registerToken_eq registry_lookup_def umap_simps split: if_splits)

lemma canceled_registerToken: "rg_canceled (snd (registerToken conn k tok r)) = rg_canceled r"
  by (simp add: registerToken_eq)

lemma registry_wf_registerToken:
  assumes "registry_wf r" shows "registry_wf (snd (registerToken conn k tok r))"
proof -
  let ?m = "case m_find (rg_cancellations r) conn of None \<Rightarrow> [] | Some m \<Rightarrow> m"
  have "m_wf ?m"
    using registry_wf_inner[OF assms] by (auto split: option.split)
  then have "registry_wf (r\<lparr>rg_cancellations := m_put conn (m_put k tok ?m) (rg_cancellations r)\<rparr>)"
    by (intro registry_wf_put assms) (auto simp: umap_simps update_nonempty)
  then show ?thesis
    using assms by (simp add: registerToken_eq)
qed

subsection \<open>Counting the active requests\<close>

text \<open>The keys of the nested maps as one list: its length is the number of active requests, its
  set the domain of the abstract map.\<close>

definition active_keys :: "'c registry \<Rightarrow> ('c \<times> u64) list" where
  "active_keys r = concat (map (\<lambda>p. map (\<lambda>q. (fst p, fst q)) (snd p)) (rg_cancellations r))"

lemma length_active_keys: "length (active_keys r) = active_total r"
  by (simp add: active_keys_def active_total_def length_concat o_def)

lemma set_active_keys:
  assumes "registry_wf r"
  shows "set (active_keys r) = {(c, k). registry_lookup r c k \<noteq> None}"
proof -
  have "(c, k) \<in> set (active_keys r) \<longleftrightarrow> registry_lookup r c k \<noteq> None" for c k
  proof -
    have "(c, k) \<in> set (active_keys r) \<longleftrightarrow>
        (\<exists>m. (c, m) \<in> set (rg_cancellations r) \<and> k \<in> m_keys m)"
      by (force simp: active_keys_def)
    also have "\<dots> \<longleftrightarrow> (\<exists>m. m_find (rg_cancellations r) c = Some m \<and> m_find m k \<noteq> None)"
      using assms by (simp add: registry_wf_def m_find_set_iff m_find_None_iff)
    finally show ?thesis
      by (cases "m_find (rg_cancellations r) c") (simp_all add: registry_lookup_def)
  qed
  then show ?thesis by auto
qed

lemma distinct_active_keys:
  fixes r :: "'c registry"
  assumes "registry_wf r" shows "distinct (active_keys r)"
proof -
  have "distinct (concat (map (\<lambda>p. map (\<lambda>q. (fst p, fst q)) (snd p)) cs))"
    if "m_wf cs" "\<forall>p \<in> set cs. m_wf (snd p)" for cs :: "('c, (u64, token) umap) umap"
    using that
  proof (induction cs)
    case (Cons p cs)
    have "distinct (map (\<lambda>q. (fst p, fst q)) (snd p))"
      using Cons.prems by (auto simp: distinct_map inj_on_def)
    with Cons show ?case by force
  qed simp
  with assms show ?thesis
    by (simp add: active_keys_def registry_wf_def)
qed

lemma active_total_card:
  "registry_wf r \<Longrightarrow> active_total r = card {(c, k). registry_lookup r c k \<noteq> None}"
  by (metis distinct_card length_active_keys set_active_keys distinct_active_keys)

lemma finite_active: "registry_wf r \<Longrightarrow> finite {(c, k). registry_lookup r c k \<noteq> None}"
  by (metis set_active_keys List.finite_set)

lemma active_on_card:
  assumes "registry_wf r"
  shows "active_on r c = card {k. registry_lookup r c k \<noteq> None}"
proof (cases "m_find (rg_cancellations r) c")
  case (Some m)
  then have "m_wf m" using registry_wf_inner[OF assms] by simp
  moreover have "{k. m_find m k \<noteq> None} = m_keys m"
    by (auto simp: m_find_None_iff)
  ultimately have "length m = card {k. m_find m k \<noteq> None}"
    by (metis distinct_card length_map list.set_map)
  with Some show ?thesis
    by (simp add: active_on_def registry_lookup_def)
qed (simp add: active_on_def registry_lookup_def)

lemma count_active_mod:
  fixes r :: "'c registry"
  shows "unat (count_active (rg_cancellations r)) = active_total r mod size_max"
proof -
  have "fold (\<lambda>item n. n + of_nat (length (snd item))) cs (of_nat a) =
      (of_nat (a + sum_list (map (\<lambda>p. length (snd p)) cs)) :: u64)" for cs :: "('c, (u64, token) umap) umap" and a
    by (induction cs arbitrary: a) (simp_all add: of_nat_add[symmetric] add.assoc del: of_nat_add)
  from this[of "rg_cancellations r" 0] show ?thesis
    by (simp add: count_active_def active_total_def unat_of_nat)
qed

lemma count_active_ge:
  "active_total r \<le> unat mx \<Longrightarrow>
     count_active (rg_cancellations r) \<ge> mx \<longleftrightarrow> active_total r \<ge> unat mx"
  using unsigned_less[of mx, where 'a = nat] by (simp add: word_le_nat_alt count_active_mod)

subsection \<open>The interface of the registry\<close>

locale request_registry =
  fixes wf :: "'r \<Rightarrow> bool"
    and lookup :: "'r \<Rightarrow> 'c \<Rightarrow> u64 \<Rightarrow> token option"
    and canceled :: "'r \<Rightarrow> token \<Rightarrow> bool"
    and take_tok :: "'c \<Rightarrow> u64 \<Rightarrow> 'r \<Rightarrow> token option \<times> 'r"
    and register :: "'c \<Rightarrow> u64 \<Rightarrow> token \<Rightarrow> 'r \<Rightarrow> RegisterTokenStatus \<times> 'r"
    and cancel :: "'c \<Rightarrow> u64 \<Rightarrow> 'r \<Rightarrow> 'r"
    and clear :: "'c \<Rightarrow> 'r \<Rightarrow> 'r"
  assumes wf_take: "wf r \<Longrightarrow> wf (snd (take_tok c k r))"
    and take_result: "fst (take_tok c k r) = lookup r c k"
    and take_lookup: "lookup (snd (take_tok c k r)) c' k' =
      (if c' = c \<and> k' = k then None else lookup r c' k')"
    and take_canceled: "canceled (snd (take_tok c k r)) t = canceled r t"
    and wf_register: "wf r \<Longrightarrow> wf (snd (register c k t r))"
    and register_lookup: "lookup (snd (register c k t r)) c' k' =
      (if fst (register c k t r) = kRegistered \<and> c' = c \<and> k' = k then Some t else lookup r c' k')"
    and register_fresh: "fst (register c k t r) = kRegistered \<Longrightarrow> lookup r c k = None"
    and register_canceled: "canceled (snd (register c k t r)) t' = canceled r t'"
    and wf_cancel: "wf r \<Longrightarrow> wf (cancel c k r)"
    and cancel_lookup: "lookup (cancel c k r) c' k' =
      (if c' = c \<and> k' = k then None else lookup r c' k')"
    and cancel_canceled: "canceled (cancel c k r) t \<longleftrightarrow> canceled r t \<or> lookup r c k = Some t"
    and wf_clear: "wf r \<Longrightarrow> wf (clear c r)"
    and clear_lookup: "lookup (clear c r) c' k' = (if c' = c then None else lookup r c' k')"
    and clear_canceled: "wf r \<Longrightarrow>
      canceled (clear c r) t \<longleftrightarrow> canceled r t \<or> (\<exists>k. lookup r c k = Some t)"
begin

lemmas registry_laws = take_result take_lookup take_canceled register_lookup register_canceled
  cancel_lookup cancel_canceled clear_lookup clear_canceled

lemmas registry_wfs = wf_take wf_register wf_cancel wf_clear

text \<open>A token is taken at most once; a cancelled or closed request has none to take.\<close>

lemma take_once: "fst (take_tok c k (snd (take_tok c k r))) = None"
  by (simp add: registry_laws)

lemma take_after_cancel: "fst (take_tok c k (cancel c k r)) = None"
  by (simp add: registry_laws)

lemma take_after_clear: "fst (take_tok c k (clear c r)) = None"
  by (simp add: registry_laws)

text \<open>No registered token is cancelled: cancelling sets a flag and removes the token, and
  registration takes a token whose flag is not set.\<close>

definition flags_clear :: "'r \<Rightarrow> bool" where
  "flags_clear r \<longleftrightarrow> (\<forall>c k t. lookup r c k = Some t \<longrightarrow> \<not> canceled r t)"

definition tokens_distinct :: "'r \<Rightarrow> bool" where
  "tokens_distinct r \<longleftrightarrow> (\<forall>c k c' k' t.
     lookup r c k = Some t \<longrightarrow> lookup r c' k' = Some t \<longrightarrow> c' = c \<and> k' = k)"

lemma tokens_take: "tokens_distinct r \<Longrightarrow> tokens_distinct (snd (take_tok c k r))"
  by (auto simp: tokens_distinct_def registry_laws)

lemma tokens_cancel: "tokens_distinct r \<Longrightarrow> tokens_distinct (cancel c k r)"
  by (auto simp: tokens_distinct_def registry_laws)

lemma tokens_clear: "tokens_distinct r \<Longrightarrow> tokens_distinct (clear c r)"
  by (auto simp: tokens_distinct_def registry_laws)

lemma tokens_register:
  assumes "tokens_distinct r" and "\<And>c' k'. lookup r c' k' \<noteq> Some t"
  shows "tokens_distinct (snd (register c k t r))"
  using assms by (auto simp: tokens_distinct_def registry_laws split: if_splits)

lemma flags_take: "flags_clear r \<Longrightarrow> flags_clear (snd (take_tok c k r))"
  by (auto simp: flags_clear_def registry_laws)

lemma flags_cancel: "tokens_distinct r \<Longrightarrow> flags_clear r \<Longrightarrow> flags_clear (cancel c k r)"
  by (auto simp: flags_clear_def tokens_distinct_def registry_laws split: if_splits)

lemma flags_clear_conn:
  assumes "wf r" "tokens_distinct r" "flags_clear r" shows "flags_clear (clear c r)"
  using assms clear_canceled[OF assms(1)]
  by (fastforce simp: flags_clear_def tokens_distinct_def clear_lookup split: if_splits)

lemma flags_register:
  "flags_clear r \<Longrightarrow> \<not> canceled r t \<Longrightarrow> flags_clear (snd (register c k t r))"
  by (auto simp: flags_clear_def registry_laws)

end

interpretation reg: request_registry registry_wf registry_lookup isCanceled registry_take
  registerToken registry_cancel clearConnectionCancellations
proof
  show "registry_lookup (snd (registerToken c k t r)) c' k' =
      (if fst (registerToken c k t r) = kRegistered \<and> c' = c \<and> k' = k then Some t
       else registry_lookup r c' k')" for c k t r c' k'
    by (rule lookup_registerToken) simp
  show "registry_lookup r c k = None" if "fst (registerToken c k t r) = kRegistered" for c k t r
    using that by (auto simp: registerToken_eq split: if_splits)
qed (simp_all add: isCanceled_def fst_registry_take lookup_registry_take registry_wf_take
    canceled_registerToken registry_wf_registerToken lookup_registry_cancel registry_wf_cancel
    canceled_registry_cancel lookup_clearConnection registry_wf_clearConnection
    canceled_clearConnection)

subsection \<open>Refinement of the abstract request map\<close>

text \<open>The specification: a partial map from connection and request id to token, and the set of
  cancelled tokens. The limits count entries of the map.\<close>

type_synonym 'c request_map = "('c \<times> u64 \<Rightarrow> token option) \<times> token set"

datatype 'c registry_op = Take 'c u64 | Register 'c u64 token | Cancel 'c u64 | Clear 'c
datatype registry_answer = Taken "token option" | Registered RegisterTokenStatus | Done

fun registry_exec :: "'c registry_op \<Rightarrow> 'c registry \<Rightarrow> registry_answer \<times> 'c registry" where
  "registry_exec (Take c k) r = apfst Taken (registry_take c k r)"
| "registry_exec (Register c k t) r = apfst Registered (registerToken c k t r)"
| "registry_exec (Cancel c k) r = (Done, registry_cancel c k r)"
| "registry_exec (Clear c) r = (Done, clearConnectionCancellations c r)"

definition reached :: "u64 option \<Rightarrow> nat \<Rightarrow> bool" where
  "reached limit n = (case limit of None \<Rightarrow> False | Some mx \<Rightarrow> n \<ge> unat mx)"

fun spec_exec :: "u64 option \<Rightarrow> u64 option \<Rightarrow> 'c registry_op \<Rightarrow> 'c request_map \<Rightarrow>
    registry_answer \<times> 'c request_map" where
  "spec_exec mx mxc (Take c k) (m, x) = (Taken (m (c, k)), m((c, k) := None), x)"
| "spec_exec mx mxc (Register c k t) (m, x) =
    (if (c, k) \<in> dom m then (Registered kDuplicateRequestId, m, x)
     else if reached mx (card (dom m)) then (Registered kGlobalLimitReached, m, x)
     else if reached mxc (card {k. (c, k) \<in> dom m}) then (Registered kConnectionLimitReached, m, x)
     else (Registered kRegistered, m((c, k) \<mapsto> t), x))"
| "spec_exec mx mxc (Cancel c k) (m, x) = (Done, m((c, k) := None), x \<union> set_option (m (c, k)))"
| "spec_exec mx mxc (Clear c) (m, x) =
    (Done, m |` {p. fst p \<noteq> c}, x \<union> {t. \<exists>k. m (c, k) = Some t})"

fun run_ops :: "('o \<Rightarrow> 's \<Rightarrow> 'a \<times> 's) \<Rightarrow> 'o list \<Rightarrow> 's \<Rightarrow> 'a list \<times> 's" where
  "run_ops f [] s = ([], s)"
| "run_ops f (x # xs) s = (let (a, s') = f x s; (as, t) = run_ops f xs s' in (a # as, t))"

definition registry_abs :: "'c registry \<Rightarrow> 'c request_map" where
  "registry_abs r = ((\<lambda>(c, k). registry_lookup r c k), {t. rg_canceled r t})"

definition registry_limited :: "u64 option \<Rightarrow> u64 option \<Rightarrow> 'c registry" where
  "registry_limited mx mxc =
     registry_empty\<lparr>rg_maxActiveRequests := mx, rg_maxActiveRequestsPerConnection := mxc\<rparr>"

definition registry_inv :: "'c registry \<Rightarrow> bool" where
  "registry_inv r \<longleftrightarrow> registry_wf r \<and> within_limits r \<and>
     rg_maxActiveRequestsPerConnection r \<noteq> Some 0"

lemma within_limits_reached:
  "within_limits r \<longleftrightarrow>
     (\<forall>mx. rg_maxActiveRequests r = Some mx \<longrightarrow> active_total r \<le> unat mx) \<and>
     (\<forall>mx conn. rg_maxActiveRequestsPerConnection r = Some mx \<longrightarrow> active_on r conn \<le> unat mx)"
  by (auto simp: within_limits_def split: option.split)

definition same_limits :: "'c registry \<Rightarrow> 'c registry \<Rightarrow> bool" where
  "same_limits r r' \<longleftrightarrow> rg_maxActiveRequests r' = rg_maxActiveRequests r \<and>
     rg_maxActiveRequestsPerConnection r' = rg_maxActiveRequestsPerConnection r"

lemma same_limits_ops:
  "same_limits r (snd (registry_take c k r))"
  "same_limits r (snd (registerToken c k t r))"
  "same_limits r (registry_cancel c k r)"
  "same_limits r (clearConnectionCancellations c r)"
  by (auto simp: same_limits_def registry_take_eq registerToken_eq registry_cancel_eq
      clearConnectionCancellations_def split: option.split)

text \<open>An operation that only removes requests keeps the registry within its limits.\<close>

lemma registry_inv_shrink:
  assumes inv: "registry_inv r" and wf: "registry_wf r'" and same: "same_limits r r'"
    and sub: "\<And>c k. registry_lookup r' c k \<noteq> None \<Longrightarrow> registry_lookup r c k \<noteq> None"
  shows "registry_inv r'"
proof -
  have wfr: "registry_wf r" using inv by (simp add: registry_inv_def)
  have "active_total r' \<le> active_total r"
    unfolding active_total_card[OF wf] active_total_card[OF wfr]
    using sub by (intro card_mono finite_active wfr) auto
  moreover have "finite {k. registry_lookup r c k \<noteq> None}" for c
    using finite_vimageI[OF finite_active[OF wfr], of "Pair c"] by (simp add: inj_on_def vimage_def)
  then have "active_on r' c \<le> active_on r c" for c
    unfolding active_on_card[OF wf] active_on_card[OF wfr]
    using sub by (intro card_mono) auto
  ultimately show ?thesis
    using inv wf same
    by (simp add: registry_inv_def within_limits_reached same_limits_def) (blast intro: le_trans)
qed

lemma registry_inv_removals:
  assumes "registry_inv r"
  shows "registry_inv (snd (registry_take c k r))"
    and "registry_inv (registry_cancel c k r)"
    and "registry_inv (clearConnectionCancellations c r)"
proof -
  have wf: "registry_wf r" using assms by (simp add: registry_inv_def)
  show "registry_inv (snd (registry_take c k r))"
    by (rule registry_inv_shrink[OF assms])
      (simp_all add: wf same_limits_ops reg.registry_wfs reg.registry_laws split: if_splits)
  show "registry_inv (registry_cancel c k r)"
    by (rule registry_inv_shrink[OF assms])
      (simp_all add: wf same_limits_ops reg.registry_wfs reg.registry_laws split: if_splits)
  show "registry_inv (clearConnectionCancellations c r)"
    by (rule registry_inv_shrink[OF assms])
      (simp_all add: wf same_limits_ops reg.registry_wfs reg.registry_laws split: if_splits)
qed

lemma registerToken_registered:
  assumes "registerToken c k t r = (kRegistered, r')"
  shows "registry_lookup r c k = None"
    and "active_total r' = Suc (active_total r)"
    and "active_on r' d = (if d = c then Suc (active_on r c) else active_on r d)"
proof -
  have total: "sum_list (map (\<lambda>p. length (snd p)) (m_put c n cs)) =
      sum_list (map (\<lambda>p. length (snd p)) cs) + length n - (case m_find cs c of None \<Rightarrow> 0 | Some m \<Rightarrow> length m)"
    for n and cs :: "('a, (u64, token) umap) umap"
    by (induction cs) (auto split: option.splits dest!: map_of_SomeD simp: sum_list_map_remove1)
  show "registry_lookup r c k = None"
    using reg.register_fresh assms by (metis fst_conv)
  then show "active_total r' = Suc (active_total r)"
    and "active_on r' d = (if d = c then Suc (active_on r c) else active_on r d)"
    using assms
    by (cases "m_find (rg_cancellations r) c";
        auto simp: registerToken_eq active_total_def active_on_def total registry_lookup_def
          umap_simps split: if_splits)+
qed

lemma registerToken_status:
  assumes "registry_inv r"
  shows "fst (registerToken c k t r) =
    (if registry_lookup r c k \<noteq> None then kDuplicateRequestId
     else if reached (rg_maxActiveRequests r) (active_total r) then kGlobalLimitReached
     else if reached (rg_maxActiveRequestsPerConnection r) (active_on r c)
     then kConnectionLimitReached else kRegistered)"
proof -
  have "count_active (rg_cancellations r) \<ge> mx \<longleftrightarrow> active_total r \<ge> unat mx"
    if "rg_maxActiveRequests r = Some mx" for mx
    using assms that by (intro count_active_ge) (simp add: registry_inv_def within_limits_reached)
  then have glob: "(case rg_maxActiveRequests r of None \<Rightarrow> False
      | Some mx \<Rightarrow> count_active (rg_cancellations r) \<ge> mx) = reached (rg_maxActiveRequests r) (active_total r)"
    by (simp add: reached_def split: option.split)
  have conn: "(m_find (rg_cancellations r) c \<noteq> None \<and>
      (case rg_maxActiveRequestsPerConnection r of None \<Rightarrow> False | Some mx \<Rightarrow> active_on r c \<ge> unat mx)) =
      reached (rg_maxActiveRequestsPerConnection r) (active_on r c)"
    using assms
    by (auto simp: reached_def registry_inv_def active_on_def unat_eq_0 split: option.splits)
  show ?thesis
    unfolding registerToken_eq glob conn by simp
qed

lemma registerToken_refused: "fst (registerToken c k t r) \<noteq> kRegistered \<Longrightarrow> snd (registerToken c k t r) = r"
  by (auto simp: registerToken_eq split: if_splits)

lemma registry_inv_registerToken:
  assumes inv: "registry_inv r" shows "registry_inv (snd (registerToken c k t r))"
proof (cases "fst (registerToken c k t r) = kRegistered")
  case True
  then obtain r' where r': "registerToken c k t r = (kRegistered, r')"
    by (metis prod.collapse)
  have "\<not> reached (rg_maxActiveRequests r) (active_total r)"
    and "\<not> reached (rg_maxActiveRequestsPerConnection r) (active_on r c)"
    using True by (auto simp: registerToken_status[OF inv] split: if_splits)
  then show ?thesis
    using inv r' registerToken_registered[OF r'] same_limits_ops(2)[of r c k t]
      registry_wf_registerToken[of r c k t]
    by (auto simp: registry_inv_def within_limits_reached reached_def same_limits_def)
qed (simp add: registerToken_refused inv)

lemma registry_exec_refines:
  assumes inv: "registry_inv r" and exec: "registry_exec op r = (a, r')"
  shows "spec_exec (rg_maxActiveRequests r) (rg_maxActiveRequestsPerConnection r) op (registry_abs r) =
      (a, registry_abs r')"
    and "registry_inv r'" and "same_limits r r'"
proof -
  have wf: "registry_wf r" using inv by (simp add: registry_inv_def)
  have dom: "dom (\<lambda>(c, k). registry_lookup r c k) = {(c, k). registry_lookup r c k \<noteq> None}"
    by (auto simp: dom_def)
  have r': "r' = snd (registry_exec op r)" and a: "a = fst (registry_exec op r)"
    using exec by simp_all
  show "registry_inv r'" and "same_limits r r'"
    unfolding r' using inv
    by (cases op; simp add: same_limits_ops registry_inv_removals registry_inv_registerToken)+
  show "spec_exec (rg_maxActiveRequests r) (rg_maxActiveRequestsPerConnection r) op (registry_abs r) =
      (a, registry_abs r')"
  proof (cases op)
    case (Register c k t)
    then have "registry_abs r' = (if fst (registerToken c k t r) = kRegistered
        then (\<lambda>(c, k). registry_lookup r c k)((c, k) \<mapsto> t) else (\<lambda>(c, k). registry_lookup r c k), {t. rg_canceled r t})"
      unfolding r'
      by (auto simp: registry_abs_def reg.register_lookup canceled_registerToken fun_eq_iff)
    then show ?thesis
      unfolding Register a
      by (simp add: registry_abs_def dom registerToken_status[OF inv] active_total_card[OF wf]
          active_on_card[OF wf] domIff)
  qed (auto simp: r' a wf registry_abs_def fun_eq_iff restrict_map_def
      reg.registry_laws[unfolded isCanceled_def])
qed

lemma registry_run_refines:
  assumes "registry_inv r"
  shows "run_ops (spec_exec (rg_maxActiveRequests r) (rg_maxActiveRequestsPerConnection r)) ops
      (registry_abs r) = apsnd registry_abs (run_ops registry_exec ops r) \<and>
    registry_inv (snd (run_ops registry_exec ops r))"
  using assms
proof (induction ops arbitrary: r)
  case (Cons op ops)
  obtain a r' where exec: "registry_exec op r = (a, r')" by fastforce
  note step = registry_exec_refines[OF Cons.prems exec]
  from Cons.IH[OF step(2)] step(1,3) exec show ?case
    by (auto simp: same_limits_def split: prod.splits)
qed simp

lemma registry_inv_limited: "mxc \<noteq> Some 0 \<Longrightarrow> registry_inv (registry_limited mx mxc)"
  by (simp add: registry_inv_def registry_wf_def within_limits_reached registry_limited_def
      registry_empty_def active_total_def active_on_def)

lemma registry_abs_limited: "registry_abs (registry_limited mx mxc) = (Map.empty, {})"
  by (simp add: registry_abs_def registry_limited_def registry_empty_def registry_lookup_def
      fun_eq_iff)

text \<open>C15: the nested hash maps with their clean-up of empty inner maps implement one partial map
  from connection and request id to token. Every sequence of operations returns the answers of
  that map, in particular the four answers of a registration with the limits read as numbers of
  map entries, although the code adds up 64-bit sizes; the cancelled tokens are the ones the map
  prescribes; and at no time are more requests active than the limits allow.\<close>

theorem registry_refines_map:
  assumes "mxc \<noteq> Some 0"
  shows "run_ops (spec_exec mx mxc) ops (Map.empty, {}) =
      apsnd registry_abs (run_ops registry_exec ops (registry_limited mx mxc)) \<and>
    within_limits (snd (run_ops registry_exec ops (registry_limited mx mxc)))"
  using registry_run_refines[OF registry_inv_limited[OF assms], of mx ops]
  by (simp add: registry_abs_limited registry_inv_def)
    (simp add: registry_limited_def registry_empty_def)

theorem registry_refines_map_witness:
  "fst (run_ops (spec_exec (Some 1) (Some 1))
       [Register (0::nat) 7 0, Register 0 7 1, Register 1 7 2, Cancel 0 7, Take 0 7, Register 1 7 2]
       (Map.empty, {})) =
     [Registered kRegistered, Registered kDuplicateRequestId, Registered kGlobalLimitReached, Done,
      Taken None, Registered kRegistered]"
proof -
  have "fst (run_ops registry_exec
       [Register (0::nat) 7 0, Register 0 7 1, Register 1 7 2, Cancel 0 7, Take 0 7, Register 1 7 2]
       (registry_limited (Some 1) (Some 1))) =
     [Registered kRegistered, Registered kDuplicateRequestId, Registered kGlobalLimitReached, Done,
      Taken None, Registered kRegistered]"
    by code_simp
  moreover have "Some (1::u64) \<noteq> Some 0" by simp
  ultimately show ?thesis
    by (simp only: registry_refines_map fst_apsnd simp_thms)
qed

text \<open>A request that is not registered stays so until it is registered again.\<close>

lemma lookup_None_stable:
  assumes "registry_lookup r c k = None" and "\<And>t. Register c k t \<notin> set ops"
  shows "registry_lookup (snd (run_ops registry_exec ops r)) c k = None"
  using assms
proof (induction ops arbitrary: r)
  case (Cons op ops)
  have "registry_lookup (snd (registry_exec op r)) c k = None"
    using Cons.prems by (cases op) (auto simp: reg.registry_laws)
  from Cons.IH[OF this] Cons.prems(2) show ?case
    by (simp add: case_prod_unfold Let_def)
qed simp

text \<open>Once a request is cancelled by its peer, taken by a reply, or dropped with its
  connection, no later reply obtains its token, whatever other operations happen in between, as
  long as the same request id is not registered again on the same connection; and the token of a
  cancelled request reads as cancelled.\<close>

theorem registry_settled_once:
  assumes "\<And>t. Register c k t \<notin> set ops"
    and "r' \<in> {registry_cancel c k r, snd (registry_take c k r), clearConnectionCancellations c r}"
  shows "fst (registry_take c k (snd (run_ops registry_exec ops r'))) = None \<and>
    (\<forall>tok. registry_lookup r c k = Some tok \<longrightarrow> isCanceled (registry_cancel c k r) tok)"
proof -
  have "registry_lookup r' c k = None"
    using assms(2) by (auto simp: reg.registry_laws)
  from lookup_None_stable[OF this assms(1)] show ?thesis
    by (simp add: reg.registry_laws)
qed

theorem registry_settled_once_witness:
  "fst (registry_take 0 7 (snd (run_ops registry_exec [Register 0 8 1, Register (1::nat) 7 2]
      (registry_cancel 0 7 (snd (registerToken 0 7 0 registry_empty)))))) = None \<and>
   isCanceled (registry_cancel 0 7 (snd (registerToken (0::nat) 7 0 registry_empty))) 0"
proof -
  have "registry_lookup (snd (registerToken (0::nat) 7 0 registry_empty)) 0 7 = Some 0"
    by code_simp
  then show ?thesis
    using registry_settled_once[of 0 7 "[Register 0 8 1, Register (1::nat) 7 2]"
        "registry_cancel 0 7 (snd (registerToken 0 7 0 registry_empty))"
        "snd (registerToken 0 7 0 registry_empty)"] by simp
qed

end
