(* ===== verification/Rpc_Server.thy ===== *)
theory Rpc_Server
  imports Rpc_Message Task_Thread_Pool Cancellation_Registry
begin

section \<open>The server (RpcServer.h, RpcServer.cc)\<close>

text \<open>
  The state and the operations of \<open>RpcServer\<close>. Code outside the repository enters as parameters:
  \<^item> a connection is a value of type \<open>'c\<close>; \<open>up\<close> gives \<open>conn->connected()\<close>; what the server asks
    the transport to do (\<open>forceClose\<close>, \<open>LengthHeaderCodec::send\<close>) is a list of \<open>action\<close>s;
    \<open>kMax\<close> is \<open>LengthHeaderCodec::kMaxMessageSize\<close>;
  \<^item> a synchronous handler is a function of the payload and of a state \<open>'w\<close> of the application,
    with \<^const>\<open>None\<close> for an exception; an asynchronous handler is an opaque value \<open>'h\<close>: it may
    call its reply function at any time, any number of times, or throw, and each of these is an
    operation of the model (\<open>async_reply\<close>, \<open>async_throw\<close>).
  Every invocation of an asynchronous handler allocates a cancellation token, a reply flag and the
  closures that hold them: these are the entries of \<open>sv_calls\<close>, and the index of an entry serves
  as its token and as the task in the pool. \<open>sv_queue\<close> holds the functors a reply has handed to
  the loop of its connection (\<open>qr_call\<close> names the invocation and is read by no operation). A failed
  \<open>assert\<close> is \<^const>\<open>None\<close>; the assertions on the calling thread are left out. An action
  \<open>Undefined\<close> stands for undefined behaviour (an access outside a buffer, a dereferenced end
  iterator).
\<close>

subsection \<open>Data\<close>

record RpcResult =
  rr_result :: ResponseResult
  rr_errorCode :: RpcErrorCode
  rr_payload :: string
  rr_errorMessage :: string

definition RpcResult_make :: "ResponseResult \<Rightarrow> RpcErrorCode \<Rightarrow> string \<Rightarrow> string \<Rightarrow> RpcResult" where
  "RpcResult_make resultValue errorCodeValue payloadValue errorMessageValue =
     \<lparr>rr_result = resultValue, rr_errorCode = errorCodeValue, rr_payload = payloadValue,
      rr_errorMessage = errorMessageValue\<rparr>"

lemma RpcResult_make_sel [simp]:
  "rr_result (RpcResult_make a b c d) = a" "rr_errorCode (RpcResult_make a b c d) = b"
  "rr_payload (RpcResult_make a b c d) = c" "rr_errorMessage (RpcResult_make a b c d) = d"
  by (simp_all add: RpcResult_make_def)

definition RpcResult_default :: RpcResult where
  "RpcResult_default = RpcResult_make kUnsuccess INTERNAL_ERROR [] []"

definition RpcResult_of_result :: "ResponseResult \<Rightarrow> string \<Rightarrow> string \<Rightarrow> RpcResult" where
  "RpcResult_of_result resultValue payloadValue errorMessageValue =
     (let r = RpcResult_make resultValue NO_ERROR payloadValue errorMessageValue in
      if resultValue = kSuccess then r\<lparr>rr_errorCode := NO_ERROR\<rparr>
      else if resultValue = kUnsuccess then r\<lparr>rr_errorCode := BUSINESS_ERROR\<rparr>
      else r)"

datatype ServerStatus = kNotStarted | kRunning | kStopping | kStopped

text \<open>The thread \<open>stop\<close> starts: it has still to call \<open>taskPool_->stop()\<close>, waits inside it, has
  queued \<open>onTaskPoolStopped\<close> in the loop, or has been joined.\<close>

datatype StopThread = T_none | T_calling | T_waiting | T_queued | T_done | T_joined

datatype 'c action = ForceClose 'c | SendFrame 'c string | StopComplete | Undefined

type_synonym 'w RpcHandler = "string \<Rightarrow> 'w \<Rightarrow> RpcResult option \<times> 'w"

type_synonym 'h method_table = "(string, (string, 'h) umap) umap"

record ('c, 'h) async_call =
  ac_conn :: 'c
  ac_requestId :: u64
  ac_payload :: string
  ac_handler :: 'h
  ac_replied :: bool

record 'c queued_reply =
  qr_conn :: 'c
  qr_requestId :: u64
  qr_result :: RpcResult
  qr_call :: nat

record ('c, 'h, 'w) server =
  sv_maxMessageSize :: "nat option"
  sv_status :: ServerStatus
  sv_tcpServerStopped :: bool
  sv_taskPoolStopped :: bool
  sv_taskPool :: "nat traced_pool option"
  sv_stopThread :: StopThread
  sv_syncHandlers :: "'w RpcHandler method_table"
  sv_asyncHandlers :: "'h method_table"
  sv_registry :: "'c registry"
  sv_stopCallback :: bool
  sv_calls :: "('c, 'h) async_call list"
  sv_queue :: "'c queued_reply list"
  sv_world :: 'w

definition RpcServer_new :: "'w \<Rightarrow> ('c, 'h, 'w) server" where
  "RpcServer_new w = \<lparr>sv_maxMessageSize = None, sv_status = kNotStarted, sv_tcpServerStopped = False,
     sv_taskPoolStopped = False, sv_taskPool = None, sv_stopThread = T_none, sv_syncHandlers = [],
     sv_asyncHandlers = [], sv_registry = registry_empty, sv_stopCallback = False, sv_calls = [],
     sv_queue = [], sv_world = w\<rparr>"

subsection \<open>Sending a response\<close>

definition too_large_text :: string where
  "too_large_text = ''rpc message too large''"

text \<open>Encode a response and send it when the connection is up.\<close>

definition send_encoded :: "bool \<Rightarrow> ('c \<Rightarrow> bool) \<Rightarrow> 'c \<Rightarrow> RpcResponse \<Rightarrow> 'c action list" where
  "send_encoded le up conn response =
     (case RpcResponse_encode le response [] [] of
        None \<Rightarrow> [Undefined]
      | Some (res, outputMessage, errorMessage) \<Rightarrow>
          if \<not> res \<or> errorMessage \<noteq> [] then [ForceClose conn]
          else if up conn then [SendFrame conn outputMessage] else [])"

definition sendFramedData ::
  "bool \<Rightarrow> ('c \<Rightarrow> bool) \<Rightarrow> 'c \<Rightarrow> u64 \<Rightarrow> ResponseResult \<Rightarrow> RpcErrorCode \<Rightarrow> string \<Rightarrow> string \<Rightarrow> nat \<Rightarrow>
     'c action list" where
  "sendFramedData le up conn requestId responseResult errorCode payload errorMessage maxMessageSize =
     (let outputMessageLen = RpcResponse_OutputMessageLen (length payload) (length errorMessage) in
      if outputMessageLen > maxMessageSize then
        if maxMessageSize < RpcResponse_OutputMessageLen 0 (length too_large_text)
        then [ForceClose conn]
        else send_encoded le up conn
          (RpcResponse_make requestId kUnsuccess MESSAGE_TOO_LARGE [] too_large_text)
      else send_encoded le up conn
        (RpcResponse_make requestId responseResult errorCode payload errorMessage))"

definition effectiveMaxMessageSize :: "nat \<Rightarrow> ('c, 'h, 'w) server \<Rightarrow> nat" where
  "effectiveMaxMessageSize kMax s = (case sv_maxMessageSize s of None \<Rightarrow> kMax | Some m \<Rightarrow> m)"

lemma effectiveMaxMessageSize_frame [simp]:
  "effectiveMaxMessageSize kMax (s\<lparr>sv_registry := a\<rparr>) = effectiveMaxMessageSize kMax s"
  "effectiveMaxMessageSize kMax (s\<lparr>sv_calls := b\<rparr>) = effectiveMaxMessageSize kMax s"
  "effectiveMaxMessageSize kMax (s\<lparr>sv_queue := c\<rparr>) = effectiveMaxMessageSize kMax s"
  "effectiveMaxMessageSize kMax (s\<lparr>sv_taskPool := d\<rparr>) = effectiveMaxMessageSize kMax s"
  "effectiveMaxMessageSize kMax (s\<lparr>sv_stopThread := e\<rparr>) = effectiveMaxMessageSize kMax s"
  "effectiveMaxMessageSize kMax (s\<lparr>sv_status := f\<rparr>) = effectiveMaxMessageSize kMax s"
  by (simp_all add: effectiveMaxMessageSize_def)

text \<open>The member function repeats the free function with the limit of the server.\<close>

definition sendResponse ::
  "bool \<Rightarrow> nat \<Rightarrow> ('c \<Rightarrow> bool) \<Rightarrow> 'c \<Rightarrow> u64 \<Rightarrow> ResponseResult \<Rightarrow> RpcErrorCode \<Rightarrow> string \<Rightarrow> string \<Rightarrow>
     ('c, 'h, 'w) server \<Rightarrow> 'c action list" where
  "sendResponse le kMax up conn requestId responseResult errorCode payload errorMessage s =
     sendFramedData le up conn requestId responseResult errorCode payload errorMessage
       (effectiveMaxMessageSize kMax s)"

subsection \<open>The method tables\<close>

definition table_has :: "string \<Rightarrow> string \<Rightarrow> 'h method_table \<Rightarrow> bool" where
  "table_has service meth t =
     (case m_find t service of None \<Rightarrow> False | Some ms \<Rightarrow> m_find ms meth \<noteq> None)"

definition isRegisteredInSync :: "string \<Rightarrow> string \<Rightarrow> ('c, 'h, 'w) server \<Rightarrow> bool" where
  "isRegisteredInSync service meth s = table_has service meth (sv_syncHandlers s)"

definition isRegisteredInAsync :: "string \<Rightarrow> string \<Rightarrow> ('c, 'h, 'w) server \<Rightarrow> bool" where
  "isRegisteredInAsync service meth s = table_has service meth (sv_asyncHandlers s)"

definition isRegistered :: "string \<Rightarrow> string \<Rightarrow> ('c, 'h, 'w) server \<Rightarrow> bool" where
  "isRegistered service meth s = (isRegisteredInSync service meth s \<or> isRegisteredInAsync service meth s)"

definition table_insert :: "string \<Rightarrow> string \<Rightarrow> 'h \<Rightarrow> 'h method_table \<Rightarrow> bool \<times> 'h method_table" where
  "table_insert service meth h t =
     (case m_find t service of
        None \<Rightarrow> (True, m_put service (m_put meth h []) t)
      | Some ms \<Rightarrow> (case m_find ms meth of
                     None \<Rightarrow> (True, m_put service (m_put meth h ms) t)
                   | Some _ \<Rightarrow> (False, t)))"

definition table_remove :: "string \<Rightarrow> string \<Rightarrow> 'h method_table \<Rightarrow> bool \<times> 'h method_table" where
  "table_remove service meth t =
     (case m_find t service of
        None \<Rightarrow> (False, t)
      | Some ms \<Rightarrow> (case m_find ms meth of
                     None \<Rightarrow> (False, t)
                   | Some _ \<Rightarrow> (let ms' = m_erase meth ms in
                       (True, if ms' = [] then m_erase service t else m_put service ms' t))))"

text \<open>An empty \<open>std::function\<close> is \<^const>\<open>None\<close>.\<close>

definition registerMethod ::
  "string \<Rightarrow> string \<Rightarrow> 'w RpcHandler option \<Rightarrow> ('c, 'h, 'w) server \<Rightarrow> (bool \<times> ('c, 'h, 'w) server) option" where
  "registerMethod service meth handler s =
     (if sv_status s \<noteq> kNotStarted then None
      else case handler of
        None \<Rightarrow> Some (False, s)
      | Some h \<Rightarrow>
          if service = [] \<or> meth = [] then Some (False, s)
          else if isRegistered service meth s then Some (False, s)
          else let (res, t) = table_insert service meth h (sv_syncHandlers s)
               in Some (res, s\<lparr>sv_syncHandlers := t\<rparr>))"

definition registerAsyncMethod ::
  "string \<Rightarrow> string \<Rightarrow> 'h option \<Rightarrow> ('c, 'h, 'w) server \<Rightarrow> (bool \<times> ('c, 'h, 'w) server) option" where
  "registerAsyncMethod service meth asyncHandler s =
     (if sv_status s \<noteq> kNotStarted then None
      else case asyncHandler of
        None \<Rightarrow> Some (False, s)
      | Some h \<Rightarrow>
          if service = [] \<or> meth = [] then Some (False, s)
          else if isRegistered service meth s then Some (False, s)
          else let (res, t) = table_insert service meth h (sv_asyncHandlers s)
               in Some (res, s\<lparr>sv_asyncHandlers := t\<rparr>))"

definition unregisterMethod ::
  "string \<Rightarrow> string \<Rightarrow> ('c, 'h, 'w) server \<Rightarrow> (bool \<times> ('c, 'h, 'w) server) option" where
  "unregisterMethod service meth s =
     (if sv_status s \<noteq> kNotStarted then None
      else if service = [] \<or> meth = [] then Some (False, s)
      else if isRegisteredInSync service meth s then
        let (res, t) = table_remove service meth (sv_syncHandlers s)
        in Some (res, s\<lparr>sv_syncHandlers := t\<rparr>)
      else if isRegisteredInAsync service meth s then
        let (res, t) = table_remove service meth (sv_asyncHandlers s)
        in Some (res, s\<lparr>sv_asyncHandlers := t\<rparr>)
      else Some (False, s))"

subsection \<open>Configuration\<close>

definition setMaxActiveRequests :: "u64 \<Rightarrow> ('c, 'h, 'w) server \<Rightarrow> ('c, 'h, 'w) server option" where
  "setMaxActiveRequests m s =
     (if sv_status s \<noteq> kNotStarted \<or> \<not> m > 0 then None
      else Some (s\<lparr>sv_registry := (sv_registry s)\<lparr>rg_maxActiveRequests := Some m\<rparr>\<rparr>))"

definition setMaxActiveRequestsPerConnection ::
  "u64 \<Rightarrow> ('c, 'h, 'w) server \<Rightarrow> ('c, 'h, 'w) server option" where
  "setMaxActiveRequestsPerConnection m s =
     (if sv_status s \<noteq> kNotStarted \<or> \<not> m > 0 then None
      else Some (s\<lparr>sv_registry := (sv_registry s)\<lparr>rg_maxActiveRequestsPerConnection := Some m\<rparr>\<rparr>))"

definition server_setMaxMessageSize ::
  "nat \<Rightarrow> nat \<Rightarrow> ('c, 'h, 'w) server \<Rightarrow> ('c, 'h, 'w) server option" where
  "server_setMaxMessageSize kMax m s =
     (if sv_status s \<noteq> kNotStarted \<or> \<not> m > 0 \<or> \<not> m \<le> kMax then None
      else Some (s\<lparr>sv_maxMessageSize := Some m\<rparr>))"

definition setWorkerThreadNum :: "u8 \<Rightarrow> ('c, 'h, 'w) server \<Rightarrow> ('c, 'h, 'w) server option" where
  "setWorkerThreadNum n s =
     (if sv_status s \<noteq> kNotStarted \<or> \<not> n > 0 \<or> sv_taskPool s \<noteq> None then None
      else map_option (\<lambda>p. s\<lparr>sv_taskPool :=
             Some (pool.extend p \<lparr>pl_accepted = [], pl_begun = [], pl_finished = []\<rparr>)\<rparr>)
           (TaskThreadPool_new n))"

definition setMaxWorkerQueue :: "nat \<Rightarrow> ('c, 'h, 'w) server \<Rightarrow> ('c, 'h, 'w) server option" where
  "setMaxWorkerQueue m s =
     (if sv_status s \<noteq> kNotStarted \<or> \<not> m > 0 then None
      else case sv_taskPool s of
        None \<Rightarrow> None
      | Some p \<Rightarrow> map_option (\<lambda>p'. s\<lparr>sv_taskPool := Some p'\<rparr>) (setMaxQueueTasks m p))"

definition server_setStopCompleteCallback :: "bool \<Rightarrow> ('c, 'h, 'w) server \<Rightarrow> ('c, 'h, 'w) server option" where
  "server_setStopCompleteCallback cb s =
     (if sv_status s \<noteq> kNotStarted then None else Some (s\<lparr>sv_stopCallback := cb\<rparr>))"

subsection \<open>Requests\<close>

text \<open>The check both kinds of handlers apply to a result.\<close>

definition invalidRpcResult :: "RpcResult \<Rightarrow> bool" where
  "invalidRpcResult r \<longleftrightarrow>
     rr_result r = kUnsuccess \<and> rr_payload r \<noteq> [] \<or>
     rr_result r = kSuccess \<and> rr_errorMessage r \<noteq> [] \<or>
     rr_result r \<noteq> kSuccess \<and> rr_result r \<noteq> kUnsuccess \<or>
     rr_errorCode r \<ge> ERROR_CODE_CNT \<or>
     rr_result r = kSuccess \<and> rr_errorCode r \<noteq> NO_ERROR \<or>
     rr_result r = kUnsuccess \<and> rr_errorCode r = NO_ERROR"

definition invokeSyncHandler ::
  "bool \<Rightarrow> nat \<Rightarrow> ('c \<Rightarrow> bool) \<Rightarrow> 'c \<Rightarrow> RpcRequest \<Rightarrow> ('c, 'h, 'w) server \<Rightarrow>
     'c action list \<times> ('c, 'h, 'w) server" where
  "invokeSyncHandler le kMax up conn request s =
     (case Option.bind (m_find (sv_syncHandlers s) (rq_service request)) (\<lambda>ms. m_find ms (rq_method request)) of
        None \<Rightarrow> ([Undefined], s)
      | Some handler \<Rightarrow>
          (case handler (rq_payload request) (sv_world s) of
             (None, w) \<Rightarrow>
               (sendResponse le kMax up conn (rq_requestId request) kUnsuccess INTERNAL_ERROR []
                  ''handler exception'' s, s\<lparr>sv_world := w\<rparr>)
           | (Some rpcResult, w) \<Rightarrow>
               if invalidRpcResult rpcResult
               then (sendResponse le kMax up conn (rq_requestId request) kUnsuccess INTERNAL_ERROR []
                       ''invalid handler result'' s, s\<lparr>sv_world := w\<rparr>)
               else (sendResponse le kMax up conn (rq_requestId request) (rr_result rpcResult)
                       (rr_errorCode rpcResult) (rr_payload rpcResult) (rr_errorMessage rpcResult) s,
                     s\<lparr>sv_world := w\<rparr>)))"

text \<open>The reply function of an invocation: the first call wins; \<open>alive\<close> is the outcome of locking
  the weak pointer to the connection. The result, checked, is handed to the loop of the
  connection.\<close>

definition async_reply :: "nat \<Rightarrow> bool \<Rightarrow> RpcResult \<Rightarrow> ('c, 'h, 'w) server \<Rightarrow> ('c, 'h, 'w) server" where
  "async_reply i alive rpcResult s =
     (let call = sv_calls s ! i in
      if ac_replied call then s
      else
        let s = s\<lparr>sv_calls := (sv_calls s)[i := call\<lparr>ac_replied := True\<rparr>]\<rparr> in
        if \<not> alive then s
        else
          let rpcResult = (if invalidRpcResult rpcResult
                           then RpcResult_make kUnsuccess INTERNAL_ERROR [] ''invalid handler result''
                           else rpcResult)
          in s\<lparr>sv_queue := sv_queue s @ [\<lparr>qr_conn = ac_conn call, qr_requestId = ac_requestId call,
                qr_result = rpcResult, qr_call = i\<rparr>]\<rparr>)"

text \<open>The \<open>catch\<close> branch of the functor that runs the handler.\<close>

definition async_throw :: "nat \<Rightarrow> bool \<Rightarrow> ('c, 'h, 'w) server \<Rightarrow> ('c, 'h, 'w) server" where
  "async_throw i alive s =
     async_reply i alive (RpcResult_make kUnsuccess INTERNAL_ERROR [] ''handler exception'') s"

text \<open>The functor queued by a reply, run in the loop of the connection; \<open>alive\<close> is the outcome of
  locking the weak pointers to the registry and the size limit, which live as long as the server.\<close>

definition run_queued_reply ::
  "bool \<Rightarrow> nat \<Rightarrow> ('c \<Rightarrow> bool) \<Rightarrow> bool \<Rightarrow> 'c queued_reply \<Rightarrow> ('c, 'h, 'w) server \<Rightarrow>
     'c action list \<times> ('c, 'h, 'w) server" where
  "run_queued_reply le kMax up alive q s =
     (if \<not> alive then ([], s)
      else
        let (token, r) = registry_take (qr_conn q) (qr_requestId q) (sv_registry s);
            s = s\<lparr>sv_registry := r\<rparr>
        in case token of
             None \<Rightarrow> ([], s)
           | Some tok \<Rightarrow>
               if isCanceled r tok then ([], s)
               else (sendFramedData le up (qr_conn q) (qr_requestId q) (rr_result (qr_result q))
                       (rr_errorCode (qr_result q)) (rr_payload (qr_result q))
                       (rr_errorMessage (qr_result q)) (effectiveMaxMessageSize kMax s), s))"

text \<open>A task handed to the pool, with the history of the pool kept up.\<close>

definition pool_submit :: "nat \<Rightarrow> nat traced_pool \<Rightarrow> TaskSubmitResult \<times> nat traced_pool" where
  "pool_submit i p =
     (case addTask (Some i) p of (res, p') \<Rightarrow>
        (res, if res = kAccepted then p'\<lparr>pl_accepted := pl_accepted p @ [i]\<rparr> else p'))"

text \<open>The end of \<open>invokeAsyncHandler\<close>: the functor of invocation \<open>i\<close> goes to the pool, whose
  refusal is answered through the reply function, or runs at once in the loop of the connection.\<close>

definition submit_call :: "nat \<Rightarrow> ('c, 'h, 'w) server \<Rightarrow> ('c, 'h, 'w) server" where
  "submit_call i s =
     (case sv_taskPool s of
        None \<Rightarrow> s
      | Some p \<Rightarrow>
          (case pool_submit i p of (res, p') \<Rightarrow>
             let s = s\<lparr>sv_taskPool := Some p'\<rparr> in
             (case res of
                kAccepted \<Rightarrow> s
              | kNotRunning \<Rightarrow> async_reply i True
                  (RpcResult_make kUnsuccess INTERNAL_ERROR [] ''task pool not running'') s
              | kQueueFull \<Rightarrow> async_reply i True
                  (RpcResult_make kUnsuccess RESOURCE_EXHAUSTED [] ''task queue full'') s
              | kEmptyTask \<Rightarrow> async_reply i True
                  (RpcResult_make kUnsuccess INTERNAL_ERROR [] ''empty task'') s)))"

definition invokeAsyncHandler ::
  "bool \<Rightarrow> nat \<Rightarrow> ('c \<Rightarrow> bool) \<Rightarrow> 'c \<Rightarrow> RpcRequest \<Rightarrow> ('c, 'h, 'w) server \<Rightarrow>
     'c action list \<times> ('c, 'h, 'w) server" where
  "invokeAsyncHandler le kMax up conn request s =
     (case Option.bind (m_find (sv_asyncHandlers s) (rq_service request)) (\<lambda>ms. m_find ms (rq_method request)) of
        None \<Rightarrow> ([Undefined], s)
      | Some handler \<Rightarrow>
          let requestId = rq_requestId request;
              token = length (sv_calls s);
              r = (sv_registry s)\<lparr>rg_canceled := (rg_canceled (sv_registry s))(token := False)\<rparr>;
              (res, r) = registerToken conn requestId token r;
              s = s\<lparr>sv_registry := r\<rparr>
          in
          if res \<noteq> kRegistered then
            if res = kDuplicateRequestId then ([ForceClose conn], s)
            else if res = kConnectionLimitReached \<or> res = kGlobalLimitReached
            then (sendResponse le kMax up conn requestId kUnsuccess RESOURCE_EXHAUSTED []
                    ''server request limit reached'' s, s)
            else ([], s)
          else
            let s = s\<lparr>sv_calls := sv_calls s @ [\<lparr>ac_conn = conn, ac_requestId = requestId,
                       ac_payload = rq_payload request, ac_handler = handler, ac_replied = False\<rparr>]\<rparr>
            in ([], submit_call token s))"

definition cancelAsync :: "'c \<Rightarrow> u64 \<Rightarrow> ('c, 'h, 'w) server \<Rightarrow> ('c, 'h, 'w) server" where
  "cancelAsync conn requestId s = s\<lparr>sv_registry := registry_cancel conn requestId (sv_registry s)\<rparr>"

definition server_onRpcMessage ::
  "bool \<Rightarrow> nat \<Rightarrow> ('c \<Rightarrow> bool) \<Rightarrow> 'c \<Rightarrow> string \<Rightarrow> ('c, 'h, 'w) server \<Rightarrow>
     'c action list \<times> ('c, 'h, 'w) server" where
  "server_onRpcMessage le kMax up conn msg s =
     (if msg = [] then ([ForceClose conn], s)
      else if length msg > effectiveMaxMessageSize kMax s then ([ForceClose conn], s)
      else case decodeHead le msg kRequest of
        None \<Rightarrow> ([Undefined], s)
      | Some (decodeRes, messageType) \<Rightarrow>
          if \<not> decodeRes then ([ForceClose conn], s)
          else if messageType = kCancel then
            (case RpcCancel_decode le RpcCancel_default msg [] of
               None \<Rightarrow> ([Undefined], s)
             | Some (res, cancel, errorMessage) \<Rightarrow>
                 if \<not> res \<or> errorMessage \<noteq> [] then ([ForceClose conn], s)
                 else ([], cancelAsync conn (cn_requestId cancel) s))
          else if messageType \<noteq> kRequest then ([ForceClose conn], s)
          else
            (case RpcRequest_decode le RpcRequest_default msg [] of
               None \<Rightarrow> ([Undefined], s)
             | Some (res, request, errorMessage) \<Rightarrow>
                 if \<not> res \<or> errorMessage \<noteq> [] then ([ForceClose conn], s)
                 else if isRegisteredInSync (rq_service request) (rq_method request) s
                 then invokeSyncHandler le kMax up conn request s
                 else if isRegisteredInAsync (rq_service request) (rq_method request) s
                 then invokeAsyncHandler le kMax up conn request s
                 else (sendResponse le kMax up conn (rq_requestId request) kUnsuccess METHOD_NOT_FOUND []
                         ''service or method not exist'' s, s)))"

text \<open>The connection callback the constructor installs.\<close>

definition server_onConnection :: "('c \<Rightarrow> bool) \<Rightarrow> 'c \<Rightarrow> ('c, 'h, 'w) server \<Rightarrow> ('c, 'h, 'w) server" where
  "server_onConnection up conn s =
     (if \<not> up conn
      then s\<lparr>sv_registry := clearConnectionCancellations conn (sv_registry s)\<rparr> else s)"

subsection \<open>Start and stop\<close>

text \<open>When the pool cannot create its threads, \<open>taskPool_->start()\<close> throws out of \<open>start\<close>.\<close>

definition RpcServer_start :: "nat \<Rightarrow> ('c, 'h, 'w) server \<Rightarrow> ('c, 'h, 'w) server" where
  "RpcServer_start created s =
     (if sv_status s \<noteq> kNotStarted then s
      else case sv_taskPool s of
        None \<Rightarrow> s\<lparr>sv_status := kRunning\<rparr>
      | Some p \<Rightarrow>
          let p' = TaskThreadPool_start created p; s = s\<lparr>sv_taskPool := Some p'\<rparr> in
          if pl_status p = NOT_START \<and> pl_status p' \<noteq> RUNNING then s
          else s\<lparr>sv_status := kRunning\<rparr>)"

definition tryCompleteStop :: "('c, 'h, 'w) server \<Rightarrow> 'c action list \<times> ('c, 'h, 'w) server" where
  "tryCompleteStop s =
     (if sv_status s \<noteq> kStopping then ([], s)
      else if sv_tcpServerStopped s \<and> sv_taskPoolStopped s then
        let s = (if sv_stopThread s \<notin> {T_none, T_joined} then s\<lparr>sv_stopThread := T_joined\<rparr> else s);
            s = s\<lparr>sv_status := kStopped\<rparr>
        in (if sv_stopCallback s then [StopComplete] else [], s)
      else ([], s))"

definition onTcpServerStopped :: "('c, 'h, 'w) server \<Rightarrow> 'c action list \<times> ('c, 'h, 'w) server" where
  "onTcpServerStopped s = tryCompleteStop (s\<lparr>sv_tcpServerStopped := True\<rparr>)"

definition onTaskPoolStopped :: "('c, 'h, 'w) server \<Rightarrow> 'c action list \<times> ('c, 'h, 'w) server" where
  "onTaskPoolStopped s = tryCompleteStop (s\<lparr>sv_taskPoolStopped := True\<rparr>)"

definition RpcServer_stop :: "('c, 'h, 'w) server \<Rightarrow> 'c action list \<times> ('c, 'h, 'w) server" where
  "RpcServer_stop s =
     (if sv_status s \<noteq> kRunning then ([], s)
      else
        let s = s\<lparr>sv_status := kStopping\<rparr> in
        case sv_taskPool s of
          Some _ \<Rightarrow> ([], s\<lparr>sv_stopThread := T_calling\<rparr>)
        | None \<Rightarrow> onTaskPoolStopped s)"

text \<open>The body of the stop thread: \<open>taskPool_->stop()\<close> is entered, returns, and the functor is
  queued; the loop then runs it.\<close>

definition stop_thread_enter :: "('c, 'h, 'w) server \<Rightarrow> ('c, 'h, 'w) server" where
  "stop_thread_enter s =
     (case sv_taskPool s of
        None \<Rightarrow> s
      | Some p \<Rightarrow> s\<lparr>sv_taskPool := Some (stop_begin p),
                    sv_stopThread := if pl_status p \<noteq> RUNNING then T_queued else T_waiting\<rparr>)"

definition stop_thread_return :: "('c, 'h, 'w) server \<Rightarrow> ('c, 'h, 'w) server" where
  "stop_thread_return s = s\<lparr>sv_stopThread := T_queued\<rparr>"

definition run_pool_stopped :: "('c, 'h, 'w) server \<Rightarrow> 'c action list \<times> ('c, 'h, 'w) server" where
  "run_pool_stopped s = onTaskPoolStopped (s\<lparr>sv_stopThread := T_done\<rparr>)"

subsection \<open>What a response looks like on the wire\<close>

text \<open>The response that is sent for an outcome: the outcome itself when it fits, a short notice
  when only that fits.\<close>

definition fitted_response ::
  "nat \<Rightarrow> u64 \<Rightarrow> ResponseResult \<Rightarrow> RpcErrorCode \<Rightarrow> string \<Rightarrow> string \<Rightarrow> RpcResponse option" where
  "fitted_response mx rid res ec payload err =
     (let r = RpcResponse_make rid res ec payload err;
          notice = RpcResponse_make rid kUnsuccess MESSAGE_TOO_LARGE [] too_large_text in
      if RpcResponse_OutputMessageLen (length payload) (length err) \<le> mx
      then if response_valid r then Some r else None
      else if length (response_wire notice) \<le> mx then Some notice else None)"

lemma response_valid_make:
  "response_valid (RpcResponse_make rid res ec payload err) \<longleftrightarrow>
     length payload \<le> UINT32_MAX \<and> length err \<le> UINT32_MAX \<and> outcome_valid res ec payload err"
  by (simp add: response_valid_def RpcResponse_make_def)

lemma notice_valid: "response_valid (RpcResponse_make rid kUnsuccess MESSAGE_TOO_LARGE [] too_large_text)"
  by (simp add: response_valid_make outcome_valid_def too_large_text_def word_less_nat_alt)

lemma length_notice:
  "length (response_wire (RpcResponse_make rid kUnsuccess MESSAGE_TOO_LARGE [] too_large_text)) =
     RpcResponse_OutputMessageLen 0 (length too_large_text)"
  by (simp add: length_response_wire[OF notice_valid]) (simp add: RpcResponse_make_def)

lemma send_encoded_eq:
  "send_encoded le up conn r =
     (if response_valid r then if up conn then [SendFrame conn (response_wire r)] else []
      else [ForceClose conn])"
proof (cases "response_valid r")
  case False
  from RpcResponse_encode_invalid[OF False, of le "[]" "[]"] False show ?thesis
    by (auto simp: send_encoded_def)
qed (simp add: send_encoded_def RpcResponse_encode_valid)

definition frames_for :: "('c \<Rightarrow> bool) \<Rightarrow> 'c \<Rightarrow> RpcResponse option \<Rightarrow> 'c action list" where
  "frames_for up conn r =
     (case r of None \<Rightarrow> [ForceClose conn]
      | Some r \<Rightarrow> if up conn then [SendFrame conn (response_wire r)] else [])"

lemma sendFramedData_eq:
  "sendFramedData le up conn rid res ec payload err mx =
     frames_for up conn (fitted_response mx rid res ec payload err)"
  by (simp add: sendFramedData_def send_encoded_eq fitted_response_def frames_for_def notice_valid
      length_notice Let_def not_less)

lemma sendResponse_eq:
  "sendResponse le kMax up conn rid res ec payload err s =
     frames_for up conn (fitted_response (effectiveMaxMessageSize kMax s) rid res ec payload err)"
  by (simp add: sendResponse_def sendFramedData_eq)

lemma fitted_response_ok:
  assumes "fitted_response mx rid res ec payload err = Some r"
  shows "response_valid r" and "length (response_wire r) \<le> mx" and "rs_requestId r = rid"
proof -
  have eq: "rs_requestId (RpcResponse_make rid a b c d) = rid" "rs_payload (RpcResponse_make rid a b c d) = c"
    "rs_errorMessage (RpcResponse_make rid a b c d) = d" for a b c d
    by (simp_all add: RpcResponse_make_def)
  show "response_valid r" and "length (response_wire r) \<le> mx" and "rs_requestId r = rid"
    using assms
    by (auto simp: fitted_response_def Let_def notice_valid length_response_wire eq split: if_splits)
qed

text \<open>An outcome that fits, within the field widths, is sent as it is.\<close>

lemma fitted_response_fits:
  assumes "outcome_valid res ec payload err" and "22 + length payload + length err \<le> mx"
    and "mx \<le> UINT32_MAX"
  shows "fitted_response mx rid res ec payload err = Some (RpcResponse_make rid res ec payload err)"
  using assms
  by (simp add: fitted_response_def response_valid_make RpcResponse_OutputMessageLen_def field_lens)

lemma fitted_response_large:
  assumes "mx < 22 + length payload + length err" and "43 \<le> mx" and "22 + length payload + length err < size_max"
  shows "fitted_response mx rid res ec payload err =
    Some (RpcResponse_make rid kUnsuccess MESSAGE_TOO_LARGE [] ''rpc message too large'')"
  using assms length_notice[of rid]
  by (simp add: fitted_response_def RpcResponse_OutputMessageLen_def field_lens Let_def too_large_text_def)

subsection \<open>Dispatch of messages\<close>

lemma onRpcMessage_cancel:
  assumes "11 \<le> effectiveMaxMessageSize kMax s"
  shows "server_onRpcMessage le kMax up conn (cancel_wire c) s = ([], cancelAsync conn (cn_requestId c) s)"
proof -
  have "cancel_wire c \<noteq> []" using length_cancel_wire[of c] by (metis list.size(3) zero_neq_numeral)
  moreover have "decodeHead le (cancel_wire c) kRequest = Some (True, kCancel)"
    using decodeHead_wire[of le kCancel "cn_requestId c" "[]"] by (simp add: cancel_wire_def)
  ultimately show ?thesis
    using assms by (simp add: server_onRpcMessage_def RpcCancel_decode_wire)
qed

definition server_dispatch ::
  "bool \<Rightarrow> nat \<Rightarrow> ('c \<Rightarrow> bool) \<Rightarrow> 'c \<Rightarrow> RpcRequest \<Rightarrow> ('c, 'h, 'w) server \<Rightarrow>
     'c action list \<times> ('c, 'h, 'w) server" where
  "server_dispatch le kMax up conn r s =
     (if isRegisteredInSync (rq_service r) (rq_method r) s then invokeSyncHandler le kMax up conn r s
      else if isRegisteredInAsync (rq_service r) (rq_method r) s
      then invokeAsyncHandler le kMax up conn r s
      else (sendResponse le kMax up conn (rq_requestId r) kUnsuccess METHOD_NOT_FOUND []
              ''service or method not exist'' s, s))"

lemma request_wire_not_Nil: "request_wire r \<noteq> []"
proof -
  have "length (request_wire r) \<ge> 11" by (simp add: request_wire_def)
  then show ?thesis by auto
qed

lemma onRpcMessage_request:
  assumes "request_valid r" and "length (request_wire r) \<le> effectiveMaxMessageSize kMax s"
  shows "server_onRpcMessage le kMax up conn (request_wire r) s = server_dispatch le kMax up conn r s"
proof -
  have "decodeHead le (request_wire r) kRequest = Some (True, kRequest)"
    by (simp add: request_wire_def decodeHead_wire)
  then show ?thesis
    using assms
    by (simp add: server_onRpcMessage_def server_dispatch_def request_wire_not_Nil RpcRequest_decode_wire)
qed

lemma onRpcMessage_rejected:
  assumes "effectiveMaxMessageSize kMax s < length msg \<or>
    msg \<notin> request_wire ` Collect request_valid \<and> msg \<notin> range cancel_wire"
  shows "server_onRpcMessage le kMax up conn msg s = ([ForceClose conn], s)"
proof -
  obtain ok t where head: "decodeHead le msg kRequest = Some (ok, t)"
    using decodeHead_total by blast
  consider "effectiveMaxMessageSize kMax s < length msg"
    | "msg \<notin> request_wire ` Collect request_valid" "msg \<notin> range cancel_wire"
    using assms by blast
  then show ?thesis
  proof cases
    case 2
    have cancel: "\<exists>m. m \<noteq> [] \<and> RpcCancel_decode le RpcCancel_default msg [] = Some (False, RpcCancel_default, m)"
      by (cases rule: RpcCancel_decode_cases[of le RpcCancel_default msg "[]"]) (use 2 in auto)
    have request: "\<exists>m. m \<noteq> [] \<and> RpcRequest_decode le RpcRequest_default msg [] = Some (False, RpcRequest_default, m)"
      by (cases rule: RpcRequest_decode_cases[of le RpcRequest_default msg "[]"]) (use 2 in auto)
    from cancel request head show ?thesis
      by (auto simp: server_onRpcMessage_def)
  qed (simp add: server_onRpcMessage_def)
qed

text \<open>Every message is one of the three.\<close>

lemma onRpcMessage_cases:
  obtains (rejected) "server_onRpcMessage le kMax up conn msg s = ([ForceClose conn], s)"
  | (cancel) c where "msg = cancel_wire c"
      "server_onRpcMessage le kMax up conn msg s = ([], cancelAsync conn (cn_requestId c) s)"
  | (request) r where "msg = request_wire r" "request_valid r"
      "length (request_wire r) \<le> effectiveMaxMessageSize kMax s"
      "server_onRpcMessage le kMax up conn msg s = server_dispatch le kMax up conn r s"
proof (cases "effectiveMaxMessageSize kMax s < length msg \<or>
    msg \<notin> request_wire ` Collect request_valid \<and> msg \<notin> range cancel_wire")
  case True
  then show thesis by (rule rejected[OF onRpcMessage_rejected])
next
  case False
  then consider r where "request_valid r" "msg = request_wire r" | c where "msg = cancel_wire c"
    by auto
  then show thesis
  proof cases
    case 1
    with False show thesis by (intro request[of r]) (simp_all add: onRpcMessage_request)
  next
    case 2
    with False show thesis by (intro cancel[of c]) (simp_all add: onRpcMessage_cancel)
  qed
qed

subsection \<open>The outcome of a request\<close>

text \<open>The result a handler's outcome amounts to.\<close>

definition checked_result :: "RpcResult option \<Rightarrow> RpcResult" where
  "checked_result out =
     (case out of
        None \<Rightarrow> RpcResult_make kUnsuccess INTERNAL_ERROR [] ''handler exception''
      | Some r \<Rightarrow> if invalidRpcResult r
                  then RpcResult_make kUnsuccess INTERNAL_ERROR [] ''invalid handler result'' else r)"

definition fitted_result :: "nat \<Rightarrow> u64 \<Rightarrow> RpcResult \<Rightarrow> RpcResponse option" where
  "fitted_result mx rid r =
     fitted_response mx rid (rr_result r) (rr_errorCode r) (rr_payload r) (rr_errorMessage r)"

lemma invalidRpcResult_iff:
  "invalidRpcResult r \<longleftrightarrow>
     \<not> outcome_valid (rr_result r) (rr_errorCode r) (rr_payload r) (rr_errorMessage r)"
  by (auto simp: invalidRpcResult_def outcome_valid_def not_less)

lemma checked_result_valid:
  "outcome_valid (rr_result (checked_result out)) (rr_errorCode (checked_result out))
     (rr_payload (checked_result out)) (rr_errorMessage (checked_result out))"
  by (auto simp: checked_result_def invalidRpcResult_iff RpcResult_make_def split: option.split)
    (simp_all add: outcome_valid_def word_less_nat_alt)

definition table_find :: "string \<Rightarrow> string \<Rightarrow> 'h method_table \<Rightarrow> 'h option" where
  "table_find service meth t = Option.bind (m_find t service) (\<lambda>ms. m_find ms meth)"

lemma table_has_iff: "table_has service meth t \<longleftrightarrow> table_find service meth t \<noteq> None"
  by (simp add: table_has_def table_find_def split: option.split)

lemma invokeSyncHandler_eq:
  assumes "table_find (rq_service r) (rq_method r) (sv_syncHandlers s) = Some h"
    and "h (rq_payload r) (sv_world s) = (out, w)"
  shows "invokeSyncHandler le kMax up conn r s =
    (frames_for up conn (fitted_result (effectiveMaxMessageSize kMax s) (rq_requestId r) (checked_result out)),
     s\<lparr>sv_world := w\<rparr>)"
  using assms
  by (auto simp: invokeSyncHandler_def table_find_def sendResponse_eq fitted_result_def checked_result_def
      RpcResult_make_def split: option.split)

text \<open>The registration of a new asynchronous request, with its fresh token.\<close>

definition register_call :: "'c \<Rightarrow> u64 \<Rightarrow> ('c, 'h, 'w) server \<Rightarrow> RegisterTokenStatus \<times> 'c registry" where
  "register_call conn rid s =
     registerToken conn rid (length (sv_calls s))
       ((sv_registry s)\<lparr>rg_canceled := (rg_canceled (sv_registry s))(length (sv_calls s) := False)\<rparr>)"

definition new_call :: "'c \<Rightarrow> RpcRequest \<Rightarrow> 'h \<Rightarrow> ('c, 'h) async_call" where
  "new_call conn r h = \<lparr>ac_conn = conn, ac_requestId = rq_requestId r, ac_payload = rq_payload r,
     ac_handler = h, ac_replied = False\<rparr>"

lemma invokeAsyncHandler_eq:
  assumes "table_find (rq_service r) (rq_method r) (sv_asyncHandlers s) = Some h"
    and "register_call conn (rq_requestId r) s = (st, g)"
  shows "invokeAsyncHandler le kMax up conn r s =
    (let s1 = s\<lparr>sv_registry := g\<rparr> in
     case st of
       kRegistered \<Rightarrow> ([], submit_call (length (sv_calls s)) (s1\<lparr>sv_calls := sv_calls s @ [new_call conn r h]\<rparr>))
     | kDuplicateRequestId \<Rightarrow> ([ForceClose conn], s1)
     | _ \<Rightarrow> (frames_for up conn (fitted_response (effectiveMaxMessageSize kMax s) (rq_requestId r)
              kUnsuccess RESOURCE_EXHAUSTED [] ''server request limit reached''), s1))"
  using assms
  by (cases st)
    (simp_all add: invokeAsyncHandler_def table_find_def register_call_def new_call_def Let_def
      sendResponse_eq effectiveMaxMessageSize_def)

text \<open>What the transport may see of an operation on behalf of \<open>conn\<close>.\<close>

definition proper_actions :: "('c \<Rightarrow> bool) \<Rightarrow> 'c \<Rightarrow> nat \<Rightarrow> u64 \<Rightarrow> 'c action list \<Rightarrow> bool" where
  "proper_actions up conn mx rid acts \<longleftrightarrow>
     acts = [] \<or> acts = [ForceClose conn] \<or>
     (\<exists>r. acts = [SendFrame conn (response_wire r)] \<and> up conn \<and> response_valid r \<and>
        length (response_wire r) \<le> mx \<and> rs_requestId r = rid)"

lemma proper_frames: "proper_actions up conn mx rid (frames_for up conn (fitted_response mx rid a b c d))"
  by (cases "fitted_response mx rid a b c d")
    (auto simp: proper_actions_def frames_for_def dest: fitted_response_ok)

lemma proper_dispatch:
  "proper_actions up conn (effectiveMaxMessageSize kMax s) (rq_requestId r)
     (fst (server_dispatch le kMax up conn r s))"
proof -
  let ?sync = "table_find (rq_service r) (rq_method r) (sv_syncHandlers s)"
  let ?async = "table_find (rq_service r) (rq_method r) (sv_asyncHandlers s)"
  consider h where "?sync = Some h" | h where "?sync = None" "?async = Some h" | "?sync = None" "?async = None"
    by (cases ?sync; cases ?async) auto
  then show ?thesis
  proof cases
    case (1 h)
    obtain out w where "h (rq_payload r) (sv_world s) = (out, w)" by fastforce
    with 1 show ?thesis
      by (simp add: server_dispatch_def isRegisteredInSync_def table_has_iff invokeSyncHandler_eq
          proper_frames fitted_result_def)
  next
    case (2 h)
    obtain st g where reg: "register_call conn (rq_requestId r) s = (st, g)" by fastforce
    show ?thesis
      using 2 invokeAsyncHandler_eq[OF 2(2) reg, of le kMax up]
      by (cases st) (simp_all add: server_dispatch_def isRegisteredInSync_def isRegisteredInAsync_def
          table_has_iff Let_def proper_frames, simp_all add: proper_actions_def)
  next
    case 3
    then show ?thesis
      by (simp add: server_dispatch_def isRegisteredInSync_def isRegisteredInAsync_def table_has_iff
          sendResponse_eq proper_frames)
  qed
qed

subsection \<open>The method tables refine one map of methods\<close>

lemma table_find_insert:
  assumes "table_find service meth t = None"
  shows "fst (table_insert service meth h t)"
    and "table_find sv m (snd (table_insert service meth h t)) =
      (if sv = service \<and> m = meth then Some h else table_find sv m t)"
  using assms
  by (auto simp: table_insert_def table_find_def umap_simps bind_eq_None_conv split: option.splits)

lemma table_find_remove:
  assumes "table_find service meth t \<noteq> None"
  shows "fst (table_remove service meth t)"
    and "table_find sv m (snd (table_remove service meth t)) =
      (if sv = service \<and> m = meth then None else table_find sv m t)"
proof -
  obtain ms h where ms: "m_find t service = Some ms" "m_find ms meth = Some h"
    using assms by (auto simp: table_find_def split: bind_splits)
  then show "fst (table_remove service meth t)"
    by (simp add: table_remove_def Let_def)
  have "m_find ms m = None" if "m_erase meth ms = []" "m \<noteq> meth"
    using that by (metis m_find_erase map_of.simps(1))
  with ms show "table_find sv m (snd (table_remove service meth t)) =
      (if sv = service \<and> m = meth then None else table_find sv m t)"
    by (auto simp: table_remove_def table_find_def Let_def umap_simps split: if_splits)
qed

text \<open>The specification: one partial map from service and method to a handler of either kind.\<close>

datatype ('h, 'w) method_op =
    RegSync string string "'w RpcHandler option" | RegAsync string string "'h option" | Unreg string string

fun method_exec :: "('h, 'w) method_op \<Rightarrow> ('c, 'h, 'w) server \<Rightarrow> bool option \<times> ('c, 'h, 'w) server" where
  "method_exec (RegSync sv m h) s = (case registerMethod sv m h s of None \<Rightarrow> (None, s) | Some (b, s') \<Rightarrow> (Some b, s'))"
| "method_exec (RegAsync sv m h) s = (case registerAsyncMethod sv m h s of None \<Rightarrow> (None, s) | Some (b, s') \<Rightarrow> (Some b, s'))"
| "method_exec (Unreg sv m) s = (case unregisterMethod sv m s of None \<Rightarrow> (None, s) | Some (b, s') \<Rightarrow> (Some b, s'))"

type_synonym ('h, 'w) method_map = "string \<times> string \<Rightarrow> ('w RpcHandler + 'h) option"

definition method_add :: "string \<Rightarrow> string \<Rightarrow> ('w RpcHandler + 'h) option \<Rightarrow> ('h, 'w) method_map \<Rightarrow>
    bool option \<times> ('h, 'w) method_map" where
  "method_add sv m h f =
     (if sv \<noteq> [] \<and> m \<noteq> [] \<and> h \<noteq> None \<and> f (sv, m) = None then (Some True, f((sv, m) := h)) else (Some False, f))"

fun method_spec :: "('h, 'w) method_op \<Rightarrow> ('h, 'w) method_map \<Rightarrow> bool option \<times> ('h, 'w) method_map" where
  "method_spec (RegSync sv m h) f = method_add sv m (map_option Inl h) f"
| "method_spec (RegAsync sv m h) f = method_add sv m (map_option Inr h) f"
| "method_spec (Unreg sv m) f =
     (if f (sv, m) \<noteq> None then (Some True, f((sv, m) := None)) else (Some False, f))"

definition method_abs :: "('c, 'h, 'w) server \<Rightarrow> ('h, 'w) method_map" where
  "method_abs s = (\<lambda>(sv, m). case table_find sv m (sv_syncHandlers s) of
     Some h \<Rightarrow> Some (Inl h) | None \<Rightarrow> map_option Inr (table_find sv m (sv_asyncHandlers s)))"

definition tables_ok :: "('c, 'h, 'w) server \<Rightarrow> bool" where
  "tables_ok s \<longleftrightarrow> (\<forall>sv m. \<not> (table_find sv m (sv_syncHandlers s) \<noteq> None \<and> table_find sv m (sv_asyncHandlers s) \<noteq> None) \<and>
     (table_find sv m (sv_syncHandlers s) \<noteq> None \<or> table_find sv m (sv_asyncHandlers s) \<noteq> None \<longrightarrow> sv \<noteq> [] \<and> m \<noteq> []))"

lemmas registered_simps = isRegistered_def isRegisteredInSync_def isRegisteredInAsync_def table_has_iff

definition method_refines :: "('h, 'w) method_op \<Rightarrow> ('c, 'h, 'w) server \<Rightarrow> bool" where
  "method_refines op s \<longleftrightarrow> (case method_exec op s of (b, s') \<Rightarrow>
     method_spec op (method_abs s) = (b, method_abs s') \<and> tables_ok s' \<and> sv_status s' = kNotStarted)"

lemmas method_defs = method_refines_def method_add_def method_abs_def tables_ok_def registered_simps

lemma registerMethod_refines:
  assumes ok: "tables_ok s" and st: "sv_status s = kNotStarted"
  shows "method_refines (RegSync sv m h) s"
proof (cases "h \<noteq> None \<and> sv \<noteq> [] \<and> m \<noteq> [] \<and> \<not> isRegistered sv m s")
  case True
  then obtain h' where h: "h = Some h'" by auto
  note ins = table_find_insert[of sv m "sv_syncHandlers s", where h = h']
  have "registerMethod sv m h s =
      Some (True, s\<lparr>sv_syncHandlers := snd (table_insert sv m h' (sv_syncHandlers s))\<rparr>)"
    using st True h ins(1) by (auto simp: registerMethod_def registered_simps case_prod_unfold)
  then show ?thesis
    using True h ok st ins(2) by (auto simp: method_defs fun_eq_iff cong: option.case_cong)
next
  case False
  then have "registerMethod sv m h s = Some (False, s)"
    using st by (auto simp: registerMethod_def split: option.splits)
  then show ?thesis
    using False ok st by (auto simp: method_refines_def method_add_def method_abs_def registered_simps split: option.splits)
qed

lemma registerAsyncMethod_refines:
  assumes ok: "tables_ok s" and st: "sv_status s = kNotStarted"
  shows "method_refines (RegAsync sv m h) s"
proof (cases "h \<noteq> None \<and> sv \<noteq> [] \<and> m \<noteq> [] \<and> \<not> isRegistered sv m s")
  case True
  then obtain h' where h: "h = Some h'" by auto
  note ins = table_find_insert[of sv m "sv_asyncHandlers s", where h = h']
  have "registerAsyncMethod sv m h s =
      Some (True, s\<lparr>sv_asyncHandlers := snd (table_insert sv m h' (sv_asyncHandlers s))\<rparr>)"
    using st True h ins(1) by (auto simp: registerAsyncMethod_def registered_simps case_prod_unfold)
  then show ?thesis
    using True h ok st ins(2) by (auto simp: method_defs fun_eq_iff split: option.splits cong: option.case_cong)
next
  case False
  then have "registerAsyncMethod sv m h s = Some (False, s)"
    using st by (auto simp: registerAsyncMethod_def split: option.splits)
  then show ?thesis
    using False ok st by (auto simp: method_refines_def method_add_def method_abs_def registered_simps split: option.splits)
qed

lemma unregisterMethod_refines:
  assumes ok: "tables_ok s" and st: "sv_status s = kNotStarted"
  shows "method_refines (Unreg sv m) s"
proof -
  consider (sync) "table_find sv m (sv_syncHandlers s) \<noteq> None"
    | (async) "table_find sv m (sv_syncHandlers s) = None" "table_find sv m (sv_asyncHandlers s) \<noteq> None"
    | (neither) "table_find sv m (sv_syncHandlers s) = None" "table_find sv m (sv_asyncHandlers s) = None"
    by blast
  then show ?thesis
  proof cases
    case sync
    note rem = table_find_remove[OF sync]
    have names: "sv \<noteq> []" "m \<noteq> []" and none: "table_find sv m (sv_asyncHandlers s) = None"
      using sync ok[unfolded tables_ok_def, rule_format, of sv m] by auto
    have "unregisterMethod sv m s =
        Some (True, s\<lparr>sv_syncHandlers := snd (table_remove sv m (sv_syncHandlers s))\<rparr>)"
      using st sync names rem(1) by (simp add: unregisterMethod_def registered_simps case_prod_unfold)
    then show ?thesis
      using sync none ok st rem(2) by (auto simp: method_defs fun_eq_iff cong: option.case_cong)
  next
    case async
    note rem = table_find_remove[OF async(2)]
    have names: "sv \<noteq> []" "m \<noteq> []" using async ok[unfolded tables_ok_def, rule_format, of sv m] by auto
    have "unregisterMethod sv m s =
        Some (True, s\<lparr>sv_asyncHandlers := snd (table_remove sv m (sv_asyncHandlers s))\<rparr>)"
      using st async names rem(1) by (simp add: unregisterMethod_def registered_simps case_prod_unfold)
    then show ?thesis
      using async ok st rem(2)
      by (auto simp: method_defs fun_eq_iff split: option.splits cong: option.case_cong)
  next
    case neither
    then have "unregisterMethod sv m s = Some (False, s)"
      using st by (simp add: unregisterMethod_def registered_simps)
    then show ?thesis
      using neither ok st by (simp add: method_refines_def method_abs_def)
  qed
qed

lemma method_exec_refines: "tables_ok s \<Longrightarrow> sv_status s = kNotStarted \<Longrightarrow> method_refines op s"
  by (cases op) (simp_all add: registerMethod_refines registerAsyncMethod_refines unregisterMethod_refines)

lemma method_run_refines:
  assumes "tables_ok s" and "sv_status s = kNotStarted"
  shows "run_ops method_spec ops (method_abs s) = apsnd method_abs (run_ops method_exec ops s) \<and>
    tables_ok (snd (run_ops method_exec ops s))"
  using assms
proof (induction ops arbitrary: s)
  case (Cons op ops)
  obtain b s' where ex: "method_exec op s = (b, s')" by fastforce
  have "method_spec op (method_abs s) = (b, method_abs s')" "tables_ok s'" "sv_status s' = kNotStarted"
    using method_exec_refines[OF Cons.prems, of op] ex by (simp_all add: method_refines_def)
  with Cons.IH[of s'] ex show ?case by (auto split: prod.splits)
qed simp

lemma method_init: "tables_ok (RpcServer_new w)" "sv_status (RpcServer_new w) = kNotStarted"
    "method_abs (RpcServer_new w) = Map.empty"
  by (simp_all add: tables_ok_def RpcServer_new_def table_find_def method_abs_def fun_eq_iff)

subsection \<open>Properties of message handling\<close>

text \<open>C19: whatever bytes a peer sends, and whatever the state of the server, handling one message has
  no undefined behaviour and asks the transport for at most one thing, on the connection the message
  came from: to close it, or to send one well-formed response that carries the request id of the
  message, keeps the rules of the protocol (result, error code, payload and error text fit together)
  and is not longer than the size limit of the server.\<close>

theorem server_message_actions:
  "proper_actions up conn (effectiveMaxMessageSize kMax s) (net_read msg 3)
     (fst (server_onRpcMessage le kMax up conn msg s))"
proof (cases rule: onRpcMessage_cases[of le kMax up conn msg s])
  case (request r)
  have "net_read msg 3 = rq_requestId r"
    by (simp add: request(1) request_wire_def)
  then show ?thesis
    using proper_dispatch[of up conn kMax s r le] by (simp add: request(4))
qed (simp_all add: proper_actions_def)

text \<open>A message that is too long, or that is neither the encoding of a valid request nor of a
  cancel message (a response, an unknown type or version, truncated or trailing bytes), closes the
  connection and changes nothing in the server.\<close>

theorem server_rejects_malformed:
  assumes "effectiveMaxMessageSize kMax s < length msg \<or>
    msg \<notin> request_wire ` Collect request_valid \<and> msg \<notin> range cancel_wire"
  shows "server_onRpcMessage le kMax up conn msg s = ([ForceClose conn], s)"
  using assms by (rule onRpcMessage_rejected)

text \<open>A response is no message for a server: its type code is not the one of a request or cancel.\<close>

lemma response_wire_not_request:
  "response_wire r \<notin> request_wire ` Collect request_valid \<and> response_wire r \<notin> range cancel_wire"
proof -
  have "head_ok kResponse (response_wire r)"
    unfolding response_wire_def by (rule head_ok_wire)
  moreover have "head_ok kRequest (request_wire q)" for q
    unfolding request_wire_def by (rule head_ok_wire)
  moreover have "head_ok kCancel (cancel_wire c)" for c
    unfolding cancel_wire_def using head_ok_wire[of kCancel _ "[]"] by simp
  ultimately show ?thesis
    using head_ok_type by (metis RpcMessageType.distinct(1,5) imageE)
qed

theorem server_rejects_malformed_witness:
  "server_onRpcMessage True 67108864 (\<lambda>_. True) (0::nat) (response_wire RpcResponse_default)
     (RpcServer_new () :: (nat, nat, unit) server) = ([ForceClose 0], RpcServer_new ())"
  using server_rejects_malformed[of 67108864 "RpcServer_new () :: (nat, nat, unit) server"
      "response_wire RpcResponse_default" True "\<lambda>_. True" "0::nat"]
    response_wire_not_request[of RpcResponse_default] by blast

text \<open>A valid request for a synchronous method, on a connection that is up, is answered with
  exactly one frame and runs the handler once: the handler's own result when it follows the rules,
  \<open>INTERNAL_ERROR\<close> with the text "handler exception" when it throws and with "invalid handler result"
  when it does not; and \<open>MESSAGE_TOO_LARGE\<close> when the answer exceeds the size limit.\<close>

theorem server_sync_reply:
  assumes "request_valid r" and "length (request_wire r) \<le> mx"
    and "mx = effectiveMaxMessageSize kMax s" and "43 \<le> mx" and "mx \<le> UINT32_MAX"
    and "table_find (rq_service r) (rq_method r) (sv_syncHandlers s) = Some h"
    and "h (rq_payload r) (sv_world s) = (out, w)" and "up conn"
    and "22 + length (rr_payload (checked_result out)) + length (rr_errorMessage (checked_result out)) < size_max"
  shows "server_onRpcMessage le kMax up conn (request_wire r) s =
    ([SendFrame conn (response_wire
        (if 22 + length (rr_payload (checked_result out)) + length (rr_errorMessage (checked_result out)) \<le> mx
         then RpcResponse_make (rq_requestId r) (rr_result (checked_result out)) (rr_errorCode (checked_result out))
           (rr_payload (checked_result out)) (rr_errorMessage (checked_result out))
         else RpcResponse_make (rq_requestId r) kUnsuccess MESSAGE_TOO_LARGE [] ''rpc message too large''))],
     s\<lparr>sv_world := w\<rparr>)"
proof -
  let ?x = "checked_result out"
  have "server_onRpcMessage le kMax up conn (request_wire r) s =
      (frames_for up conn (fitted_result mx (rq_requestId r) ?x), s\<lparr>sv_world := w\<rparr>)"
    using assms by (simp add: onRpcMessage_request server_dispatch_def registered_simps invokeSyncHandler_eq)
  moreover have "fitted_result mx (rq_requestId r) ?x =
      Some (if 22 + length (rr_payload ?x) + length (rr_errorMessage ?x) \<le> mx
        then RpcResponse_make (rq_requestId r) (rr_result ?x) (rr_errorCode ?x) (rr_payload ?x) (rr_errorMessage ?x)
        else RpcResponse_make (rq_requestId r) kUnsuccess MESSAGE_TOO_LARGE [] ''rpc message too large'')"
    using assms checked_result_valid[of out]
    by (simp add: fitted_result_def fitted_response_fits fitted_response_large not_le)
  ultimately show ?thesis
    using assms(8) by (simp add: frames_for_def)
qed

text \<open>A server with one synchronous method that returns its payload.\<close>

abbreviation echo_handler :: "unit RpcHandler" where
  "echo_handler \<equiv> (\<lambda>payload w. (Some (RpcResult_make kSuccess NO_ERROR payload []), w))"

abbreviation echo_server :: "(nat, nat, unit) server" where
  "echo_server \<equiv> snd (the (registerMethod ''S'' ''m'' (Some echo_handler) (RpcServer_new ())))"

theorem server_sync_reply_witness:
  "server_onRpcMessage True 67108864 (\<lambda>_. True) 0
     (request_wire \<lparr>rq_requestId = 7, rq_service = ''S'', rq_method = ''m'', rq_payload = ''hi''\<rparr>) echo_server =
   ([SendFrame 0 (response_wire (RpcResponse_make 7 kSuccess NO_ERROR ''hi'' []))], echo_server)"
proof -
  let ?r = "\<lparr>rq_requestId = 7, rq_service = ''S'', rq_method = ''m'', rq_payload = ''hi''\<rparr>"
  have res: "checked_result (Some (RpcResult_make kSuccess NO_ERROR ''hi'' [])) = RpcResult_make kSuccess NO_ERROR ''hi'' []"
    by (simp add: checked_result_def invalidRpcResult_def RpcResult_make_def word_le_nat_alt)
  have len: "length (request_wire ?r) = 27" by (simp add: request_wire_def)
  have reg: "registerMethod ''S'' ''m'' (Some echo_handler) (RpcServer_new () :: (nat, nat, unit) server) =
      Some (True, (RpcServer_new ())\<lparr>sv_syncHandlers := [(''S'', [(''m'', echo_handler)])]\<rparr>)"
    by (simp add: registerMethod_def RpcServer_new_def registered_simps table_find_def table_insert_def)
  let ?s = "(RpcServer_new () :: (nat, nat, unit) server)\<lparr>sv_syncHandlers := [(''S'', [(''m'', echo_handler)])]\<rparr>"
  show ?thesis
    unfolding reg option.sel snd_conv
    using server_sync_reply[where r = ?r and s = ?s and kMax = 67108864 and mx = 67108864
        and h = echo_handler and out = "Some (RpcResult_make kSuccess NO_ERROR ''hi'' [])" and w = "()"
        and up = "\<lambda>_. True" and conn = "0::nat" and le = True]
    by (simp add: len res request_valid_def effectiveMaxMessageSize_def table_find_def RpcServer_new_def)
qed

text \<open>C32: the two nested method tables implement one partial map from service and method to a handler
  of either kind: every sequence of registrations and deregistrations before the start returns the
  answers of that map (a registration succeeds exactly for non-empty names, a non-empty handler and a
  free name, whatever the kind of the handler that holds the name), and dispatch looks methods up in
  the map the sequence leaves; no name is ever in both tables.\<close>

theorem method_tables_refine_map:
  "run_ops method_spec ops Map.empty =
     apsnd method_abs (run_ops method_exec ops (RpcServer_new w :: ('c, 'h, 'w) server)) \<and>
   (let s = snd (run_ops method_exec ops (RpcServer_new w :: ('c, 'h, 'w) server)) in
    \<forall>sv m. (isRegisteredInSync sv m s \<longleftrightarrow> (\<exists>h. method_abs s (sv, m) = Some (Inl h))) \<and>
           (isRegisteredInAsync sv m s \<longleftrightarrow> (\<exists>h. method_abs s (sv, m) = Some (Inr h))))"
proof -
  let ?s = "snd (run_ops method_exec ops (RpcServer_new w :: ('c, 'h, 'w) server))"
  have run: "run_ops method_spec ops Map.empty =
      apsnd method_abs (run_ops method_exec ops (RpcServer_new w :: ('c, 'h, 'w) server))"
    and ok: "tables_ok ?s"
    using method_run_refines[of "RpcServer_new w :: ('c, 'h, 'w) server" ops] by (simp_all add: method_init)
  have "(isRegisteredInSync sv m ?s \<longleftrightarrow> (\<exists>h. method_abs ?s (sv, m) = Some (Inl h))) \<and>
      (isRegisteredInAsync sv m ?s \<longleftrightarrow> (\<exists>h. method_abs ?s (sv, m) = Some (Inr h)))" for sv m
  proof -
    have "table_find sv m (sv_syncHandlers ?s) = None \<or> table_find sv m (sv_asyncHandlers ?s) = None"
      using ok by (simp add: tables_ok_def)
    then show ?thesis
      by (auto simp: method_abs_def registered_simps split: option.split)
  qed
  with run show ?thesis by (simp add: Let_def)
qed

end
