(* ===== verification/Rpc_Server_Runs.thy ===== *)
theory Rpc_Server_Runs
  imports Rpc_Server
begin

section \<open>Runs of the server\<close>

text \<open>
  The operations of \<open>Rpc_Server\<close> composed the way the program composes them: a step relation whose
  steps are the calls of the application (configuration, start, stop), the callbacks of the transport
  (a message, a connection going up or down, the end of the TCP server), what asynchronous handlers do
  with their reply functions, the functors a loop runs, the steps of the pool's workers and of the
  thread that stops the pool. Each step may find any connection up or down. A handler's reply is a step
  of its own, so replies from any thread, at any time and any number of times are covered; the loop may
  run queued functors in any order.

  A configuration is the server and the log of everything it asked the transport to do; an entry also
  names the invocation of an asynchronous handler it comes from, if it comes from one.
\<close>

type_synonym 'c action_log = "(nat option \<times> 'c action) list"

type_synonym ('c, 'h, 'w) server_config = "('c, 'h, 'w) server \<times> 'c action_log"

text \<open>The handler of an invocation has been entered: at once without a pool, else when a worker has
  taken its task.\<close>

definition call_begun :: "('c, 'h, 'w) server \<Rightarrow> nat \<Rightarrow> bool" where
  "call_begun s i \<longleftrightarrow> i < length (sv_calls s) \<and>
     (case sv_taskPool s of None \<Rightarrow> True | Some p \<Rightarrow> i \<in> set (pl_begun p))"

text \<open>The thread of the base loop is not held up in the error path of \<open>start\<close>, joining workers.\<close>

definition base_loop_free :: "('c, 'h, 'w) server \<Rightarrow> bool" where
  "base_loop_free s \<longleftrightarrow> (sv_status s = kNotStarted \<longrightarrow>
     (case sv_taskPool s of None \<Rightarrow> True | Some p \<Rightarrow> pl_phase p = J_none))"

inductive server_configure :: "nat \<Rightarrow> ('c, 'h, 'w) server \<Rightarrow> ('c, 'h, 'w) server \<Rightarrow> bool" for kMax where
  cfg_method: "registerMethod service meth handler s = Some (b, s') \<Longrightarrow> server_configure kMax s s'"
| cfg_async: "registerAsyncMethod service meth asyncHandler s = Some (b, s') \<Longrightarrow> server_configure kMax s s'"
| cfg_unregister: "unregisterMethod service meth s = Some (b, s') \<Longrightarrow> server_configure kMax s s'"
| cfg_active: "setMaxActiveRequests m s = Some s' \<Longrightarrow> server_configure kMax s s'"
| cfg_active_conn: "setMaxActiveRequestsPerConnection m s = Some s' \<Longrightarrow> server_configure kMax s s'"
| cfg_size: "server_setMaxMessageSize kMax n s = Some s' \<Longrightarrow> server_configure kMax s s'"
| cfg_workers: "setWorkerThreadNum w s = Some s' \<Longrightarrow> server_configure kMax s s'"
| cfg_queue: "setMaxWorkerQueue n s = Some s' \<Longrightarrow> server_configure kMax s s'"
| cfg_stop_callback: "server_setStopCompleteCallback cb s = Some s' \<Longrightarrow> server_configure kMax s s'"

text \<open>The steps are relative to what the outside may do: \<open>M conn msg\<close> says that the transport may deliver the
  message \<open>msg\<close> on \<open>conn\<close>, and \<open>R h payload res\<close> that the handler \<open>h\<close>, invoked with \<open>payload\<close>, may pass
  \<open>res\<close> to its reply function. \<open>server_step\<close> leaves both open; a system with a known client restricts
  them.\<close>

inductive server_step_from ::
  "('c \<Rightarrow> string \<Rightarrow> bool) \<Rightarrow> ('h \<Rightarrow> string \<Rightarrow> RpcResult \<Rightarrow> bool) \<Rightarrow> bool \<Rightarrow> nat \<Rightarrow>
     ('c, 'h, 'w) server_config \<Rightarrow> ('c, 'h, 'w) server_config \<Rightarrow> bool"
  for M R le kMax where
  sv_configure: "base_loop_free s \<Longrightarrow> server_configure kMax s s' \<Longrightarrow> server_step_from M R le kMax (s, log) (s', log)"
| sv_start: "base_loop_free s \<Longrightarrow> server_step_from M R le kMax (s, log) (RpcServer_start created s, log)"
| sv_message: "sv_status s \<noteq> kNotStarted \<Longrightarrow> server_onRpcMessage le kMax up conn msg s = (acts, s') \<Longrightarrow> M conn msg \<Longrightarrow>
    server_step_from M R le kMax (s, log) (s', log @ map (Pair None) acts)"
| sv_connection: "server_step_from M R le kMax (s, log) (server_onConnection up conn s, log)"
| sv_reply: "call_begun s i \<Longrightarrow> R (ac_handler (sv_calls s ! i)) (ac_payload (sv_calls s ! i)) res \<Longrightarrow>
    server_step_from M R le kMax (s, log) (async_reply i alive res s, log)"
| sv_throw: "call_begun s i \<Longrightarrow> server_step_from M R le kMax (s, log) (async_throw i alive s, log)"
| sv_queued: "sv_queue s = qs @ q # qs' \<Longrightarrow>
    run_queued_reply le kMax up alive q (s\<lparr>sv_queue := qs @ qs'\<rparr>) = (acts, s') \<Longrightarrow>
    server_step_from M R le kMax (s, log) (s', log @ map (Pair (Some (qr_call q))) acts)"
| sv_pool: "sv_taskPool s = Some p \<Longrightarrow> pool_internal p p' \<Longrightarrow>
    server_step_from M R le kMax (s, log) (s\<lparr>sv_taskPool := Some p'\<rparr>, log)"
| sv_stop: "RpcServer_stop s = (acts, s') \<Longrightarrow> server_step_from M R le kMax (s, log) (s', log @ map (Pair None) acts)"
| sv_tcp_stopped: "onTcpServerStopped s = (acts, s') \<Longrightarrow>
    server_step_from M R le kMax (s, log) (s', log @ map (Pair None) acts)"
| sv_thread_enter: "sv_stopThread s = T_calling \<Longrightarrow> server_step_from M R le kMax (s, log) (stop_thread_enter s, log)"
| sv_thread_return: "sv_stopThread s = T_waiting \<Longrightarrow> sv_taskPool s = Some p \<Longrightarrow> pl_phase p = J_none \<Longrightarrow>
    server_step_from M R le kMax (s, log) (stop_thread_return s, log)"
| sv_pool_stopped: "sv_stopThread s = T_queued \<Longrightarrow> run_pool_stopped s = (acts, s') \<Longrightarrow>
    server_step_from M R le kMax (s, log) (s', log @ map (Pair None) acts)"

abbreviation server_step :: "bool \<Rightarrow> nat \<Rightarrow> ('c, 'h, 'w) server_config \<Rightarrow> ('c, 'h, 'w) server_config \<Rightarrow> bool" where
  "server_step \<equiv> server_step_from (\<lambda>_ _. True) (\<lambda>_ _ _. True)"

lemma server_step_from_mono:
  assumes "server_step_from M R le kMax c c'" and "\<And>conn msg. M conn msg \<Longrightarrow> M' conn msg"
    and "\<And>h payload res. R h payload res \<Longrightarrow> R' h payload res"
  shows "server_step_from M' R' le kMax c c'"
  using assms by (induction rule: server_step_from.induct) (blast intro: server_step_from.intros)+

lemma server_step_from_step: "server_step_from M R le kMax c c' \<Longrightarrow> server_step le kMax c c'"
  by (erule server_step_from_mono) simp_all

definition server_init :: "('c, 'h, 'w) server_config \<Rightarrow> bool" where
  "server_init c \<longleftrightarrow> (\<exists>w. c = (RpcServer_new w, []))"

definition server_reachable :: "bool \<Rightarrow> nat \<Rightarrow> ('c, 'h, 'w) server_config \<Rightarrow> bool" where
  "server_reachable le kMax c \<longleftrightarrow> (\<exists>w. (server_step le kMax)\<^sup>*\<^sup>* (RpcServer_new w, []) c)"

subsection \<open>What each operation changes\<close>

lemmas configure_defs = registerMethod_def registerAsyncMethod_def unregisterMethod_def
  setMaxActiveRequests_def setMaxActiveRequestsPerConnection_def server_setMaxMessageSize_def
  setWorkerThreadNum_def setMaxWorkerQueue_def server_setStopCompleteCallback_def

lemma sv_status_not_started:
  assumes "server_configure kMax s s'"
  shows "sv_status s = kNotStarted" and "sv_status s' = kNotStarted"
  using assms
  by (induction; auto simp: configure_defs
      split: if_splits option.splits prod.splits)+

lemma async_reply_cases [consumes 1]:
  assumes "i < length (sv_calls s)"
  obtains (late) "ac_replied (sv_calls s ! i)" "async_reply i alive res s = s"
  | (gone) "\<not> ac_replied (sv_calls s ! i)" "async_reply i alive res s =
      s\<lparr>sv_calls := (sv_calls s)[i := (sv_calls s ! i)\<lparr>ac_replied := True\<rparr>]\<rparr>"
  | (queued) "\<not> ac_replied (sv_calls s ! i)" "async_reply i alive res s =
      s\<lparr>sv_calls := (sv_calls s)[i := (sv_calls s ! i)\<lparr>ac_replied := True\<rparr>],
        sv_queue := sv_queue s @ [\<lparr>qr_conn = ac_conn (sv_calls s ! i), qr_requestId = ac_requestId (sv_calls s ! i),
          qr_result = checked_result (Some res), qr_call = i\<rparr>]\<rparr>"
proof (cases "ac_replied (sv_calls s ! i)")
  case True
  then show thesis by (intro late) (simp_all add: async_reply_def)
next
  case False
  show thesis
  proof (cases alive)
    case True
    with False show thesis by (intro queued) (simp_all add: async_reply_def checked_result_def Let_def)
  next
    case dead: False
    with False show thesis by (intro gone) (simp_all add: async_reply_def Let_def)
  qed
qed

definition pool_refusals :: "RpcResult set" where
  "pool_refusals = {RpcResult_make kUnsuccess INTERNAL_ERROR [] ''task pool not running'',
     RpcResult_make kUnsuccess RESOURCE_EXHAUSTED [] ''task queue full'',
     RpcResult_make kUnsuccess INTERNAL_ERROR [] ''empty task''}"

lemma submit_call_cases:
  obtains (direct) "sv_taskPool s = None" "submit_call i s = s"
  | (accepted) p p' where "sv_taskPool s = Some p" "pool_step p p'" "pl_status p' = pl_status p"
      "pl_phase p' = pl_phase p" "submit_call i s = s\<lparr>sv_taskPool := Some p'\<rparr>"
  | (refused) p res where "sv_taskPool s = Some p" "submit_call i s = async_reply i True res s" "res \<in> pool_refusals"
proof (cases "sv_taskPool s")
  case None
  then show thesis by (intro direct) (simp_all add: submit_call_def)
next
  case (Some p)
  obtain st p' where add: "addTask (Some i) p = (st, p')" by fastforce
  show thesis
  proof (cases "st = kAccepted")
    case True
    have "pool_step p (p'\<lparr>pl_accepted := pl_accepted p @ [i]\<rparr>)"
      using call_submit[OF add] True by (simp add: pool_step_def)
    with Some add True show thesis
      by (intro accepted[of p "p'\<lparr>pl_accepted := pl_accepted p @ [i]\<rparr>"])
        (auto simp: submit_call_def pool_submit_def addTask_def split: if_splits)
  next
    case False
    then have p': "p' = p" using add by (auto simp: addTask_def split: if_splits)
    have same: "s\<lparr>sv_taskPool := Some p\<rparr> = s" using Some by simp
    have "\<exists>res \<in> pool_refusals. submit_call i s = async_reply i True res s"
      using Some add False by (cases st) (auto simp: submit_call_def pool_submit_def Let_def p' same pool_refusals_def)
    with Some show thesis using refused by blast
  qed
qed

text \<open>The four kinds of outcome of a message.\<close>

lemma message_cases:
  assumes "server_onRpcMessage le kMax up conn msg s = (acts, s')"
  obtains (direct) w rid where "s' = s\<lparr>sv_world := w\<rparr>" "proper_actions up conn (effectiveMaxMessageSize kMax s) rid acts"
  | (cancel) k where "msg = cancel_wire \<lparr>cn_requestId = k\<rparr>" "s' = cancelAsync conn k s" "acts = []"
  | (refused) st g r where "msg = request_wire r"
      "register_call conn (rq_requestId r) s = (st, g)" "st \<noteq> kRegistered"
      "s' = s\<lparr>sv_registry := g\<rparr>"
      "proper_actions up conn (effectiveMaxMessageSize kMax s) (rq_requestId r) acts"
  | (accepted) g r h where "msg = request_wire r" "register_call conn (rq_requestId r) s = (kRegistered, g)" "acts = []"
      "s' = submit_call (length (sv_calls s)) (s\<lparr>sv_registry := g, sv_calls := sv_calls s @ [new_call conn r h]\<rparr>)"
proof (cases rule: onRpcMessage_cases[of le kMax up conn msg s])
  case rejected
  then show thesis
    using assms by (intro direct[of "sv_world s" 0]) (simp_all add: proper_actions_def)
next
  case (cancel c)
  then show thesis using assms by (cases c) (intro that(2)[of "cn_requestId c"], simp_all)
next
  case (request r)
  let ?sync = "table_find (rq_service r) (rq_method r) (sv_syncHandlers s)"
  let ?async = "table_find (rq_service r) (rq_method r) (sv_asyncHandlers s)"
  have disp: "server_dispatch le kMax up conn r s = (acts, s')"
    using assms request(4) by simp
  have proper: "proper_actions up conn (effectiveMaxMessageSize kMax s) (rq_requestId r) acts"
    using proper_dispatch[of up conn kMax s r le] disp by simp
  consider h where "?sync = Some h" | h where "?sync = None" "?async = Some h" | "?sync = None" "?async = None"
    by (cases ?sync; cases ?async) auto
  then show thesis
  proof cases
    case (1 h)
    obtain out w where "h (rq_payload r) (sv_world s) = (out, w)" by fastforce
    with 1 disp have "s' = s\<lparr>sv_world := w\<rparr>"
      by (simp add: server_dispatch_def registered_simps invokeSyncHandler_eq)
    then show thesis using proper by (rule direct)
  next
    case (2 h)
    obtain st g where reg: "register_call conn (rq_requestId r) s = (st, g)" by fastforce
    have inv: "invokeAsyncHandler le kMax up conn r s = (acts, s')"
      using 2 disp by (simp add: server_dispatch_def registered_simps)
    show thesis
    proof (cases "st = kRegistered")
      case True
      with inv reg show thesis
        using request(1) by (intro accepted[of r g h]) (simp_all add: invokeAsyncHandler_eq[OF 2(2) reg])
    next
      case False
      then have "s' = s\<lparr>sv_registry := g\<rparr>"
        using inv by (cases st) (simp_all add: invokeAsyncHandler_eq[OF 2(2) reg] Let_def)
      with False reg request(1) proper show thesis by (intro refused[of r st g]) simp_all
    qed
  next
    case 3
    with disp have "s' = s\<lparr>sv_world := sv_world s\<rparr>" by (simp add: server_dispatch_def registered_simps)
    then show thesis using proper by (rule direct)
  qed
qed

subsection \<open>The registry and the invocations\<close>

text \<open>A registered token is the index of an invocation on that connection with that request id, and
  its flag is not set; before the start there is nothing yet.\<close>

definition registry_calls :: "'c registry \<Rightarrow> ('c, 'h) async_call list \<Rightarrow> bool" where
  "registry_calls g calls \<longleftrightarrow> registry_inv g \<and>
     (\<forall>c k t. registry_lookup g c k = Some t \<longrightarrow>
        t < length calls \<and> ac_conn (calls ! t) = c \<and> ac_requestId (calls ! t) = k \<and> \<not> isCanceled g t)"

lemma registry_calls_wf: "registry_calls g calls \<Longrightarrow> registry_wf g"
  by (simp add: registry_calls_def registry_inv_def)

lemma registry_calls_tokens: "registry_calls g calls \<Longrightarrow> reg.tokens_distinct g \<and> reg.flags_clear g"
  by (simp add: registry_calls_def reg.tokens_distinct_def reg.flags_clear_def) blast

lemma registry_calls_removals:
  assumes "registry_calls g calls"
  shows "registry_calls (snd (registry_take c k g)) calls"
    and "registry_calls (registry_cancel c k g) calls"
    and "registry_calls (clearConnectionCancellations c g) calls"
proof -
  note wf = registry_calls_wf[OF assms] and tok = registry_calls_tokens[OF assms]
  have flags: "reg.flags_clear (snd (registry_take c k g))" "reg.flags_clear (registry_cancel c k g)"
    "reg.flags_clear (clearConnectionCancellations c g)"
    using wf tok by (simp_all add: reg.flags_take reg.flags_cancel reg.flags_clear_conn)
  show "registry_calls (snd (registry_take c k g)) calls"
    and "registry_calls (registry_cancel c k g) calls"
    and "registry_calls (clearConnectionCancellations c g) calls"
    using assms flags registry_inv_removals[of g]
    by (auto simp: registry_calls_def reg.flags_clear_def reg.take_lookup reg.cancel_lookup reg.clear_lookup
        split: if_splits)
qed

lemma registry_inv_flags [simp]: "registry_inv (g\<lparr>rg_canceled := f\<rparr>) = registry_inv g"
  by (simp add: registry_inv_def within_limits_def active_total_def active_on_def cong: option.case_cong)

lemma registry_calls_fresh_flag:
  "registry_calls g calls \<Longrightarrow> registry_calls (g\<lparr>rg_canceled := (rg_canceled g)(length calls := False)\<rparr>) calls"
  by (auto simp: registry_calls_def isCanceled_def)

lemma registry_calls_replied:
  "registry_calls g calls \<Longrightarrow> registry_calls g (calls[i := (calls ! i)\<lparr>ac_replied := b\<rparr>])"
  by (cases "i < length calls") (auto simp: registry_calls_def nth_list_update list_update_beyond)

lemma mark_replied_same [simp]:
  "ac_conn (calls[i := (calls ! i)\<lparr>ac_replied := b\<rparr>] ! j) = ac_conn (calls ! j)"
  "ac_requestId (calls[i := (calls ! i)\<lparr>ac_replied := b\<rparr>] ! j) = ac_requestId (calls ! j)"
  by (cases "i < length calls"; cases "j = i"; simp add: list_update_beyond)+

lemma register_call_flags:
  "register_call conn rid s = (st, g) \<Longrightarrow>
     isCanceled g t \<longleftrightarrow> t \<noteq> length (sv_calls s) \<and> isCanceled (sv_registry s) t"
  using canceled_registerToken[of conn rid "length (sv_calls s)"
      "(sv_registry s)\<lparr>rg_canceled := (rg_canceled (sv_registry s))(length (sv_calls s) := False)\<rparr>"]
  by (simp add: register_call_def isCanceled_def)

lemma registry_calls_refused:
  assumes "registry_calls (sv_registry s) (sv_calls s)"
    and "register_call conn rid s = (st, g)" and "st \<noteq> kRegistered"
  shows "registry_calls g (sv_calls s)"
  using assms registry_calls_fresh_flag[OF assms(1)] registerToken_refused
  by (metis fst_conv register_call_def snd_conv)

lemma registry_calls_registered:
  assumes ok: "registry_calls (sv_registry s) (sv_calls s)"
    and reg: "register_call conn rid s = (kRegistered, g)"
    and call: "ac_conn call = conn" "ac_requestId call = rid"
  shows "registry_calls g (sv_calls s @ [call])"
proof -
  let ?r = "(sv_registry s)\<lparr>rg_canceled := (rg_canceled (sv_registry s))(length (sv_calls s) := False)\<rparr>"
  note fresh = registry_calls_fresh_flag[OF ok]
  have g: "registerToken conn rid (length (sv_calls s)) ?r = (kRegistered, g)"
    using reg by (simp add: register_call_def)
  then have inv: "registry_inv g"
    using registry_inv_registerToken[of ?r conn rid "length (sv_calls s)"] fresh
    by (simp add: registry_calls_def)
  have lookup: "registry_lookup g c k = (if c = conn \<and> k = rid then Some (length (sv_calls s))
      else registry_lookup (sv_registry s) c k)" for c k
    using lookup_registerToken[OF g] by simp
  note flags = register_call_flags[OF reg]
  have "t < length (sv_calls s @ [call]) \<and> ac_conn ((sv_calls s @ [call]) ! t) = c \<and>
      ac_requestId ((sv_calls s @ [call]) ! t) = k \<and> \<not> isCanceled g t"
    if look: "registry_lookup g c k = Some t" for c k t
  proof (cases "c = conn \<and> k = rid")
    case True
    with look have "t = length (sv_calls s)" by (simp add: lookup)
    with True call show ?thesis by (simp add: flags)
  next
    case False
    with look have "registry_lookup (sv_registry s) c k = Some t" by (simp add: lookup split: if_splits)
    with ok have "t < length (sv_calls s)" "ac_conn (sv_calls s ! t) = c" "ac_requestId (sv_calls s ! t) = k"
      "\<not> isCanceled (sv_registry s) t" by (auto simp: registry_calls_def)
    then show ?thesis by (simp add: nth_append flags)
  qed
  with inv show ?thesis by (auto simp: registry_calls_def)
qed

subsection \<open>The replies of the invocations\<close>

text \<open>An entry of the log is proper: a frame is a valid response within the size limit, and one that
  comes from an invocation goes to its connection and carries its request id.\<close>

fun entry_ok :: "nat \<Rightarrow> ('c, 'h) async_call list \<Rightarrow> nat option \<times> 'c action \<Rightarrow> bool" where
  "entry_ok mx calls (src, ForceClose c) = (case src of None \<Rightarrow> True | Some i \<Rightarrow> ac_conn (calls ! i) = c)"
| "entry_ok mx calls (src, SendFrame c bs) =
     (\<exists>r. bs = response_wire r \<and> response_valid r \<and> length bs \<le> mx \<and>
        (case src of None \<Rightarrow> True
         | Some i \<Rightarrow> ac_conn (calls ! i) = c \<and> rs_requestId r = ac_requestId (calls ! i)))"
| "entry_ok mx calls (src, StopComplete) = (src = None)"
| "entry_ok mx calls (src, Undefined) = False"

text \<open>An invocation has at most one queued functor or one entry in the log, and none before its first
  reply.\<close>

definition replies_of :: "'c queued_reply list \<Rightarrow> 'c action_log \<Rightarrow> nat \<Rightarrow> nat" where
  "replies_of queue log i = count_list (map qr_call queue) i + count_list (map fst log) (Some i)"

definition replies_once :: "('c, 'h) async_call list \<Rightarrow> 'c queued_reply list \<Rightarrow> 'c action_log \<Rightarrow> bool" where
  "replies_once calls queue log \<longleftrightarrow> (\<forall>i. replies_of queue log i \<le>
     (if i < length calls \<and> ac_replied (calls ! i) then 1 else 0))"

definition queue_ok :: "('c, 'h) async_call list \<Rightarrow> 'c queued_reply list \<Rightarrow> bool" where
  "queue_ok calls queue \<longleftrightarrow> (\<forall>q \<in> set queue. qr_call q < length calls \<and>
     qr_conn q = ac_conn (calls ! qr_call q) \<and> qr_requestId q = ac_requestId (calls ! qr_call q))"

definition log_ok :: "nat \<Rightarrow> ('c, 'h) async_call list \<Rightarrow> 'c action_log \<Rightarrow> bool" where
  "log_ok mx calls log \<longleftrightarrow> (\<forall>e \<in> set log. entry_ok mx calls e \<and> (\<forall>i. fst e = Some i \<longrightarrow> i < length calls))"

lemma entry_ok_cong:
  assumes "entry_ok mx calls e" and "\<And>i. fst e = Some i \<Longrightarrow> ac_conn (calls' ! i) = ac_conn (calls ! i) \<and>
    ac_requestId (calls' ! i) = ac_requestId (calls ! i)"
  shows "entry_ok mx calls' e"
  using assms by (cases e; cases "snd e") (auto split: option.splits)

lemma replies_of_simps [simp]:
  "replies_of (queue @ [q]) log i = replies_of queue log i + (if qr_call q = i then 1 else 0)"
  "replies_of queue (log @ map (Pair None) acts) i = replies_of queue log i"
  by (auto simp: replies_of_def o_def count_list_0_iff)

lemma count_list_Pair: "count_list (map fst (map (Pair x) ys)) z = (if x = z then length ys else 0)"
  by (induction ys) auto

text \<open>The three ways in which replies move: a new invocation, a first reply, and a functor run.\<close>

lemma replies_new_call:
  assumes "replies_once calls queue log" "queue_ok calls queue" "log_ok mx calls log"
  shows "replies_once (calls @ [call]) queue log" "queue_ok (calls @ [call]) queue" "log_ok mx (calls @ [call]) log"
proof -
  have "replies_of queue log i \<le> (if i < length (calls @ [call]) \<and> ac_replied ((calls @ [call]) ! i) then 1 else 0)" for i
    using assms(1)[unfolded replies_once_def, rule_format, of i] by (auto simp: nth_append split: if_splits)
  then show "replies_once (calls @ [call]) queue log" by (simp add: replies_once_def)
  show "queue_ok (calls @ [call]) queue" using assms(2) by (auto simp: queue_ok_def nth_append)
  show "log_ok mx (calls @ [call]) log"
    using assms(3) unfolding log_ok_def by (auto simp: nth_append elim!: entry_ok_cong)
qed

lemma replies_mark:
  assumes "queue_ok calls queue" "log_ok mx calls log"
  shows "queue_ok (calls[i := (calls ! i)\<lparr>ac_replied := b\<rparr>]) queue"
    and "log_ok mx (calls[i := (calls ! i)\<lparr>ac_replied := b\<rparr>]) log"
proof -
  let ?calls = "calls[i := (calls ! i)\<lparr>ac_replied := b\<rparr>]"
  show "queue_ok ?calls queue" using assms(1) by (simp add: queue_ok_def)
  show "log_ok mx ?calls log"
    using assms(2) by (auto simp: log_ok_def elim!: entry_ok_cong)
qed

lemma replies_once_mark:
  assumes once: "replies_once calls queue log" and "i < length calls" and "\<not> ac_replied (calls ! i)"
  shows "replies_once (calls[i := (calls ! i)\<lparr>ac_replied := True\<rparr>]) queue log"
    and "qr_call q = i \<Longrightarrow> replies_once (calls[i := (calls ! i)\<lparr>ac_replied := True\<rparr>]) (queue @ [q]) log"
proof -
  let ?calls = "calls[i := (calls ! i)\<lparr>ac_replied := True\<rparr>]"
  have le: "replies_of queue log j + (if i = j then 1 else 0) \<le>
      (if j < length ?calls \<and> ac_replied (?calls ! j) then 1 else 0)" for j
    using once[unfolded replies_once_def, rule_format, of j] assms(2,3)
    by (auto simp: nth_list_update split: if_splits)
  then show "replies_once ?calls queue log"
    unfolding replies_once_def using add_leD1 by blast
  show "replies_once ?calls (queue @ [q]) log" if "qr_call q = i"
    using le that by (simp add: replies_once_def)
qed

lemma replies_run:
  assumes once: "replies_once calls (qs @ q # qs') log" and "length acts \<le> 1"
  shows "replies_once calls (qs @ qs') (log @ map (Pair (Some (qr_call q))) acts)"
proof -
  have "replies_of (qs @ qs') (log @ map (Pair (Some (qr_call q))) acts) i \<le> replies_of (qs @ q # qs') log i" for i
    using assms(2) by (auto simp: replies_of_def count_list_Pair simp del: map_map)
  with once show ?thesis unfolding replies_once_def by (blast intro: le_trans)
qed

subsection \<open>The life cycle of the server\<close>

text \<open>The control state: the status of the server against the flags of the two sub-servers, the status
  of the pool, the progress of the stop thread and the number of completion callbacks made.\<close>

definition life ::
  "ServerStatus \<Rightarrow> bool \<Rightarrow> bool \<Rightarrow> TaskThreadPoolStatus option \<Rightarrow> StopThread \<Rightarrow> bool \<Rightarrow> nat \<Rightarrow> bool" where
  "life st tcp tps ps th cb n \<longleftrightarrow>
     (case st of
        kNotStarted \<Rightarrow> th = T_none \<and> \<not> tps \<and> n = 0
      | kRunning \<Rightarrow> th = T_none \<and> \<not> tps \<and> n = 0 \<and> ps \<in> {None, Some RUNNING, Some STOPPED}
      | kStopping \<Rightarrow> n = 0 \<and> \<not> (tcp \<and> tps) \<and>
          (case th of
             T_none \<Rightarrow> tps \<and> ps = None
           | T_calling \<Rightarrow> \<not> tps \<and> ps \<in> {Some RUNNING, Some STOPPED}
           | T_waiting \<Rightarrow> \<not> tps \<and> ps \<in> {Some STOPPING, Some STOPPED}
           | T_queued \<Rightarrow> \<not> tps \<and> ps = Some STOPPED
           | T_done \<Rightarrow> tps \<and> ps = Some STOPPED
           | T_joined \<Rightarrow> False)
      | kStopped \<Rightarrow> tcp \<and> tps \<and> (th = T_none \<and> ps = None \<or> th = T_joined \<and> ps = Some STOPPED) \<and>
          n = (if cb then 1 else 0))"

definition completions :: "'c action_log \<Rightarrow> nat" where
  "completions log = count_list (map snd log) StopComplete"

definition life_inv :: "('c, 'h, 'w) server_config \<Rightarrow> bool" where
  "life_inv c \<longleftrightarrow> (case c of (s, log) \<Rightarrow>
     (\<forall>p. sv_taskPool s = Some p \<longrightarrow> pool_reachable p) \<and>
     life (sv_status s) (sv_tcpServerStopped s) (sv_taskPoolStopped s) (map_option pl_status (sv_taskPool s))
       (sv_stopThread s) (sv_stopCallback s) (completions log))"

lemma completions_append [simp]:
  "completions (log @ map (Pair x) acts) = completions log + count_list acts StopComplete"
  by (simp add: completions_def o_def)

lemma proper_no_completion: "proper_actions up conn mx rid acts \<Longrightarrow> count_list acts StopComplete = 0"
  by (auto simp: proper_actions_def)

lemma pool_reachable_step: "pool_reachable p \<Longrightarrow> pool_step p q \<Longrightarrow> pool_reachable q"
  unfolding pool_reachable_def by (meson rtranclp.rtrancl_into_rtrancl)

lemma pool_internal_status:
  assumes "pool_reachable p" and "pool_internal p q"
  shows "pl_status q = pl_status p \<or> pl_status p = STOPPING \<and> pl_status q = STOPPED"
proof -
  have "pool_phases p" using pool_reachable_inv[OF assms(1)] by (simp add: pool_inv_def pool_ctl_def)
  with assms(2) show ?thesis
    by (cases rule: pool_internal.cases)
      (auto simp: wake_def run_check_def run_finish_def stop_notify_def stop_clear_def stop_finish_def
        pool_phases_def split: list.splits)
qed

lemma pool_idle_not_stopping:
  "pool_reachable p \<Longrightarrow> pl_phase p = J_none \<Longrightarrow> pl_status p \<noteq> STOPPING"
  using pool_reachable_inv[of p] by (simp add: pool_inv_def pool_ctl_def pool_phases_def)

lemma life_pool_step:
  assumes "life st tcp tps (Some a) th cb n" and "b = a \<or> a = STOPPING \<and> b = STOPPED"
  shows "life st tcp tps (Some b) th cb n"
  using assms by (cases st; cases th) (auto simp: life_def)

text \<open>\<open>tryCompleteStop\<close>, called when one of the two flags has just been set.\<close>

lemma life_tryCompleteStop:
  assumes "tryCompleteStop s = (acts, s')"
    and "\<not> (sv_status s = kStopping \<and> sv_tcpServerStopped s \<and> sv_taskPoolStopped s) \<Longrightarrow>
      life (sv_status s) (sv_tcpServerStopped s) (sv_taskPoolStopped s) ps (sv_stopThread s) (sv_stopCallback s) n"
    and "sv_status s = kStopping \<Longrightarrow> sv_taskPoolStopped s \<Longrightarrow>
      n = 0 \<and> (sv_stopThread s = T_none \<and> ps = None \<or> sv_stopThread s = T_done \<and> ps = Some STOPPED)"
  shows "life (sv_status s') (sv_tcpServerStopped s') (sv_taskPoolStopped s') ps (sv_stopThread s')
      (sv_stopCallback s') (n + count_list acts StopComplete)"
    and "sv_taskPool s' = sv_taskPool s"
proof -
  have "life (sv_status s') (sv_tcpServerStopped s') (sv_taskPoolStopped s') ps (sv_stopThread s')
      (sv_stopCallback s') (n + count_list acts StopComplete) \<and> sv_taskPool s' = sv_taskPool s"
  proof (cases "sv_status s = kStopping \<and> sv_tcpServerStopped s \<and> sv_taskPoolStopped s")
    case True
    with assms(1,3) show ?thesis by (auto simp: tryCompleteStop_def life_def Let_def)
  next
    case False
    then have "s' = s" "acts = []" using assms(1) by (auto simp: tryCompleteStop_def split: if_splits)
    with assms(2) False show ?thesis by simp
  qed
  then show "life (sv_status s') (sv_tcpServerStopped s') (sv_taskPoolStopped s') ps (sv_stopThread s')
      (sv_stopCallback s') (n + count_list acts StopComplete)" and "sv_taskPool s' = sv_taskPool s" by auto
qed

lemma life_onTcpServerStopped:
  assumes inv: "life_inv (s, log)" and op: "onTcpServerStopped s = (acts, s')"
  shows "life_inv (s', log @ map (Pair x) acts)"
proof -
  have "life (sv_status s) (sv_tcpServerStopped s) (sv_taskPoolStopped s) (map_option pl_status (sv_taskPool s))
      (sv_stopThread s) (sv_stopCallback s) (completions log)"
    using inv by (simp add: life_inv_def)
  then have "life (sv_status s') (sv_tcpServerStopped s') (sv_taskPoolStopped s')
      (map_option pl_status (sv_taskPool s)) (sv_stopThread s') (sv_stopCallback s')
      (completions log + count_list acts StopComplete)" "sv_taskPool s' = sv_taskPool s"
    using life_tryCompleteStop[OF op[unfolded onTcpServerStopped_def],
        of "map_option pl_status (sv_taskPool s)" "completions log"]
    by (cases "sv_status s"; cases "sv_stopThread s"; auto simp: life_def)+
  with inv show ?thesis by (simp add: life_inv_def)
qed

lemma life_onTaskPoolStopped:
  assumes pools: "\<And>p. sv_taskPool s = Some p \<Longrightarrow> pool_reachable p"
    and state: "sv_status s = kStopping" "completions log = 0"
      "sv_stopThread s = T_none \<and> sv_taskPool s = None \<or>
       sv_stopThread s = T_done \<and> map_option pl_status (sv_taskPool s) = Some STOPPED"
    and op: "onTaskPoolStopped s = (acts, s')"
  shows "life_inv (s', log @ map (Pair x) acts)"
proof -
  let ?ps = "map_option pl_status (sv_taskPool s)"
  let ?s = "s\<lparr>sv_taskPoolStopped := True\<rparr>"
  have before: "life (sv_status ?s) (sv_tcpServerStopped ?s) (sv_taskPoolStopped ?s) ?ps (sv_stopThread ?s)
      (sv_stopCallback ?s) 0"
    if "\<not> (sv_status ?s = kStopping \<and> sv_tcpServerStopped ?s \<and> sv_taskPoolStopped ?s)"
    using that state by (auto simp: life_def)
  have "sv_stopThread ?s = T_none \<and> ?ps = None \<or> sv_stopThread ?s = T_done \<and> ?ps = Some STOPPED"
    using state(3) by auto
  then have "life (sv_status s') (sv_tcpServerStopped s') (sv_taskPoolStopped s') ?ps (sv_stopThread s')
      (sv_stopCallback s') (0 + count_list acts StopComplete)" "sv_taskPool s' = sv_taskPool ?s"
    using life_tryCompleteStop[OF op[unfolded onTaskPoolStopped_def] before] by blast+
  with pools state show ?thesis by (simp add: life_inv_def)
qed

lemma life_RpcServer_stop:
  assumes inv: "life_inv (s, log)" and op: "RpcServer_stop s = (acts, s')"
  shows "life_inv (s', log @ map (Pair x) acts)"
proof (cases "sv_status s = kRunning")
  case False
  with op inv show ?thesis by (simp add: RpcServer_stop_def)
next
  case True
  then have run: "sv_stopThread s = T_none" "completions log = 0" "\<not> sv_taskPoolStopped s"
    "map_option pl_status (sv_taskPool s) \<in> {None, Some RUNNING, Some STOPPED}"
    and pools: "\<And>p. sv_taskPool s = Some p \<Longrightarrow> pool_reachable p"
    using inv by (simp_all add: life_inv_def life_def)
  show ?thesis
  proof (cases "sv_taskPool s")
    case None
    then have op': "onTaskPoolStopped (s\<lparr>sv_status := kStopping\<rparr>) = (acts, s')"
      using op True by (simp add: RpcServer_stop_def)
    show ?thesis
      by (rule life_onTaskPoolStopped[OF _ _ _ _ op']) (use None run in simp_all)
  next
    case (Some p)
    then show ?thesis
      using op True run pools by (auto simp: RpcServer_stop_def life_inv_def life_def)
  qed
qed

lemma life_RpcServer_start:
  assumes inv: "life_inv (s, log)" and free: "base_loop_free s"
  shows "life_inv (RpcServer_start created s, log)"
proof (cases "sv_status s = kNotStarted")
  case False
  with inv show ?thesis by (simp add: RpcServer_start_def)
next
  case True
  show ?thesis
  proof (cases "sv_taskPool s")
    case None
    with True inv show ?thesis by (simp add: RpcServer_start_def life_inv_def life_def)
  next
    case (Some p)
    let ?p = "TaskThreadPool_start created p"
    have reach: "pool_reachable p" and idle: "pl_phase p = J_none"
      using inv free True Some by (simp_all add: life_inv_def base_loop_free_def)
    have "pool_reachable ?p"
      by (rule pool_reachable_step[OF reach]) (simp add: pool_step_def call_start)
    moreover have "pl_status ?p \<in> {RUNNING, STOPPED}" if "\<not> (pl_status p = NOT_START \<and> pl_status ?p \<noteq> RUNNING)"
      using that pool_idle_not_stopping[OF reach idle]
      by (cases "pl_status p") (auto simp: TaskThreadPool_start_def)
    ultimately show ?thesis
      using inv True Some by (auto simp: RpcServer_start_def life_inv_def life_def Let_def)
  qed
qed

lemma life_server_configure:
  assumes inv: "life_inv (s, log)" and cfg: "server_configure kMax s s'"
  shows "life_inv (s', log)"
proof -
  have st: "sv_status s = kNotStarted" "sv_status s' = kNotStarted"
    using sv_status_not_started[OF cfg] by simp_all
  have start: "pool_reachable (pool_start_state n)" if "n > 0" for n
    using that pool_run_reachable[of n "[]"] by simp
  have limit: "pool_reachable p'" if "setMaxQueueTasks m p = Some p'" "pool_reachable p" for m p p'
    using that pool_reachable_step[of p p'] call_limit[of m p p'] by (simp add: pool_step_def)
  have pools: "pool_reachable p'" if "sv_taskPool s' = Some p'" for p'
    using cfg inv that start[unfolded pool_start_state_def] limit
    by (cases rule: server_configure.cases)
      (auto simp: configure_defs
        TaskThreadPool_new_def pool.extend_def life_inv_def
        split: if_splits option.splits prod.splits)
  have "sv_stopThread s' = sv_stopThread s \<and> sv_taskPoolStopped s' = sv_taskPoolStopped s"
    using cfg
    by (cases rule: server_configure.cases)
      (auto simp: configure_defs
        split: if_splits option.splits prod.splits)
  with pools inv st show ?thesis by (simp add: life_inv_def life_def)
qed

lemma async_reply_frame [simp]:
  "sv_status (async_reply i alive res s) = sv_status s"
  "sv_taskPool (async_reply i alive res s) = sv_taskPool s"
  "sv_tcpServerStopped (async_reply i alive res s) = sv_tcpServerStopped s"
  "sv_taskPoolStopped (async_reply i alive res s) = sv_taskPoolStopped s"
  "sv_stopThread (async_reply i alive res s) = sv_stopThread s"
  "sv_stopCallback (async_reply i alive res s) = sv_stopCallback s"
  "sv_registry (async_reply i alive res s) = sv_registry s"
  "sv_maxMessageSize (async_reply i alive res s) = sv_maxMessageSize s"
  "length (sv_calls (async_reply i alive res s)) = length (sv_calls s)"
  by (simp_all add: async_reply_def Let_def)

lemma life_frame:
  assumes "life_inv (s, log)" and "sv_status s' = sv_status s" and "sv_tcpServerStopped s' = sv_tcpServerStopped s"
    and "sv_taskPoolStopped s' = sv_taskPoolStopped s" and "sv_taskPool s' = sv_taskPool s"
    and "sv_stopThread s' = sv_stopThread s" and "sv_stopCallback s' = sv_stopCallback s"
    and "completions log' = completions log"
  shows "life_inv (s', log')"
  using assms by (simp add: life_inv_def)

lemma life_submit_call:
  assumes "life_inv (s, log)" shows "life_inv (submit_call i s, log)"
proof (cases rule: submit_call_cases[of s i])
  case direct
  with assms show ?thesis by simp
next
  case (accepted p p')
  with assms show ?thesis by (auto simp: life_inv_def intro: pool_reachable_step)
next
  case (refused p res)
  then show ?thesis using assms by (auto intro: life_frame)
qed

lemma life_message:
  assumes inv: "life_inv (s, log)" and op: "server_onRpcMessage le kMax up conn msg s = (acts, s')"
  shows "life_inv (s', log @ map (Pair x) acts)"
  using op
proof (cases rule: message_cases)
  case (direct w rid)
  then show ?thesis by (intro life_frame[OF inv]) (simp_all add: proper_no_completion)
next
  case (cancel k)
  then show ?thesis by (intro life_frame[OF inv]) (simp_all add: cancelAsync_def)
next
  case (refused st g r)
  then show ?thesis by (intro life_frame[OF inv]) (simp_all add: proper_no_completion)
next
  case (accepted g r h)
  have "life_inv (s\<lparr>sv_registry := g, sv_calls := sv_calls s @ [new_call conn r h]\<rparr>, log)"
    by (rule life_frame[OF inv]) simp_all
  from life_submit_call[OF this] accepted show ?thesis by simp
qed

lemma run_queued_reply_cases:
  assumes "run_queued_reply le kMax up alive q s = (acts, s')"
  obtains (dead) "s' = s" "acts = []"
  | (run) "s' = s\<lparr>sv_registry := snd (registry_take (qr_conn q) (qr_requestId q) (sv_registry s))\<rparr>"
    "acts = [] \<or> (\<exists>tok. registry_lookup (sv_registry s) (qr_conn q) (qr_requestId q) = Some tok \<and>
       \<not> isCanceled (sv_registry s) tok)"
    "proper_actions up (qr_conn q) (effectiveMaxMessageSize kMax s) (qr_requestId q) acts"
proof (cases alive)
  case False
  then show thesis using assms by (intro dead) (auto simp: run_queued_reply_def)
next
  case True
  obtain token r where take: "registry_take (qr_conn q) (qr_requestId q) (sv_registry s) = (token, r)"
    by fastforce
  then have token: "token = registry_lookup (sv_registry s) (qr_conn q) (qr_requestId q)"
    using fst_registry_take by (metis fst_conv)
  have flags: "isCanceled r = isCanceled (sv_registry s)"
    using take canceled_registry_take[of "qr_conn q" "qr_requestId q" "sv_registry s"]
    by (simp add: isCanceled_def fun_eq_iff)
  show thesis
  proof (cases "\<exists>tok. token = Some tok \<and> \<not> isCanceled (sv_registry s) tok")
    case True
    with assms \<open>alive\<close> take show thesis
      by (intro run) (auto simp: run_queued_reply_def Let_def sendFramedData_eq flags token intro!: proper_frames)
  next
    case False
    with assms \<open>alive\<close> take have "s' = s\<lparr>sv_registry := r\<rparr>" "acts = []"
      by (auto simp: run_queued_reply_def Let_def flags split: option.splits)
    with take show thesis by (intro run) (simp_all add: proper_actions_def)
  qed
qed

lemma life_step:
  assumes "server_step le kMax c c'" and "life_inv c"
  shows "life_inv c'"
  using assms
proof (induction rule: server_step_from.induct)
  case (sv_configure s s' log)
  then show ?case using life_server_configure by blast
next
  case (sv_start s log created)
  then show ?case using life_RpcServer_start by blast
next
  case (sv_message s up conn msg acts s' log)
  show ?case by (rule life_message[OF sv_message(4,2)])
next
  case (sv_queued s qs q qs' up alive acts s' log)
  from sv_queued(2) show ?case
    by (cases rule: run_queued_reply_cases)
      (auto simp: proper_no_completion intro!: life_frame[OF sv_queued(3)])
next
  case (sv_pool s p p' log)
  then have "pool_reachable p" by (simp add: life_inv_def)
  with sv_pool(2) have "pool_reachable p'"
    and "pl_status p' = pl_status p \<or> pl_status p = STOPPING \<and> pl_status p' = STOPPED"
    using pool_reachable_step[of p p'] pool_internal_status[of p p'] by (auto simp: pool_step_def)
  with sv_pool show ?case by (auto simp: life_inv_def intro: life_pool_step)
next
  case (sv_stop s acts s' log)
  then show ?case using life_RpcServer_stop by blast
next
  case (sv_tcp_stopped s acts s' log)
  then show ?case using life_onTcpServerStopped by blast
next
  case (sv_thread_enter s log)
  then obtain p where "sv_taskPool s = Some p" "sv_status s = kStopping" "pl_status p \<in> {RUNNING, STOPPED}"
    by (auto simp: life_inv_def life_def split: ServerStatus.splits)
  moreover have "pool_reachable (stop_begin p)"
    using calculation(1) sv_thread_enter(2) call_stop[of p]
    by (auto simp: life_inv_def pool_step_def intro: pool_reachable_step)
  ultimately show ?case
    using sv_thread_enter by (auto simp: life_inv_def life_def stop_thread_enter_def stop_begin_def)
next
  case (sv_thread_return s p log)
  then have "pl_status p = STOPPED"
    using pool_idle_not_stopping[of p] by (auto simp: life_inv_def life_def split: ServerStatus.splits)
  with sv_thread_return show ?case
    by (auto simp: life_inv_def life_def stop_thread_return_def split: ServerStatus.splits)
next
  case (sv_pool_stopped s acts s' log)
  then have "sv_status s = kStopping" "completions log = 0" "map_option pl_status (sv_taskPool s) = Some STOPPED"
    and "\<And>p. sv_taskPool s = Some p \<Longrightarrow> pool_reachable p"
    by (auto simp: life_inv_def life_def split: ServerStatus.splits)
  with sv_pool_stopped(2) show ?case
    by (intro life_onTaskPoolStopped) (auto simp: run_pool_stopped_def)
qed (auto simp: server_onConnection_def async_throw_def intro: life_frame)

subsection \<open>The invariant of registry, invocations, queue and log\<close>

definition async_inv :: "nat \<Rightarrow> ('c, 'h, 'w) server_config \<Rightarrow> bool" where
  "async_inv kMax c \<longleftrightarrow> (case c of (s, log) \<Rightarrow>
     registry_calls (sv_registry s) (sv_calls s) \<and>
     replies_once (sv_calls s) (sv_queue s) log \<and>
     queue_ok (sv_calls s) (sv_queue s) \<and>
     log_ok (effectiveMaxMessageSize kMax s) (sv_calls s) log \<and>
     (sv_status s = kNotStarted \<longrightarrow>
        rg_cancellations (sv_registry s) = [] \<and> sv_calls s = [] \<and> sv_queue s = [] \<and> log = []))"

lemma async_inv_parts:
  assumes "async_inv kMax (s, log)"
  shows "registry_calls (sv_registry s) (sv_calls s)" "replies_once (sv_calls s) (sv_queue s) log"
    "queue_ok (sv_calls s) (sv_queue s)" "log_ok (effectiveMaxMessageSize kMax s) (sv_calls s) log"
  using assms by (simp_all add: async_inv_def)

lemma log_ok_append:
  "log_ok mx calls (log @ map (Pair None) acts) \<longleftrightarrow> log_ok mx calls log \<and> (\<forall>a \<in> set acts. entry_ok mx calls (None, a))"
  by (auto simp: log_ok_def)

lemma replies_once_direct [simp]: "replies_once calls queue (log @ map (Pair None) acts) = replies_once calls queue log"
  by (simp add: replies_once_def)

text \<open>A step that leaves registry, invocations and queue alone, or changes the registry only.\<close>

lemma async_inv_frame:
  assumes inv: "async_inv kMax (s, log)" and "registry_calls (sv_registry s') (sv_calls s)"
    and "sv_calls s' = sv_calls s" and "sv_queue s' = sv_queue s" and "sv_maxMessageSize s' = sv_maxMessageSize s"
    and "sv_status s' = kNotStarted \<Longrightarrow>
      sv_status s = kNotStarted \<and> rg_cancellations (sv_registry s') = [] \<and> acts = []"
    and "\<And>a. a \<in> set acts \<Longrightarrow> entry_ok (effectiveMaxMessageSize kMax s) (sv_calls s) (None, a)"
  shows "async_inv kMax (s', log @ map (Pair None) acts)"
  using assms by (auto simp: async_inv_def effectiveMaxMessageSize_def log_ok_append)

lemma proper_entries:
  "proper_actions up conn mx rid acts \<Longrightarrow> a \<in> set acts \<Longrightarrow> entry_ok mx calls (None, a)"
  by (auto simp: proper_actions_def)

lemma async_inv_reply:
  assumes inv: "async_inv kMax (s, log)" and i: "i < length (sv_calls s)"
  shows "async_inv kMax (async_reply i alive res s, log)"
proof -
  note parts = async_inv_parts[OF inv]
  have st: "sv_status s \<noteq> kNotStarted" using inv i by (auto simp: async_inv_def)
  from i show ?thesis
  proof (cases rule: async_reply_cases[of i s alive res])
    case late
    with inv show ?thesis by simp
  next
    case gone
    with parts st i show ?thesis
      by (simp add: async_inv_def registry_calls_replied replies_once_mark replies_mark)
  next
    case queued
    let ?calls = "(sv_calls s)[i := (sv_calls s ! i)\<lparr>ac_replied := True\<rparr>]"
    have "queue_ok ?calls (sv_queue s @ [\<lparr>qr_conn = ac_conn (sv_calls s ! i),
        qr_requestId = ac_requestId (sv_calls s ! i), qr_result = checked_result (Some res), qr_call = i\<rparr>])"
      using replies_mark(1)[OF parts(3,4), of i True] i by (auto simp: queue_ok_def)
    with queued parts st i show ?thesis
      by (simp add: async_inv_def registry_calls_replied replies_once_mark replies_mark)
  qed
qed

lemma async_inv_submit:
  assumes "async_inv kMax (s, log)" and "i < length (sv_calls s)"
  shows "async_inv kMax (submit_call i s, log)"
proof (cases rule: submit_call_cases[of s i])
  case (accepted p p')
  with assms async_inv_frame[OF assms(1), of "s\<lparr>sv_taskPool := Some p'\<rparr>" "[]"] show ?thesis
    by (simp add: async_inv_def)
qed (use assms async_inv_reply in auto)

lemma async_inv_message:
  assumes inv: "async_inv kMax (s, log)" and started: "sv_status s \<noteq> kNotStarted"
    and op: "server_onRpcMessage le kMax up conn msg s = (acts, s')"
  shows "async_inv kMax (s', log @ map (Pair None) acts)"
proof -
  note parts = async_inv_parts[OF inv]
  from op show ?thesis
  proof (cases rule: message_cases)
    case (direct w rid)
    with started parts(1) show ?thesis
      by (intro async_inv_frame[OF inv]) (simp_all add: proper_entries)
  next
    case (cancel k)
    with started parts(1) show ?thesis
      by (intro async_inv_frame[OF inv]) (simp_all add: cancelAsync_def registry_calls_removals)
  next
    case (refused st g r)
    with started registry_calls_refused[OF parts(1) refused(2,3)] show ?thesis
      by (intro async_inv_frame[OF inv]) (simp_all add: proper_entries)
  next
    case (accepted g r h)
    let ?call = "new_call conn r h"
    let ?s = "s\<lparr>sv_registry := g, sv_calls := sv_calls s @ [?call]\<rparr>"
    have "registry_calls g (sv_calls s @ [?call])"
      by (rule registry_calls_registered[OF parts(1) accepted(2)]) (simp_all add: new_call_def)
    then have "async_inv kMax (?s, log)"
      using parts(2-4) started by (simp add: async_inv_def replies_new_call)
    from async_inv_submit[OF this, of "length (sv_calls s)"] accepted show ?thesis by simp
  qed
qed

lemma async_inv_queued:
  assumes inv: "async_inv kMax (s, log)" and queue: "sv_queue s = qs @ q # qs'"
    and op: "run_queued_reply le kMax up alive q (s\<lparr>sv_queue := qs @ qs'\<rparr>) = (acts, s')"
  shows "async_inv kMax (s', log @ map (Pair (Some (qr_call q))) acts)"
proof -
  note parts = async_inv_parts[OF inv]
  have st: "sv_status s \<noteq> kNotStarted" using inv queue by (auto simp: async_inv_def)
  have q: "qr_call q < length (sv_calls s)" "qr_conn q = ac_conn (sv_calls s ! qr_call q)"
    "qr_requestId q = ac_requestId (sv_calls s ! qr_call q)" and rest: "queue_ok (sv_calls s) (qs @ qs')"
    using parts(3) queue by (auto simp: queue_ok_def)
  from op have len: "length acts \<le> 1"
    by (cases rule: run_queued_reply_cases) (auto simp: proper_actions_def)
  note once = replies_run[OF parts(2)[unfolded queue] len]
  from op show ?thesis
  proof (cases rule: run_queued_reply_cases)
    case dead
    with once rest parts st show ?thesis by (simp add: async_inv_def)
  next
    case run
    have "log_ok (effectiveMaxMessageSize kMax s) (sv_calls s) (log @ map (Pair (Some (qr_call q))) acts)"
      using parts(4) run(3) q by (auto simp: log_ok_def proper_actions_def)
    with once rest parts st run(1) show ?thesis
      by (simp add: async_inv_def registry_calls_removals)
  qed
qed

lemma async_inv_configure:
  assumes inv: "async_inv kMax (s, log)" and cfg: "server_configure kMax s s'"
  shows "async_inv kMax (s', log)"
proof -
  have st: "sv_status s = kNotStarted" "sv_status s' = kNotStarted"
    using sv_status_not_started[OF cfg] by simp_all
  then have empty: "rg_cancellations (sv_registry s) = []" "sv_calls s = []" "sv_queue s = []" "log = []"
    using inv by (simp_all add: async_inv_def)
  have keep: "sv_calls s' = sv_calls s \<and> sv_queue s' = sv_queue s \<and>
      rg_cancellations (sv_registry s') = rg_cancellations (sv_registry s) \<and>
      (rg_maxActiveRequestsPerConnection (sv_registry s') = Some 0 \<longrightarrow>
       rg_maxActiveRequestsPerConnection (sv_registry s) = Some 0)"
    using cfg by (cases rule: server_configure.cases)
      (auto simp: configure_defs split: if_splits option.splits prod.splits)
  moreover have "registry_inv (sv_registry s)" using inv by (simp add: async_inv_def registry_calls_def)
  ultimately have "registry_calls (sv_registry s') []"
    using empty by (auto simp: registry_calls_def registry_inv_def registry_wf_def within_limits_reached
        active_total_def active_on_def registry_lookup_def)
  with keep empty st show ?thesis
    by (simp add: async_inv_def replies_once_def replies_of_def queue_ok_def log_ok_def)
qed

lemma tryCompleteStop_frame:
  assumes "tryCompleteStop s = (acts, s')"
  shows "sv_registry s' = sv_registry s" "sv_calls s' = sv_calls s" "sv_queue s' = sv_queue s"
    "sv_maxMessageSize s' = sv_maxMessageSize s" "set acts \<subseteq> {StopComplete}"
    "sv_status s' = kNotStarted \<Longrightarrow> sv_status s = kNotStarted \<and> acts = []"
  using assms by (auto simp: tryCompleteStop_def Let_def split: if_splits)

lemma async_inv_tryCompleteStop:
  assumes inv: "async_inv kMax (s, log)" and op: "tryCompleteStop t = (acts, s')"
    and t: "sv_registry t = sv_registry s" "sv_calls t = sv_calls s" "sv_queue t = sv_queue s"
      "sv_maxMessageSize t = sv_maxMessageSize s" "sv_status t = kNotStarted \<Longrightarrow> sv_status s = kNotStarted"
  shows "async_inv kMax (s', log @ map (Pair None) acts)"
proof (rule async_inv_frame[OF inv])
  note frame = tryCompleteStop_frame[OF op]
  show "entry_ok (effectiveMaxMessageSize kMax s) (sv_calls s) (None, a)" if "a \<in> set acts" for a
    using that frame(5) by auto
qed (use inv t tryCompleteStop_frame[OF op] in \<open>auto simp: async_inv_def\<close>)

lemma async_step:
  assumes "server_step le kMax c c'" and "async_inv kMax c"
  shows "async_inv kMax c'"
  using assms
proof (induction rule: server_step_from.induct)
  case (sv_configure s s' log)
  show ?case by (rule async_inv_configure[OF sv_configure(3,2)])
next
  case (sv_start s log created)
  have "sv_registry (RpcServer_start created s) = sv_registry s" "sv_calls (RpcServer_start created s) = sv_calls s"
    "sv_queue (RpcServer_start created s) = sv_queue s"
    "sv_maxMessageSize (RpcServer_start created s) = sv_maxMessageSize s"
    "sv_status (RpcServer_start created s) = kNotStarted \<Longrightarrow> sv_status s = kNotStarted"
    by (cases "sv_taskPool s"; simp add: RpcServer_start_def Let_def split: if_splits)+
  then show ?case
    using sv_start(2) async_inv_frame[OF sv_start(2), of "RpcServer_start created s" "[]"]
    by (simp add: async_inv_def)
next
  case (sv_message s up conn msg acts s' log)
  show ?case by (rule async_inv_message[OF sv_message(4,1,2)])
next
  case (sv_connection s log up conn)
  let ?g = "clearConnectionCancellations conn (sv_registry s)"
  have "registry_calls ?g (sv_calls s)"
    using async_inv_parts(1)[OF sv_connection] by (simp add: registry_calls_removals)
  moreover have "rg_cancellations (sv_registry s) = [] \<Longrightarrow> rg_cancellations ?g = []"
    by (simp add: clearConnectionCancellations_def)
  ultimately show ?case
    using sv_connection by (simp add: server_onConnection_def async_inv_def)
next
  case (sv_reply s i log alive res)
  then show ?case by (simp add: async_inv_reply call_begun_def)
next
  case (sv_throw s i log alive)
  then show ?case by (simp add: async_throw_def async_inv_reply call_begun_def)
next
  case (sv_queued s qs q qs' up alive acts s' log)
  show ?case by (rule async_inv_queued[OF sv_queued(3,1,2)])
next
  case (sv_stop s acts s' log)
  show ?case
  proof (cases "sv_status s = kRunning \<and> sv_taskPool s = None")
    case True
    with sv_stop(1) show ?thesis
      by (intro async_inv_tryCompleteStop[OF sv_stop(2), of "s\<lparr>sv_status := kStopping, sv_taskPoolStopped := True\<rparr>"])
        (auto simp: RpcServer_stop_def onTaskPoolStopped_def)
  next
    case False
    then have "acts = [] \<and> (s' = s \<or> s' = s\<lparr>sv_status := kStopping, sv_stopThread := T_calling\<rparr>)"
      using sv_stop(1) by (auto simp: RpcServer_stop_def split: if_splits option.splits)
    then show ?thesis
      using sv_stop(2) by (auto simp: async_inv_def effectiveMaxMessageSize_def)
  qed
next
  case (sv_tcp_stopped s acts s' log)
  then show ?case
    by (intro async_inv_tryCompleteStop[OF sv_tcp_stopped(2), of "s\<lparr>sv_tcpServerStopped := True\<rparr>"]) (auto simp: onTcpServerStopped_def)
next
  case (sv_pool_stopped s acts s' log)
  then show ?case
    by (intro async_inv_tryCompleteStop[OF sv_pool_stopped(3),
          of "s\<lparr>sv_stopThread := T_done, sv_taskPoolStopped := True\<rparr>"]) (auto simp: run_pool_stopped_def onTaskPoolStopped_def)
qed (auto simp: async_inv_def effectiveMaxMessageSize_def stop_thread_enter_def stop_thread_return_def
    split: option.splits)

definition server_inv :: "nat \<Rightarrow> ('c, 'h, 'w) server_config \<Rightarrow> bool" where
  "server_inv kMax c \<longleftrightarrow> life_inv c \<and> async_inv kMax c"

lemma server_inv_init: "server_init c \<Longrightarrow> server_inv kMax c"
  by (auto simp: server_init_def server_inv_def life_inv_def life_def async_inv_def completions_def
      RpcServer_new_def registry_empty_def registry_calls_def registry_inv_def registry_wf_def
      within_limits_def active_total_def active_on_def registry_lookup_def replies_once_def
      replies_of_def queue_ok_def log_ok_def)

lemma server_inv_step: "server_step le kMax c c' \<Longrightarrow> server_inv kMax c \<Longrightarrow> server_inv kMax c'"
  by (simp add: server_inv_def life_step async_step)

interpretation server: invariant_system server_init "server_step le kMax" "server_inv kMax" for le kMax
  by unfold_locales (auto intro: server_inv_init server_inv_step)

lemma server_reachable_inv: "server_reachable le kMax c \<Longrightarrow> server_inv kMax c"
  unfolding server_reachable_def by (metis server.inv_reachable server_init_def)

subsection \<open>Executing a schedule\<close>

text \<open>The relation as a function of an event, for concrete runs; connections are up unless the event
  says otherwise.\<close>

datatype ('c, 'h) server_event =
    E_async string string 'h | E_workers u8 | E_limit u64 | E_callback | E_start nat
  | E_message 'c string | E_closed 'c | E_reply nat RpcResult | E_throw nat | E_queued
  | E_pool "nat pool_event" | E_stop | E_tcp_stopped | E_enter | E_return | E_pool_stopped

definition silent :: "('c, 'h, 'w) server option \<Rightarrow> 'c action_log \<Rightarrow> ('c, 'h, 'w) server_config option" where
  "silent so log = map_option (\<lambda>s. (s, log)) so"

definition logged :: "nat option \<Rightarrow> 'c action list \<times> ('c, 'h, 'w) server \<Rightarrow> 'c action_log \<Rightarrow> ('c, 'h, 'w) server_config option" where
  "logged src r log = (case r of (acts, s) \<Rightarrow> Some (s, log @ map (Pair src) acts))"

fun server_exec :: "bool \<Rightarrow> nat \<Rightarrow> ('c, 'h) server_event \<Rightarrow> ('c, 'h, 'w) server_config \<Rightarrow>
    ('c, 'h, 'w) server_config option" where
  "server_exec le kMax (E_async sv m h) (s, log) =
     (if base_loop_free s then silent (map_option snd (registerAsyncMethod sv m (Some h) s)) log else None)"
| "server_exec le kMax (E_workers n) (s, log) =
     (if base_loop_free s then silent (setWorkerThreadNum n s) log else None)"
| "server_exec le kMax (E_limit n) (s, log) =
     (if base_loop_free s then silent (setMaxActiveRequests n s) log else None)"
| "server_exec le kMax E_callback (s, log) =
     (if base_loop_free s then silent (server_setStopCompleteCallback True s) log else None)"
| "server_exec le kMax (E_start created) (s, log) =
     (if base_loop_free s then Some (RpcServer_start created s, log) else None)"
| "server_exec le kMax (E_message c msg) (s, log) =
     (if sv_status s \<noteq> kNotStarted then logged None (server_onRpcMessage le kMax (\<lambda>_. True) c msg s) log else None)"
| "server_exec le kMax (E_closed c) (s, log) = Some (server_onConnection (\<lambda>_. False) c s, log)"
| "server_exec le kMax (E_reply i res) (s, log) =
     (if call_begun s i then Some (async_reply i True res s, log) else None)"
| "server_exec le kMax (E_throw i) (s, log) =
     (if call_begun s i then Some (async_throw i True s, log) else None)"
| "server_exec le kMax E_queued (s, log) =
     (case sv_queue s of [] \<Rightarrow> None
      | q # qs \<Rightarrow> logged (Some (qr_call q)) (run_queued_reply le kMax (\<lambda>_. True) True q (s\<lparr>sv_queue := qs\<rparr>)) log)"
| "server_exec le kMax (E_pool e) (s, log) =
     (case sv_taskPool s of None \<Rightarrow> None
      | Some p \<Rightarrow> if internal_event e
                  then silent (map_option (\<lambda>p'. s\<lparr>sv_taskPool := Some p'\<rparr>) (pool_exec e p)) log else None)"
| "server_exec le kMax E_stop (s, log) = logged None (RpcServer_stop s) log"
| "server_exec le kMax E_tcp_stopped (s, log) = logged None (onTcpServerStopped s) log"
| "server_exec le kMax E_enter (s, log) =
     (if sv_stopThread s = T_calling then Some (stop_thread_enter s, log) else None)"
| "server_exec le kMax E_return (s, log) =
     (case sv_taskPool s of None \<Rightarrow> None
      | Some p \<Rightarrow> if sv_stopThread s = T_waiting \<and> pl_phase p = J_none then Some (stop_thread_return s, log) else None)"
| "server_exec le kMax E_pool_stopped (s, log) =
     (if sv_stopThread s = T_queued then logged None (run_pool_stopped s) log else None)"

lemma server_exec_step_from:
  assumes "server_exec le kMax e c = Some c'"
  shows "server_step_from (\<lambda>conn msg. e = E_message conn msg)
    (\<lambda>h payload res. \<exists>i. e = E_reply i res \<and> h = ac_handler (sv_calls (fst c) ! i) \<and> payload = ac_payload (sv_calls (fst c) ! i))
    le kMax c c'"
proof (cases c)
  case (Pair s log)
  show ?thesis
  proof (cases e)
    case E_queued
    then show ?thesis
      using assms Pair sv_queued[of s "[]"]
      by (auto simp: logged_def split: list.splits prod.splits)
  next
    case (E_pool pe)
    then show ?thesis
      using assms Pair
      by (auto simp: silent_def split: option.splits if_splits intro!: sv_pool pool_exec_internal)
  qed (use assms Pair in \<open>auto simp: silent_def logged_def split: if_splits prod.splits option.splits
      intro: server_step_from.intros server_configure.intros\<close>)
qed

lemma server_exec_step: "server_exec le kMax e c = Some c' \<Longrightarrow> server_step le kMax c c'"
  by (rule server_step_from_step[OF server_exec_step_from])

fun server_run :: "bool \<Rightarrow> nat \<Rightarrow> ('c, 'h) server_event list \<Rightarrow> ('c, 'h, 'w) server_config \<Rightarrow>
    ('c, 'h, 'w) server_config option" where
  "server_run le kMax [] c = Some c"
| "server_run le kMax (e # es) c = Option.bind (server_exec le kMax e c) (server_run le kMax es)"

lemma server_run_steps: "server_run le kMax es c = Some c' \<Longrightarrow> (server_step le kMax)\<^sup>*\<^sup>* c c'"
proof (induction es arbitrary: c)
  case (Cons e es)
  then obtain d where "server_exec le kMax e c = Some d" "server_run le kMax es d = Some c'"
    by (auto split: Option.bind_splits)
  then show ?case by (intro converse_rtranclp_into_rtranclp[OF server_exec_step Cons.IH])
qed simp

lemma server_run_reachable:
  "server_run le kMax es (RpcServer_new w, []) = Some c \<Longrightarrow> server_reachable le kMax c"
  unfolding server_reachable_def using server_run_steps by blast

text \<open>The facts by which the simplifier executes a schedule.\<close>

lemma length_request_wire_eq:
  "length (request_wire r) = 23 + length (rq_service r) + length (rq_method r) + length (rq_payload r)"
  by (simp add: request_wire_def)

lemmas server_eval = RpcServer_new_def base_loop_free_def silent_def logged_def registerAsyncMethod_def
  registered_simps table_find_def table_insert_def RpcServer_start_def onRpcMessage_request onRpcMessage_cancel
  request_valid_def length_request_wire_eq effectiveMaxMessageSize_def server_dispatch_def
  invokeAsyncHandler_def registerToken_def registry_empty_def count_active_def submit_call_def
  pool_submit_def cancelAsync_def registry_cancel_def erase_request_def call_begun_def async_reply_def
  async_throw_def invalidRpcResult_def run_queued_reply_def registry_take_def isCanceled_def
  sendFramedData_eq fitted_response_fits outcome_valid_def frames_for_def Let_def setWorkerThreadNum_def
  TaskThreadPool_new_def pool.extend_def server_setStopCompleteCallback_def setMaxActiveRequests_def
  RpcServer_stop_def onTcpServerStopped_def tryCompleteStop_def onTaskPoolStopped_def stop_thread_enter_def
  stop_thread_return_def run_pool_stopped_def sendResponse_eq pool_eval

subsection \<open>Properties of runs\<close>

text \<open>A request as a byte string, for concrete runs.\<close>

abbreviation request_bytes :: "u64 \<Rightarrow> string \<Rightarrow> string" where
  "request_bytes rid payload \<equiv>
     request_wire \<lparr>rq_requestId = rid, rq_service = ''S'', rq_method = ''m'', rq_payload = payload\<rparr>"

abbreviation reply_with :: "string \<Rightarrow> RpcResult" where
  "reply_with payload \<equiv> RpcResult_make kSuccess NO_ERROR payload []"

text \<open>C3: however often, whenever and from whichever thread the handler of an asynchronous request calls
  its reply function, throws, or is refused by the pool, the server sends at most one response for that
  invocation; the response goes to the connection of the request and carries its request id.\<close>

theorem async_reply_at_most_once:
  assumes "server_reachable le kMax (s, log)"
  shows "count_list (map fst log) (Some i) \<le> 1 \<and>
    (\<forall>c bs. (Some i, SendFrame c bs) \<in> set log \<longrightarrow>
       i < length (sv_calls s) \<and> ac_conn (sv_calls s ! i) = c \<and>
       (\<exists>r. bs = response_wire r \<and> response_valid r \<and> rs_requestId r = ac_requestId (sv_calls s ! i)))"
proof -
  have inv: "async_inv kMax (s, log)" using server_reachable_inv[OF assms] by (simp add: server_inv_def)
  note parts = async_inv_parts[OF inv]
  have "replies_of (sv_queue s) log i \<le> 1"
    using parts(2)[unfolded replies_once_def, rule_format, of i] by (simp split: if_splits)
  then show ?thesis using parts(4) by (fastforce simp: replies_of_def log_ok_def)
qed

text \<open>In every reachable state, everything the server has asked the transport to send is a valid
  response no longer than the size limit, and nothing it did was undefined behaviour.\<close>

theorem server_log_wellformed:
  assumes "server_reachable le kMax (s, log)" and "(src, a) \<in> set log"
  shows "a \<noteq> Undefined \<and> (\<forall>c bs. a = SendFrame c bs \<longrightarrow>
    (\<exists>r. bs = response_wire r \<and> response_valid r) \<and> length bs \<le> effectiveMaxMessageSize kMax s)"
proof -
  have "async_inv kMax (s, log)" using server_reachable_inv[OF assms(1)] by (simp add: server_inv_def)
  then have "entry_ok (effectiveMaxMessageSize kMax s) (sv_calls s) (src, a)"
    using assms(2) by (auto simp: async_inv_def log_ok_def)
  then show ?thesis by (cases a) auto
qed

text \<open>C35: the number of active asynchronous requests never exceeds the configured limits, in total and
  per connection; every active request belongs to an invocation that has not been cancelled.\<close>

theorem server_within_limits:
  assumes "server_reachable le kMax (s, log)"
  shows "within_limits (sv_registry s) \<and>
    (\<forall>c k t. registry_lookup (sv_registry s) c k = Some t \<longrightarrow>
       t < length (sv_calls s) \<and> ac_conn (sv_calls s ! t) = c \<and> ac_requestId (sv_calls s ! t) = k \<and>
       \<not> isCanceled (sv_registry s) t)"
  using server_reachable_inv[OF assms]
  by (auto simp: server_inv_def async_inv_def registry_calls_def registry_inv_def)

text \<open>C20: the callback for the end of \<open>stop\<close> is made at most once, and only when the TCP server has
  stopped and, if there is a pool, every task it ever accepted has run and its workers are gone.\<close>

theorem server_stop_complete:
  assumes "server_reachable le kMax (s, log)"
  shows "completions log \<le> 1 \<and>
    (completions log = 1 \<longrightarrow> sv_status s = kStopped \<and> sv_tcpServerStopped s \<and>
       (\<forall>p. sv_taskPool s = Some p \<longrightarrow> pl_tasks p = [] \<and> pl_threads p = [] \<and>
          mset (pl_finished p) = mset (pl_accepted p)))"
proof -
  have inv: "life_inv (s, log)" using server_reachable_inv[OF assms] by (simp add: server_inv_def)
  have drained: "pl_tasks p = [] \<and> pl_threads p = [] \<and> mset (pl_finished p) = mset (pl_accepted p)"
    if "sv_taskPool s = Some p" "pl_status p = STOPPED" for p
  proof -
    have "pool_inv p" using inv that(1) pool_reachable_inv by (auto simp: life_inv_def)
    with that(2) show ?thesis
      by (auto simp: pool_inv_def pool_ctl_def pool_phases_def pool_exits_def pool_flow_def)
  qed
  with inv show ?thesis
    by (cases "sv_status s") (auto simp: life_inv_def life_def)
qed

text \<open>Concrete runs. In the first, one request is answered twice by its handler; in the second a limit
  of one active request is reached; in the third a server with one worker stops with a task in the
  queue.\<close>

abbreviation reply_schedule :: "(nat, nat) server_event list" where
  "reply_schedule \<equiv> [E_async ''S'' ''m'' 0, E_start 0, E_message 0 (request_bytes 7 ''a''),
     E_reply 0 (reply_with ''x''), E_reply 0 (reply_with ''y''), E_queued]"

lemma reply_schedule_run:
  "\<exists>s :: (nat, nat, unit) server. server_run True 67108864 reply_schedule (RpcServer_new (), []) =
     Some (s, [(Some 0, SendFrame 0 (response_wire (RpcResponse_make 7 kSuccess NO_ERROR ''x'' [])))])"
  by (simp add: server_eval)

theorem async_reply_at_most_once_witness:
  "\<exists>(s :: (nat, nat, unit) server) log. server_run True 67108864 reply_schedule (RpcServer_new (), []) = Some (s, log) \<and>
     log = [(Some 0, SendFrame 0 (response_wire (RpcResponse_make 7 kSuccess NO_ERROR ''x'' [])))] \<and>
     count_list (map fst log) (Some 0) \<le> 1"
proof -
  obtain s :: "(nat, nat, unit) server" where s: "server_run True 67108864 reply_schedule (RpcServer_new (), []) =
      Some (s, [(Some 0, SendFrame 0 (response_wire (RpcResponse_make 7 kSuccess NO_ERROR ''x'' [])))])"
    using reply_schedule_run by blast
  from async_reply_at_most_once[OF server_run_reachable[OF s], of 0] s show ?thesis by blast
qed

theorem server_log_wellformed_witness:
  "\<exists>(s :: (nat, nat, unit) server) bs. server_run True 67108864 reply_schedule (RpcServer_new (), []) =
       Some (s, [(Some 0, SendFrame 0 bs)]) \<and> length bs \<le> effectiveMaxMessageSize 67108864 s"
proof -
  obtain s :: "(nat, nat, unit) server" and bs where
    s: "server_run True 67108864 reply_schedule (RpcServer_new (), []) = Some (s, [(Some 0, SendFrame 0 bs)])"
    using reply_schedule_run by blast
  from server_log_wellformed[OF server_run_reachable[OF s], of "Some 0" "SendFrame 0 bs"] s show ?thesis by auto
qed

abbreviation limit_schedule :: "(nat, nat) server_event list" where
  "limit_schedule \<equiv> [E_async ''S'' ''m'' 0, E_limit 1, E_start 0, E_message 0 (request_bytes 7 ''a''),
     E_message 1 (request_bytes 7 ''b'')]"

theorem server_within_limits_witness:
  "\<exists>(s :: (nat, nat, unit) server) log. server_run True 67108864 limit_schedule (RpcServer_new (), []) = Some (s, log) \<and>
     log = [(None, SendFrame 1 (response_wire (RpcResponse_make 7 kUnsuccess RESOURCE_EXHAUSTED []
       ''server request limit reached'')))] \<and>
     rg_maxActiveRequests (sv_registry s) = Some 1 \<and> within_limits (sv_registry s)"
proof -
  obtain s :: "(nat, nat, unit) server" and log where
    s: "server_run True 67108864 limit_schedule (RpcServer_new (), []) = Some (s, log)"
    "log = [(None, SendFrame 1 (response_wire (RpcResponse_make 7 kUnsuccess RESOURCE_EXHAUSTED []
       ''server request limit reached'')))]" "rg_maxActiveRequests (sv_registry s) = Some 1"
    by (simp add: server_eval word_less_nat_alt)
  from server_within_limits[OF server_run_reachable[OF s(1)]] s show ?thesis by blast
qed

abbreviation stop_schedule :: "(nat, nat) server_event list" where
  "stop_schedule \<equiv> [E_async ''S'' ''m'' 0, E_workers 1, E_callback, E_start 1, E_message 0 (request_bytes 7 ''a''),
     E_stop, E_enter, E_tcp_stopped, E_pool Ev_notify_all, E_pool (Ev_check 0), E_pool (Ev_finish 0),
     E_pool (Ev_check 0), E_pool Ev_join, E_pool Ev_join, E_pool Ev_stopped, E_return, E_pool_stopped]"

theorem server_stop_complete_witness:
  "\<exists>(s :: (nat, nat, unit) server) p. server_run True 67108864 stop_schedule (RpcServer_new (), []) =
       Some (s, [(None, StopComplete)]) \<and> sv_taskPool s = Some p \<and> pl_finished p = [0] \<and>
     sv_status s = kStopped \<and> pl_tasks p = [] \<and> mset (pl_finished p) = mset (pl_accepted p)"
proof -
  obtain s :: "(nat, nat, unit) server" and p where
    s: "server_run True 67108864 stop_schedule (RpcServer_new (), []) = Some (s, [(None, StopComplete)])"
    "sv_taskPool s = Some p" "pl_finished p = [0]"
    by (simp add: server_eval)
  have "completions [(None, StopComplete :: nat action)] = 1" by (simp add: completions_def)
  with server_stop_complete[OF server_run_reachable[OF s(1)]] s show ?thesis by auto
qed

text \<open>Cancelled stays cancelled, and invocations are only added.\<close>

definition calls_grow :: "('c, 'h, 'w) server \<Rightarrow> ('c, 'h, 'w) server \<Rightarrow> bool" where
  "calls_grow s s' \<longleftrightarrow> length (sv_calls s) \<le> length (sv_calls s') \<and>
     (\<forall>i < length (sv_calls s). ac_conn (sv_calls s' ! i) = ac_conn (sv_calls s ! i) \<and>
        ac_requestId (sv_calls s' ! i) = ac_requestId (sv_calls s ! i) \<and>
        (isCanceled (sv_registry s) i \<longrightarrow> isCanceled (sv_registry s') i))"

lemma calls_grow_refl [simp]: "calls_grow s s"
  by (simp add: calls_grow_def)

lemma calls_grow_trans: "calls_grow s t \<Longrightarrow> calls_grow t u \<Longrightarrow> calls_grow s u"
  unfolding calls_grow_def by (auto dest: less_le_trans)

lemma calls_grow_same:
  "sv_calls s' = sv_calls s \<Longrightarrow> (\<And>i. isCanceled (sv_registry s) i \<Longrightarrow> i < length (sv_calls s) \<Longrightarrow> isCanceled (sv_registry s') i) \<Longrightarrow>
     calls_grow s s'"
  by (simp add: calls_grow_def)

lemma calls_grow_reply: "calls_grow s (async_reply i alive res s)"
proof (cases "i < length (sv_calls s)")
  case True
  then show ?thesis
    by (cases rule: async_reply_cases[of i s alive res]) (auto simp: calls_grow_def)
next
  case False
  then show ?thesis
    by (simp add: async_reply_def calls_grow_def Let_def list_update_beyond)
qed

lemma calls_grow_submit: "calls_grow s (submit_call i s)"
  by (cases rule: submit_call_cases[of s i]) (auto simp: calls_grow_reply intro: calls_grow_same)

lemma calls_grow_message:
  assumes op: "server_onRpcMessage le kMax up conn msg s = (acts, s')" and reg: "registry_wf (sv_registry s)"
  shows "calls_grow s s'"
  using op
proof (cases rule: message_cases)
  case (cancel k)
  then show ?thesis by (intro calls_grow_same) (simp_all add: cancelAsync_def reg.cancel_canceled)
next
  case (refused st g r)
  then show ?thesis by (intro calls_grow_same) (simp_all add: register_call_flags)
next
  case (accepted g r h)
  let ?s = "s\<lparr>sv_registry := g, sv_calls := sv_calls s @ [new_call conn r h]\<rparr>"
  have "calls_grow s ?s"
    using accepted(2) by (simp add: calls_grow_def nth_append register_call_flags)
  then show ?thesis using calls_grow_submit accepted calls_grow_trans by blast
qed (auto intro: calls_grow_same)

lemma calls_grow_step:
  assumes "server_step le kMax (s, log) (s', log')" and inv: "async_inv kMax (s, log)"
  shows "calls_grow s s'"
proof -
  have wf: "registry_wf (sv_registry s)"
    using async_inv_parts(1)[OF inv] by (rule registry_calls_wf)
  from assms(1) show ?thesis
  proof (cases rule: server_step_from.cases)
    case sv_configure
    then have "sv_calls s = []" using sv_status_not_started(1) inv by (fastforce simp: async_inv_def)
    then show ?thesis by (simp add: calls_grow_def)
  next
    case (sv_start created)
    then show ?thesis
      by (intro calls_grow_same; cases "sv_taskPool s") (simp_all add: RpcServer_start_def Let_def)
  next
    case sv_message
    with wf show ?thesis by (blast intro: calls_grow_message)
  next
    case (sv_connection up conn)
    then show ?thesis
      by (intro calls_grow_same) (simp_all add: server_onConnection_def reg.clear_canceled[OF wf])
  next
    case (sv_queued qs q qs' up alive acts)
    from sv_queued(3) show ?thesis
      by (cases rule: run_queued_reply_cases; intro calls_grow_same) (simp_all add: reg.take_canceled)
  next
    case (sv_stop acts)
    then show ?thesis
      by (intro calls_grow_same)
        (auto simp: RpcServer_stop_def onTaskPoolStopped_def Let_def dest: tryCompleteStop_frame
          split: if_splits option.splits)
  next
    case (sv_tcp_stopped acts)
    then show ?thesis
      by (intro calls_grow_same) (auto simp: onTcpServerStopped_def dest: tryCompleteStop_frame)
  next
    case (sv_pool_stopped acts)
    then show ?thesis
      by (intro calls_grow_same) (auto simp: run_pool_stopped_def onTaskPoolStopped_def dest: tryCompleteStop_frame)
  qed (auto simp: calls_grow_reply async_throw_def stop_thread_enter_def stop_thread_return_def
      intro: calls_grow_same split: option.split)
qed

text \<open>A step sends nothing for a cancelled invocation whose connection and request id no other
  invocation shares: nothing is registered under them.\<close>

definition sole_call :: "('c, 'h, 'w) server \<Rightarrow> nat \<Rightarrow> bool" where
  "sole_call s i \<longleftrightarrow> (\<forall>j < length (sv_calls s). ac_conn (sv_calls s ! j) = ac_conn (sv_calls s ! i) \<and>
     ac_requestId (sv_calls s ! j) = ac_requestId (sv_calls s ! i) \<longrightarrow> j = i)"

lemma sole_call_shrink:
  assumes "calls_grow s s'" and "i < length (sv_calls s)" and "sole_call s' i"
  shows "sole_call s i"
proof -
  have same: "ac_conn (sv_calls s' ! j) = ac_conn (sv_calls s ! j)"
    "ac_requestId (sv_calls s' ! j) = ac_requestId (sv_calls s ! j)" "j < length (sv_calls s')"
    if "j < length (sv_calls s)" for j
    using assms(1) that by (auto simp: calls_grow_def)
  show ?thesis
    using assms(3) same same(1,2)[OF assms(2)] by (simp add: sole_call_def)
qed

lemma count_list_source [simp]: "count_list (map (fst \<circ> Pair x) acts) y = (if x = y then length acts else 0)"
  by (induction acts) auto

lemma canceled_step_silent:
  assumes step: "server_step le kMax (s, log) (s', log')" and inv: "async_inv kMax (s, log)"
    and i: "i < length (sv_calls s)" "isCanceled (sv_registry s) i" "sole_call s i"
  shows "count_list (map fst log') (Some i) = count_list (map fst log) (Some i)"
  using step
proof (cases rule: server_step_from.cases)
  case (sv_queued qs q qs' up alive acts)
  note parts = async_inv_parts[OF inv]
  have q: "qr_conn q = ac_conn (sv_calls s ! qr_call q)" "qr_requestId q = ac_requestId (sv_calls s ! qr_call q)"
    using parts(3) sv_queued(2) by (auto simp: queue_ok_def)
  have "acts = []" if "qr_call q = i"
  proof -
    have "registry_lookup (sv_registry s) (qr_conn q) (qr_requestId q) = None"
    proof (rule ccontr)
      assume "registry_lookup (sv_registry s) (qr_conn q) (qr_requestId q) \<noteq> None"
      then obtain t where "registry_lookup (sv_registry s) (qr_conn q) (qr_requestId q) = Some t" by auto
      with parts(1) have "t < length (sv_calls s)" "ac_conn (sv_calls s ! t) = qr_conn q"
        "ac_requestId (sv_calls s ! t) = qr_requestId q" "\<not> isCanceled (sv_registry s) t"
        by (auto simp: registry_calls_def)
      with i(2,3) q that show False by (auto simp: sole_call_def)
    qed
    with sv_queued(3) show ?thesis by (cases rule: run_queued_reply_cases) auto
  qed
  with sv_queued(1) show ?thesis
    by (cases "qr_call q = i") simp_all
qed auto

lemma server_reachable_steps:
  "server_reachable le kMax c \<Longrightarrow> (server_step le kMax)\<^sup>*\<^sup>* c c' \<Longrightarrow> server_reachable le kMax c'"
  unfolding server_reachable_def by (meson rtranclp_trans)

lemma server_reachable_async: "server_reachable le kMax c \<Longrightarrow> async_inv kMax c"
  using server_reachable_inv[of le kMax c] by (simp add: server_inv_def)

lemma calls_grow_steps:
  assumes "server_reachable le kMax (s, log)" and "(server_step le kMax)\<^sup>*\<^sup>* (s, log) (s', log')"
  shows "calls_grow s s'"
  using assms(2)
proof (induction "(s', log')" arbitrary: s' log' rule: rtranclp_induct)
  case (step c)
  obtain t lg where c: "c = (t, lg)" by (cases c)
  have "async_inv kMax (t, lg)"
    using server_reachable_async[OF server_reachable_steps[OF assms(1)]] step(1) c by blast
  then have "calls_grow t s'" using calls_grow_step step(2) c by blast
  with step(3) c show ?case by (blast intro: calls_grow_trans)
qed simp

text \<open>C25: once an asynchronous request is cancelled, by a cancel message of the peer or because its
  connection went down, nothing its handler does leads to a response any more, as long as the peer has
  not used the same request id again on the same connection.\<close>

theorem canceled_request_not_answered:
  assumes reach: "server_reachable le kMax (s, log)" and i: "i < length (sv_calls s)" "isCanceled (sv_registry s) i"
    and "(server_step le kMax)\<^sup>*\<^sup>* (s, log) (s', log')" and "sole_call s' i"
  shows "count_list (map fst log') (Some i) = count_list (map fst log) (Some i)"
  using assms(4,5)
proof (induction "(s', log')" arbitrary: s' log' rule: rtranclp_induct)
  case (step c)
  obtain t lg where c: "c = (t, lg)" by (cases c)
  have inv: "async_inv kMax (t, lg)"
    using server_reachable_async[OF server_reachable_steps[OF reach]] step(1) c by blast
  have "calls_grow s t" using calls_grow_steps[OF reach] step(1) c by blast
  then have t: "i < length (sv_calls t)" "isCanceled (sv_registry t) i"
    using i by (auto simp: calls_grow_def)
  have "calls_grow t s'" using calls_grow_step inv step(2) c by blast
  then have sole: "sole_call t i" using t(1) step(4) by (rule sole_call_shrink)
  have "count_list (map fst log') (Some i) = count_list (map fst lg) (Some i)"
    using canceled_step_silent[OF _ inv t sole] step(2) c by blast
  with step(3)[OF c sole] show ?case by simp
qed simp

abbreviation cancel_schedule :: "(nat, nat) server_event list" where
  "cancel_schedule \<equiv> [E_async ''S'' ''m'' 0, E_start 0, E_message 0 (request_bytes 7 ''a''),
     E_message 0 (cancel_wire \<lparr>cn_requestId = 7\<rparr>)]"

theorem canceled_request_not_answered_witness:
  "\<exists>(s :: (nat, nat, unit) server) log s' log'.
     server_run True 67108864 cancel_schedule (RpcServer_new (), []) = Some (s, log) \<and>
     server_run True 67108864 [E_reply 0 (reply_with ''x''), E_queued] (s, log) = Some (s', log') \<and>
     isCanceled (sv_registry s) 0 \<and> log = [] \<and>
     count_list (map fst log') (Some 0) = count_list (map fst log) (Some 0)"
proof -
  obtain s :: "(nat, nat, unit) server" and log s' log' where
    s: "server_run True 67108864 cancel_schedule (RpcServer_new (), []) = Some (s, log)"
      "server_run True 67108864 [E_reply 0 (reply_with ''x''), E_queued] (s, log) = Some (s', log')"
      "0 < length (sv_calls s)" "isCanceled (sv_registry s) 0" "log = []" "sole_call s' 0"
    by (simp add: server_eval sole_call_def)
  note silent = canceled_request_not_answered[OF server_run_reachable[OF s(1)] s(3,4) server_run_steps[OF s(2)] s(6)]
  show ?thesis by (intro exI[of _ s] exI[of _ log] exI[of _ s'] exI[of _ log'] conjI s silent)
qed

subsection \<open>Stopping comes to an end\<close>

definition can_stop :: "bool \<Rightarrow> nat \<Rightarrow> ('c, 'h, 'w) server_config \<Rightarrow> bool" where
  "can_stop le kMax c \<longleftrightarrow> (\<exists>s log. (server_step le kMax)\<^sup>*\<^sup>* c (s, log) \<and> sv_status s = kStopped)"

lemma can_stop_step: "server_step le kMax c c' \<Longrightarrow> can_stop le kMax c' \<Longrightarrow> can_stop le kMax c"
  unfolding can_stop_def by (meson converse_rtranclp_into_rtranclp)

lemma can_stop_pool:
  "pool_internal\<^sup>*\<^sup>* p q \<Longrightarrow> sv_taskPool s = Some p \<Longrightarrow> can_stop le kMax (s\<lparr>sv_taskPool := Some q\<rparr>, log) \<Longrightarrow>
     can_stop le kMax (s, log)"
proof (induction arbitrary: s rule: converse_rtranclp_induct)
  case base
  have "s\<lparr>sv_taskPool := Some q\<rparr> = s" using base(1) by simp
  with base(2) show ?case by (simp only:)
next
  case (step p r)
  show ?case
    by (rule can_stop_step[OF sv_pool[OF step(4,1)]]) (use step in simp)
qed

lemma can_stop_queued:
  assumes "sv_status s = kStopping" "sv_tcpServerStopped s" "sv_stopThread s = T_queued"
  shows "can_stop le kMax (s, log)"
proof -
  obtain acts s' where run: "run_pool_stopped s = (acts, s')" by fastforce
  with assms have "sv_status s' = kStopped"
    by (auto simp: run_pool_stopped_def onTaskPoolStopped_def tryCompleteStop_def Let_def)
  then show ?thesis
    using sv_pool_stopped[OF assms(3) run] unfolding can_stop_def by (meson r_into_rtranclp)
qed

lemma can_stop_waiting:
  assumes "sv_status s = kStopping" "sv_tcpServerStopped s" "sv_stopThread s = T_waiting"
    and "sv_taskPool s = Some p" "pool_inv p" "pl_status p = STOPPED"
  shows "can_stop le kMax (s, log)"
proof -
  have "pl_phase p = J_none" using assms(5,6) by (simp add: pool_inv_def pool_ctl_def pool_phases_def)
  from sv_thread_return[OF assms(3,4) this] show ?thesis
    by (rule can_stop_step) (use assms in \<open>simp add: stop_thread_return_def can_stop_queued\<close>)
qed

lemma can_stop_stopping:
  assumes s: "sv_status s = kStopping" "sv_tcpServerStopped s" "sv_stopThread s = T_waiting" "sv_taskPool s = Some p"
    and p: "pool_inv p" "pl_status p = STOPPING"
  shows "can_stop le kMax (s, log)"
proof -
  obtain q where q: "pool_internal\<^sup>*\<^sup>* p q" "pl_status q = STOPPED" using pool_stopping_completes[OF p] by blast
  have "pool_step\<^sup>*\<^sup>* p q" using q(1) by (rule mono_rtranclp[rule_format, rotated]) (simp add: pool_step_def)
  then have "pool_inv q" using p(1) by (rule pool.inv_steps)
  with q s show ?thesis by (intro can_stop_pool[OF q(1) s(4)] can_stop_waiting[where p = q]) simp_all
qed

text \<open>C31: a stopping server is never stuck. From every reachable state in which \<open>stop\<close> has been called
  and the TCP server has reported its end, the worker threads, the stop thread and the base loop can run
  on to the state \<open>kStopped\<close>, provided begun tasks return.\<close>

theorem server_stop_can_complete:
  assumes "server_reachable le kMax (s, log)" and "sv_status s = kStopping" and "sv_tcpServerStopped s"
  shows "can_stop le kMax (s, log)"
proof -
  have inv: "life_inv (s, log)" using server_reachable_inv[OF assms(1)] by (simp add: server_inv_def)
  then consider (calling) p where "sv_stopThread s = T_calling" "sv_taskPool s = Some p" "pl_status p \<in> {RUNNING, STOPPED}"
    | (waiting) p where "sv_stopThread s = T_waiting" "sv_taskPool s = Some p" "pl_status p \<in> {STOPPING, STOPPED}"
    | (queued) "sv_stopThread s = T_queued"
    using assms(2,3) by (cases "sv_stopThread s") (auto simp: life_inv_def life_def)
  then show ?thesis
  proof cases
    case (calling p)
    let ?t = "stop_thread_enter s"
    have "pool_reachable (stop_begin p)"
      using inv calling(2) call_stop[of p] by (auto simp: life_inv_def pool_step_def intro: pool_reachable_step)
    then have p: "pool_inv (stop_begin p)" by (rule pool_reachable_inv)
    have "can_stop le kMax (?t, log)"
    proof (cases "pl_status p = RUNNING")
      case True
      with calling assms(2,3) p show ?thesis
        by (intro can_stop_stopping[where p = "stop_begin p"]) (simp_all add: stop_thread_enter_def stop_begin_def)
    next
      case False
      with calling assms(2,3) show ?thesis by (intro can_stop_queued) (simp_all add: stop_thread_enter_def)
    qed
    with sv_thread_enter[OF calling(1)] show ?thesis by (rule can_stop_step)
  next
    case (waiting p)
    then have "pool_inv p" using inv pool_reachable_inv by (auto simp: life_inv_def)
    with waiting assms(2,3) show ?thesis using can_stop_stopping can_stop_waiting by blast
  next
    case queued
    with assms(2,3) show ?thesis by (rule can_stop_queued)
  qed
qed

theorem server_stop_can_complete_witness:
  "\<exists>(s :: (nat, nat, unit) server) log. server_run True 67108864 (take 8 stop_schedule) (RpcServer_new (), []) = Some (s, log) \<and>
     sv_stopThread s = T_waiting \<and> map_option pl_tasks (sv_taskPool s) = Some [0] \<and> can_stop True 67108864 (s, log)"
proof -
  obtain s :: "(nat, nat, unit) server" and log where
    s: "server_run True 67108864 (take 8 stop_schedule) (RpcServer_new (), []) = Some (s, log)"
      "sv_status s = kStopping" "sv_tcpServerStopped s" "sv_stopThread s = T_waiting"
      "map_option pl_tasks (sv_taskPool s) = Some [0]"
    by (simp add: server_eval)
  show ?thesis
    by (intro exI[of _ s] exI[of _ log] conjI s server_stop_can_complete[OF server_run_reachable[OF s(1)] s(2,3)])
qed

end
