(* ===== verification/Rpc_Server_Answers.thy ===== *)
theory Rpc_Server_Answers
  imports Rpc_Server_Runs
begin

section \<open>What the server answers\<close>

text \<open>
  A specification of the server as a whole: which responses a request may get (\<open>answers\<close>), given its method
  tables and what the handlers may reply. Every frame the server sends in any run is such an answer to a
  request it has received on that connection, under the id of the request.
\<close>

subsection \<open>The answers to a request\<close>

text \<open>Failures the server itself gives as the result of an asynchronous request.\<close>

definition async_failures :: "RpcResult set" where
  "async_failures = pool_refusals \<union>
     {RpcResult_make kUnsuccess INTERNAL_ERROR [] ''handler exception'',
      RpcResult_make kUnsuccess RESOURCE_EXHAUSTED [] ''server request limit reached''}"

definition not_found :: RpcResult where
  "not_found = RpcResult_make kUnsuccess METHOD_NOT_FOUND [] ''service or method not exist''"

text \<open>The results of a request: the checked result of the synchronous handler on the payload, in some state
  of the application; one the asynchronous handler may reply with, checked, or a failure of the server; or that there
  is no such method.\<close>

definition outcome_of ::
  "('h \<Rightarrow> string \<Rightarrow> RpcResult \<Rightarrow> bool) \<Rightarrow> ('c, 'h, 'w) server \<Rightarrow> RpcRequest \<Rightarrow> RpcResult \<Rightarrow> bool" where
  "outcome_of R s rq res \<longleftrightarrow>
     (case table_find (rq_service rq) (rq_method rq) (sv_syncHandlers s) of
        Some h \<Rightarrow> \<exists>w. res = checked_result (fst (h (rq_payload rq) w))
      | None \<Rightarrow>
          (case table_find (rq_service rq) (rq_method rq) (sv_asyncHandlers s) of
             Some h \<Rightarrow> res \<in> async_failures \<or> (\<exists>reply. R h (rq_payload rq) reply \<and> res = checked_result (Some reply))
           | None \<Rightarrow> res = not_found))"

definition answers ::
  "('h \<Rightarrow> string \<Rightarrow> RpcResult \<Rightarrow> bool) \<Rightarrow> nat \<Rightarrow> ('c, 'h, 'w) server \<Rightarrow> RpcRequest \<Rightarrow> RpcResponse \<Rightarrow> bool" where
  "answers R kMax s rq r \<longleftrightarrow>
     (\<exists>res. outcome_of R s rq res \<and> fitted_result (effectiveMaxMessageSize kMax s) (rq_requestId rq) res = Some r)"

lemma answers_id: "answers R kMax s rq r \<Longrightarrow> rs_requestId r = rq_requestId rq"
  by (auto simp: answers_def fitted_result_def dest: fitted_response_ok)

text \<open>Method tables and size limit; nothing else matters for the answers.\<close>

definition same_tables :: "('c, 'h, 'w) server \<Rightarrow> ('c, 'h, 'w) server \<Rightarrow> bool" where
  "same_tables s s' \<longleftrightarrow> sv_syncHandlers s' = sv_syncHandlers s \<and> sv_asyncHandlers s' = sv_asyncHandlers s \<and>
     sv_maxMessageSize s' = sv_maxMessageSize s"

lemma answers_cong:
  assumes "same_tables s s'"
  shows "outcome_of R s' = outcome_of R s" and "answers R kMax s' = answers R kMax s"
proof -
  have eq: "sv_syncHandlers s' = sv_syncHandlers s" "sv_asyncHandlers s' = sv_asyncHandlers s"
    "effectiveMaxMessageSize kMax s' = effectiveMaxMessageSize kMax s"
    using assms by (simp_all add: same_tables_def effectiveMaxMessageSize_def)
  show out: "outcome_of R s' = outcome_of R s" by (intro ext) (simp only: outcome_of_def eq)
  show "answers R kMax s' = answers R kMax s" by (intro ext) (simp only: answers_def out eq)
qed

lemma same_tables_simps [simp]:
  "same_tables s s"
  "same_tables s (s'\<lparr>sv_world := w\<rparr>) = same_tables s s'"
  "same_tables s (s'\<lparr>sv_registry := g\<rparr>) = same_tables s s'"
  "same_tables s (s'\<lparr>sv_calls := cs\<rparr>) = same_tables s s'"
  "same_tables s (s'\<lparr>sv_queue := q\<rparr>) = same_tables s s'"
  "same_tables s (s'\<lparr>sv_taskPool := p\<rparr>) = same_tables s s'"
  "same_tables s (s'\<lparr>sv_stopThread := t\<rparr>) = same_tables s s'"
  "same_tables s (s'\<lparr>sv_status := st\<rparr>) = same_tables s s'"
  "same_tables s (s'\<lparr>sv_tcpServerStopped := b\<rparr>) = same_tables s s'"
  "same_tables s (s'\<lparr>sv_taskPoolStopped := b\<rparr>) = same_tables s s'"
  by (simp_all add: same_tables_def)

lemma same_tables_trans: "same_tables s t \<Longrightarrow> same_tables t u \<Longrightarrow> same_tables s u"
  by (simp add: same_tables_def)

lemma same_tables_reply [simp]: "same_tables s (async_reply i alive res s') = same_tables s s'"
  by (simp add: async_reply_def Let_def)

lemma same_tables_stop:
  "tryCompleteStop s = (acts, s') \<Longrightarrow> same_tables s s'"
  by (auto simp: tryCompleteStop_def Let_def split: if_splits)

subsection \<open>Where invocations, queued replies and frames come from\<close>

text \<open>\<open>F conn rq\<close> says that the request \<open>rq\<close> was received on \<open>conn\<close>.\<close>

definition call_from :: "('c \<Rightarrow> RpcRequest \<Rightarrow> bool) \<Rightarrow> ('c, 'h, 'w) server \<Rightarrow> ('c, 'h) async_call \<Rightarrow> RpcRequest \<Rightarrow> bool" where
  "call_from F s call rq \<longleftrightarrow> F (ac_conn call) rq \<and> rq_requestId rq = ac_requestId call \<and> rq_payload rq = ac_payload call \<and>
     table_find (rq_service rq) (rq_method rq) (sv_syncHandlers s) = None \<and>
     table_find (rq_service rq) (rq_method rq) (sv_asyncHandlers s) = Some (ac_handler call)"

definition queued_from ::
  "('c \<Rightarrow> RpcRequest \<Rightarrow> bool) \<Rightarrow> ('h \<Rightarrow> string \<Rightarrow> RpcResult \<Rightarrow> bool) \<Rightarrow> ('c, 'h, 'w) server \<Rightarrow> 'c queued_reply \<Rightarrow> bool" where
  "queued_from F R s q \<longleftrightarrow> (\<exists>rq. F (qr_conn q) rq \<and> rq_requestId rq = qr_requestId q \<and> outcome_of R s rq (qr_result q))"

definition frame_from ::
  "('c \<Rightarrow> RpcRequest \<Rightarrow> bool) \<Rightarrow> ('h \<Rightarrow> string \<Rightarrow> RpcResult \<Rightarrow> bool) \<Rightarrow> nat \<Rightarrow> ('c, 'h, 'w) server \<Rightarrow> 'c action \<Rightarrow> bool" where
  "frame_from F R kMax s a \<longleftrightarrow> (\<forall>conn bs. a = SendFrame conn bs \<longrightarrow>
     (\<exists>rq r. F conn rq \<and> bs = response_wire r \<and> response_valid r \<and> answers R kMax s rq r))"

definition answered ::
  "('c \<Rightarrow> RpcRequest \<Rightarrow> bool) \<Rightarrow> ('h \<Rightarrow> string \<Rightarrow> RpcResult \<Rightarrow> bool) \<Rightarrow> nat \<Rightarrow> ('c, 'h, 'w) server_config \<Rightarrow> bool" where
  "answered F R kMax c \<longleftrightarrow> (case c of (s, log) \<Rightarrow>
     (\<forall>call \<in> set (sv_calls s). \<exists>rq. call_from F s call rq) \<and>
     (\<forall>q \<in> set (sv_queue s). queued_from F R s q) \<and>
     (\<forall>a \<in> snd ` set log. frame_from F R kMax s a))"

lemma from_cong:
  assumes "same_tables s s'"
  shows "call_from F s' = call_from F s" "queued_from F R s' = queued_from F R s" "frame_from F R kMax s' = frame_from F R kMax s"
  using assms answers_cong[OF assms]
  by (simp_all add: call_from_def queued_from_def frame_from_def same_tables_def fun_eq_iff)

lemma answered_parts:
  assumes "answered F R kMax (s, log)"
  shows "call \<in> set (sv_calls s) \<Longrightarrow> \<exists>rq. call_from F s call rq" "q \<in> set (sv_queue s) \<Longrightarrow> queued_from F R s q"
    "a \<in> snd ` set log \<Longrightarrow> frame_from F R kMax s a"
  using assms by (auto simp: answered_def)

lemma answered_frame:
  assumes "answered F R kMax (s, log)" and "same_tables s s'" and "sv_calls s' = sv_calls s"
    and "set (sv_queue s') \<subseteq> set (sv_queue s)" and "\<And>a. a \<in> set acts \<Longrightarrow> frame_from F R kMax s a"
  shows "answered F R kMax (s', log @ map (Pair x) acts)"
  using assms(1,3-5) by (auto simp: answered_def from_cong[OF assms(2)])

lemma answered_mono:
  assumes "answered F R kMax c" and "\<And>conn rq. F conn rq \<Longrightarrow> F' conn rq"
  shows "answered F' R kMax c"
proof -
  obtain s log where c: "c = (s, log)" by (cases c)
  note parts = answered_parts[OF assms(1)[unfolded c]]
  have "\<exists>rq. call_from F' s call rq" if "call \<in> set (sv_calls s)" for call
    using parts(1)[OF that] assms(2) by (auto simp: call_from_def)
  moreover have "queued_from F' R s q" if "q \<in> set (sv_queue s)" for q
    using parts(2)[OF that] assms(2) by (auto simp: queued_from_def)
  moreover have "frame_from F' R kMax s a" if "a \<in> snd ` set log" for a
    using parts(3)[OF that] assms(2) by (fastforce simp: frame_from_def)
  ultimately show ?thesis by (auto simp: c answered_def)
qed

subsection \<open>Every step answers requests\<close>

text \<open>A result given to the reply function of an invocation.\<close>

lemma answered_reply:
  assumes ans: "answered F R kMax (s, log)" and i: "i < length (sv_calls s)"
    and res: "\<And>rq. call_from F s (sv_calls s ! i) rq \<Longrightarrow> outcome_of R s rq (checked_result (Some res))"
  shows "answered F R kMax (async_reply i alive res s, log)"
proof -
  let ?call = "sv_calls s ! i" and ?s = "async_reply i alive res s"
  note parts = answered_parts[OF ans]
  have same: "same_tables s ?s" by simp
  obtain rq where rq: "call_from F s ?call rq" using parts(1)[of ?call] i by auto
  have mark: "\<exists>rq. call_from F s call rq" if "call \<in> set ((sv_calls s)[i := ?call\<lparr>ac_replied := True\<rparr>])" for call
  proof -
    from that have "call \<in> set (sv_calls s) \<or> call = ?call\<lparr>ac_replied := True\<rparr>"
      using set_update_subset_insert by fastforce
    moreover have "call_from F s (?call\<lparr>ac_replied := True\<rparr>) rq" using rq by (simp add: call_from_def)
    ultimately show ?thesis using parts(1) by blast
  qed
  have entry: "queued_from F R s \<lparr>qr_conn = ac_conn ?call, qr_requestId = ac_requestId ?call,
      qr_result = checked_result (Some res), qr_call = i\<rparr>"
    using rq res[OF rq] by (auto simp: queued_from_def call_from_def)
  from i show ?thesis
  proof (cases rule: async_reply_cases[of i s alive res])
    case late
    with ans show ?thesis by simp
  next
    case gone
    then have fields: "sv_calls ?s = (sv_calls s)[i := ?call\<lparr>ac_replied := True\<rparr>]" "sv_queue ?s = sv_queue s"
      by simp_all
    show ?thesis
      unfolding answered_def prod.case from_cong[OF same] fields using mark parts by blast
  next
    case queued
    then have fields: "sv_calls ?s = (sv_calls s)[i := ?call\<lparr>ac_replied := True\<rparr>]"
      "sv_queue ?s = sv_queue s @ [\<lparr>qr_conn = ac_conn ?call, qr_requestId = ac_requestId ?call,
        qr_result = checked_result (Some res), qr_call = i\<rparr>]"
      by simp_all
    show ?thesis
      unfolding answered_def prod.case from_cong[OF same] fields using mark parts entry by auto
  qed
qed

lemma failure_checked:
  "ec < ERROR_CODE_CNT \<Longrightarrow> ec \<noteq> NO_ERROR \<Longrightarrow>
     checked_result (Some (RpcResult_make kUnsuccess ec [] m)) = RpcResult_make kUnsuccess ec [] m"
  by (auto simp: checked_result_def invalidRpcResult_iff outcome_valid_def)

lemma failures_checked: "res \<in> async_failures \<Longrightarrow> checked_result (Some res) = res"
  unfolding async_failures_def pool_refusals_def Un_iff insert_iff empty_iff
  by (elim disjE FalseE) (simp_all only: failure_checked[of INTERNAL_ERROR, simplified] failure_checked[of RESOURCE_EXHAUSTED, simplified])

lemma answered_failure:
  assumes "answered F R kMax (s, log)" and "i < length (sv_calls s)" and "res \<in> async_failures"
  shows "answered F R kMax (async_reply i alive res s, log)"
  using assms(1,2)
  by (rule answered_reply) (use assms(3) failures_checked in \<open>auto simp: call_from_def outcome_of_def\<close>)

lemma answered_submit:
  assumes "answered F R kMax (s, log)" and "i < length (sv_calls s)"
  shows "answered F R kMax (submit_call i s, log)"
proof (cases rule: submit_call_cases[of s i])
  case (accepted p p')
  with answered_frame[OF assms(1), of "submit_call i s" "[]"] show ?thesis by simp
next
  case (refused p res)
  then show ?thesis using answered_failure[OF assms, of res True] by (simp add: async_failures_def)
qed (use assms in simp)

text \<open>A frame made from an outcome of a request is an answer to it.\<close>

lemma frames_from:
  assumes "F conn rq" and "outcome_of R s rq res"
    and "a \<in> set (frames_for up conn (fitted_result (effectiveMaxMessageSize kMax s) (rq_requestId rq) res))"
  shows "frame_from F R kMax s a"
proof (cases "fitted_result (effectiveMaxMessageSize kMax s) (rq_requestId rq) res")
  case (Some r)
  then have "response_valid r" "answers R kMax s rq r"
    using assms(2) fitted_response_ok(1) by (auto simp: fitted_result_def answers_def)
  with assms(1,3) Some show ?thesis by (auto simp: frames_for_def frame_from_def split: if_splits)
qed (use assms(3) in \<open>simp add: frames_for_def frame_from_def\<close>)

lemma answered_dispatch:
  assumes ans: "answered F R kMax (s, log)" and rq: "F conn rq"
    and op: "server_dispatch le kMax up conn rq s = (acts, s')"
  shows "answered F R kMax (s', log @ map (Pair x) acts)"
proof -
  let ?sync = "table_find (rq_service rq) (rq_method rq) (sv_syncHandlers s)"
  let ?async = "table_find (rq_service rq) (rq_method rq) (sv_asyncHandlers s)"
  let ?frames = "\<lambda>res. frames_for up conn (fitted_result (effectiveMaxMessageSize kMax s) (rq_requestId rq) res)"
  have direct: "answered F R kMax (s\<lparr>sv_world := w, sv_registry := g\<rparr>, log @ map (Pair x) (?frames res))"
    if "outcome_of R s rq res" for w g res
    using frames_from[where F = F and conn = conn, OF rq that] by (intro answered_frame[OF ans]) simp_all
  consider h where "?sync = Some h" | h where "?sync = None" "?async = Some h" | "?sync = None" "?async = None"
    by (cases ?sync; cases ?async) auto
  then show ?thesis
  proof cases
    case (1 h)
    obtain out w where h: "h (rq_payload rq) (sv_world s) = (out, w)" by fastforce
    then have "outcome_of R s rq (checked_result out)" using 1 unfolding outcome_of_def by (auto intro: exI[of _ "sv_world s"])
    from direct[OF this, where w = w and g = "sv_registry s"] show ?thesis
      using op 1 h by (simp add: server_dispatch_def registered_simps invokeSyncHandler_eq)
  next
    case (2 h)
    obtain st g where reg: "register_call conn (rq_requestId rq) s = (st, g)" by fastforce
    have inv: "invokeAsyncHandler le kMax up conn rq s = (acts, s')"
      using 2 op by (simp add: server_dispatch_def registered_simps)
    note eq = invokeAsyncHandler_eq[OF 2(2) reg, of le kMax up]
    have limit: "outcome_of R s rq (RpcResult_make kUnsuccess RESOURCE_EXHAUSTED [] ''server request limit reached'')"
      using 2 by (simp add: outcome_of_def async_failures_def)
    show ?thesis
    proof (cases st)
      case kRegistered
      let ?s = "s\<lparr>sv_registry := g, sv_calls := sv_calls s @ [new_call conn rq h]\<rparr>"
      have same: "same_tables s ?s" by simp
      have "call_from F s (new_call conn rq h) rq" using rq 2 by (simp add: call_from_def new_call_def)
      then have "answered F R kMax (?s, log)"
        using ans by (auto simp: answered_def from_cong[OF same])
      from answered_submit[OF this, of "length (sv_calls s)"] inv kRegistered show ?thesis by (simp add: eq)
    next
      case kDuplicateRequestId
      with inv show ?thesis
        by (auto simp: eq frame_from_def intro!: answered_frame[OF ans])
    qed (use inv direct[OF limit, where w = "sv_world s" and g = g] in \<open>simp_all add: eq Let_def fitted_result_def\<close>)
  next
    case 3
    then have "outcome_of R s rq not_found" by (simp add: outcome_of_def)
    from direct[OF this, where w = "sv_world s" and g = "sv_registry s"] show ?thesis
      using op 3 by (auto simp: server_dispatch_def registered_simps sendResponse_eq fitted_result_def not_found_def)
  qed
qed

lemma answered_message:
  assumes ans: "answered F R kMax (s, log)" and op: "server_onRpcMessage le kMax up conn msg s = (acts, s')"
    and from_net: "\<And>rq. request_valid rq \<Longrightarrow> msg = request_wire rq \<Longrightarrow> F conn rq"
  shows "answered F R kMax (s', log @ map (Pair x) acts)"
proof (cases rule: onRpcMessage_cases[of le kMax up conn msg s])
  case rejected
  with op show ?thesis by (auto simp: frame_from_def intro!: answered_frame[OF ans])
next
  case (cancel c)
  with op have "acts = []" "same_tables s s'" "sv_calls s' = sv_calls s" "sv_queue s' = sv_queue s"
    by (auto simp: cancelAsync_def)
  then show ?thesis by (intro answered_frame[OF ans]) simp_all
next
  case (request rq)
  with op answered_dispatch[OF ans from_net[OF request(2,1)]] show ?thesis by simp
qed

lemma answered_queued:
  assumes ans: "answered F R kMax (s, log)" and queue: "sv_queue s = qs @ q # qs'"
    and op: "run_queued_reply le kMax up alive q (s\<lparr>sv_queue := qs @ qs'\<rparr>) = (acts, s')"
  shows "answered F R kMax (s', log @ map (Pair x) acts)"
proof -
  let ?s = "s\<lparr>sv_queue := qs @ qs'\<rparr>"
  obtain rq where rq: "F (qr_conn q) rq" "rq_requestId rq = qr_requestId q" "outcome_of R s rq (qr_result q)"
    using answered_parts(2)[OF ans, of q] queue by (auto simp: queued_from_def)
  have max: "effectiveMaxMessageSize kMax ?s = effectiveMaxMessageSize kMax s" by simp
  have "acts = [] \<or> acts = frames_for up (qr_conn q)
      (fitted_result (effectiveMaxMessageSize kMax s) (rq_requestId rq) (qr_result q))"
    and s': "same_tables s s'" "sv_calls s' = sv_calls s" "sv_queue s' = qs @ qs'"
    using op rq(2)
    by (auto simp: run_queued_reply_def Let_def sendFramedData_eq fitted_result_def split: if_splits prod.splits option.splits)
  then have "frame_from F R kMax s a" if "a \<in> set acts" for a
    using that frames_from[where F = F and conn = "qr_conn q", OF rq(1,3), of a up kMax] by auto
  with s' queue show ?thesis by (intro answered_frame[OF ans]) auto
qed

lemma answered_stop:
  assumes ans: "answered F R kMax (s, log)" and op: "tryCompleteStop t = (acts, s')"
    and t: "same_tables s t" "sv_calls t = sv_calls s" "sv_queue t = sv_queue s"
  shows "answered F R kMax (s', log @ map (Pair x) acts)"
proof (rule answered_frame[OF ans])
  note frame = tryCompleteStop_frame[OF op]
  show "same_tables s s'" using t(1) same_tables_stop[OF op] by (rule same_tables_trans)
  show "frame_from F R kMax s a" if "a \<in> set acts" for a
    using that frame(5) by (auto simp: frame_from_def)
qed (use t tryCompleteStop_frame[OF op] in auto)

lemma answered_silent:
  assumes "answered F R kMax (s, log)" and "same_tables s s'" and "sv_calls s' = sv_calls s" and "sv_queue s' = sv_queue s"
  shows "answered F R kMax (s', log)"
  using answered_frame[OF assms(1,2,3), of "[]"] assms(4) by simp

lemma answered_step:
  assumes "server_step_from M R le kMax (s, log) (s', log')" and inv: "async_inv kMax (s, log)"
    and ans: "answered F R kMax (s, log)"
    and from_net: "\<And>conn rq. request_valid rq \<Longrightarrow> M conn (request_wire rq) \<Longrightarrow> F conn rq"
  shows "answered F R kMax (s', log')"
  using assms(1)
proof (cases rule: server_step_from.cases)
  case sv_configure
  then have "sv_calls s = []" "sv_queue s = []" "log = []"
    using sv_status_not_started(1) inv by (fastforce simp: async_inv_def)+
  moreover have "sv_calls s' = sv_calls s" "sv_queue s' = sv_queue s"
    using sv_configure(3) by (cases rule: server_configure.cases;
        auto simp: configure_defs split: if_splits option.splits prod.splits)+
  ultimately show ?thesis using sv_configure(1) by (simp add: answered_def)
next
  case (sv_start created)
  then have "same_tables s s'" "sv_calls s' = sv_calls s" "sv_queue s' = sv_queue s"
    by (cases "sv_taskPool s"; simp add: RpcServer_start_def Let_def)+
  with sv_start(2) answered_silent[OF ans] show ?thesis by simp
next
  case (sv_message up conn msg acts)
  have "answered F R kMax (s', log @ map (Pair None) acts)"
    by (rule answered_message[OF ans sv_message(3)]) (use from_net sv_message(4) in auto)
  with sv_message(1) show ?thesis by simp
next
  case (sv_reply i res alive)
  have "outcome_of R s rq (checked_result (Some res))" if "call_from F s (sv_calls s ! i) rq" for rq
    using that sv_reply(4) by (auto simp: call_from_def outcome_of_def)
  with sv_reply answered_reply[OF ans, of i res alive] show ?thesis by (simp add: call_begun_def)
next
  case (sv_throw i alive)
  with answered_failure[OF ans, of i] show ?thesis by (simp add: async_throw_def call_begun_def async_failures_def)
next
  case (sv_queued qs q qs' up alive acts)
  with answered_queued[OF ans sv_queued(2,3)] show ?thesis by simp
next
  case (sv_stop acts)
  show ?thesis
  proof (cases "sv_status s = kRunning \<and> sv_taskPool s = None")
    case True
    with sv_stop show ?thesis
      by (auto simp: RpcServer_stop_def onTaskPoolStopped_def intro!: answered_stop[OF ans])
  next
    case False
    then have "acts = [] \<and> (s' = s \<or> s' = s\<lparr>sv_status := kStopping, sv_stopThread := T_calling\<rparr>)"
      using sv_stop(2) by (auto simp: RpcServer_stop_def split: if_splits option.splits)
    then show ?thesis using sv_stop(1) by (auto intro!: answered_silent[OF ans])
  qed
next
  case (sv_tcp_stopped acts)
  then show ?thesis by (auto simp: onTcpServerStopped_def intro!: answered_stop[OF ans])
next
  case (sv_pool_stopped acts)
  then show ?thesis by (auto simp: run_pool_stopped_def onTaskPoolStopped_def intro!: answered_stop[OF ans])
qed (auto simp: server_onConnection_def stop_thread_enter_def stop_thread_return_def split: option.split
    intro!: answered_silent[OF ans])

text \<open>Once the server is started its tables are fixed.\<close>

lemma submit_call_frame: "same_tables s (submit_call i s) \<and> sv_status (submit_call i s) = sv_status s"
  by (cases rule: submit_call_cases[of s i]) simp_all

lemma message_tables:
  assumes "server_onRpcMessage le kMax up conn msg s = (acts, s')"
  shows "same_tables s s' \<and> sv_status s' = sv_status s"
  using assms
proof (cases rule: message_cases)
  case (accepted g r h)
  let ?s = "s\<lparr>sv_registry := g, sv_calls := sv_calls s @ [new_call conn r h]\<rparr>"
  have "same_tables s ?s" by simp
  with accepted submit_call_frame[of ?s] show ?thesis using same_tables_trans by fastforce
qed (simp_all add: cancelAsync_def)

lemma stop_tables: "tryCompleteStop t = (acts, s') \<Longrightarrow> sv_status t \<noteq> kNotStarted \<Longrightarrow> same_tables s t \<Longrightarrow>
    same_tables s s' \<and> sv_status s' \<noteq> kNotStarted"
  using same_tables_stop same_tables_trans tryCompleteStop_frame(6) by blast

lemma step_tables:
  assumes "server_step le kMax (s, log) (s', log')" and started: "sv_status s \<noteq> kNotStarted"
  shows "same_tables s s' \<and> sv_status s' \<noteq> kNotStarted"
  using assms(1)
proof (cases rule: server_step_from.cases)
  case sv_configure
  then show ?thesis using sv_status_not_started(1) started by blast
next
  case (sv_start created)
  with started show ?thesis by (simp add: RpcServer_start_def)
next
  case (sv_message up conn msg acts)
  with started message_tables show ?thesis by fastforce
next
  case (sv_queued qs q qs' up alive acts)
  from sv_queued(3) show ?thesis by (cases rule: run_queued_reply_cases) (use started in simp_all)
next
  case (sv_stop acts)
  show ?thesis
  proof (cases "sv_status s = kRunning \<and> sv_taskPool s = None")
    case True
    with sv_stop show ?thesis
      by (auto simp: RpcServer_stop_def onTaskPoolStopped_def elim!: stop_tables)
  next
    case False
    then show ?thesis using sv_stop(2) started by (auto simp: RpcServer_stop_def split: if_splits option.splits)
  qed
next
  case (sv_tcp_stopped acts)
  with started show ?thesis unfolding onTcpServerStopped_def by (elim stop_tables) simp_all
next
  case (sv_pool_stopped acts)
  with started show ?thesis unfolding run_pool_stopped_def onTaskPoolStopped_def by (elim stop_tables) simp_all
qed (use started in \<open>auto simp: server_onConnection_def async_throw_def stop_thread_enter_def stop_thread_return_def split: option.split\<close>)

end
