(* ===== verification/Rpc_Server_Replies.thy ===== *)
theory Rpc_Server_Replies
  imports Rpc_Server_Answers
begin

section \<open>The reply of an asynchronous invocation\<close>

text \<open>
  The way of one asynchronous request through \<open>RpcServer.cc\<close>: \<open>invokeAsyncHandler\<close> registers it, the reply
  function queues a functor with the first result, and the functor sends it. Between these, the server may do
  anything else; the facts of this theory are the ones that hold on to the request over such a run.
\<close>

subsection \<open>The first reply is the one that is kept\<close>

definition replied_with :: "nat \<Rightarrow> RpcResult \<Rightarrow> ('c, 'h, 'w) server \<Rightarrow> bool" where
  "replied_with i res s \<longleftrightarrow> i < length (sv_calls s) \<and> ac_replied (sv_calls s ! i) \<and>
     (\<forall>q \<in> set (sv_queue s). qr_call q = i \<longrightarrow> qr_result q = res)"

lemma replied_with_reply: "replied_with i res s \<Longrightarrow> j < length (sv_calls s) \<Longrightarrow> replied_with i res (async_reply j alive res' s)"
  by (cases rule: async_reply_cases[of j s alive res']) (auto simp: replied_with_def nth_list_update)

lemma replied_with_submit: "replied_with i res s \<Longrightarrow> j < length (sv_calls s) \<Longrightarrow> replied_with i res (submit_call j s)"
  by (cases rule: submit_call_cases[of s j]) (auto simp: replied_with_reply, simp add: replied_with_def)

lemma replied_with_fewer:
  assumes "replied_with i res s" and "sv_calls s' = sv_calls s" and "set (sv_queue s') \<subseteq> set (sv_queue s)"
  shows "replied_with i res s'"
  using assms by (auto simp: replied_with_def)

lemma replied_with_first:
  assumes "i < length (sv_calls s)" and "\<not> ac_replied (sv_calls s ! i)" and "replies_once (sv_calls s) (sv_queue s) log"
  shows "replied_with i (checked_result (Some res)) (async_reply i alive res s)"
proof -
  have "replies_of (sv_queue s) log i = 0" using assms by (auto simp: replies_once_def dest!: spec[of _ i])
  then have "\<forall>q \<in> set (sv_queue s). qr_call q \<noteq> i" by (auto simp: replies_of_def count_list_0_iff)
  with assms(1,2) show ?thesis
    by (cases rule: async_reply_cases[of i s alive res]) (use assms(1) in \<open>auto simp: replied_with_def\<close>)
qed

lemma replied_with_step:
  assumes "server_step le kMax (s, log) (s', log')" and inv: "async_inv kMax (s, log)" and kept: "replied_with i res s"
  shows "replied_with i res s'"
  using assms(1)
proof (cases rule: server_step_from.cases)
  case sv_configure
  then have "sv_calls s = []" using sv_status_not_started(1) inv by (fastforce simp: async_inv_def)
  with kept show ?thesis by (simp add: replied_with_def)
next
  case (sv_start created)
  then show ?thesis
    by (intro replied_with_fewer[OF kept]; cases "sv_taskPool s") (simp_all add: RpcServer_start_def Let_def)
next
  case (sv_message up conn msg acts)
  from sv_message(3) show ?thesis
  proof (cases rule: message_cases)
    case (accepted g r h)
    let ?s = "s\<lparr>sv_registry := g, sv_calls := sv_calls s @ [new_call conn r h]\<rparr>"
    have "replied_with i res ?s" using kept by (simp add: replied_with_def nth_append)
    with accepted replied_with_submit[of i res ?s] show ?thesis by simp
  qed (use kept in \<open>simp_all add: replied_with_def cancelAsync_def\<close>)
next
  case (sv_reply j r alive)
  with replied_with_reply[OF kept] show ?thesis by (simp add: call_begun_def)
next
  case (sv_throw j alive)
  with replied_with_reply[OF kept] show ?thesis by (simp add: call_begun_def async_throw_def)
next
  case (sv_queued qs q qs' up alive acts)
  from sv_queued(3) show ?thesis
    by (cases rule: run_queued_reply_cases; intro replied_with_fewer[OF kept]) (auto simp: sv_queued(2))
next
  case (sv_stop acts)
  then show ?thesis
    by (intro replied_with_fewer[OF kept])
      (auto simp: RpcServer_stop_def onTaskPoolStopped_def Let_def dest: tryCompleteStop_frame
        split: if_splits option.splits)
next
  case (sv_tcp_stopped acts)
  then show ?thesis
    by (intro replied_with_fewer[OF kept]) (auto simp: onTcpServerStopped_def dest: tryCompleteStop_frame)
next
  case (sv_pool_stopped acts)
  then show ?thesis
    by (intro replied_with_fewer[OF kept]) (auto simp: run_pool_stopped_def onTaskPoolStopped_def dest: tryCompleteStop_frame)
qed (auto simp: server_onConnection_def stop_thread_enter_def stop_thread_return_def split: option.split
    intro!: replied_with_fewer[OF kept])

text \<open>Over a run: the call stays what it is, the first reply is kept, and so are tables and limits.\<close>

lemma server_run_keeps:
  assumes reach: "server_reachable le kMax (s, log)" and "(server_step le kMax)\<^sup>*\<^sup>* (s, log) (s', log')"
  shows "calls_grow s s'"
    and "replied_with i res s \<Longrightarrow> replied_with i res s'"
    and "sv_status s \<noteq> kNotStarted \<Longrightarrow> effectiveMaxMessageSize kMax s' = effectiveMaxMessageSize kMax s \<and> sv_status s' \<noteq> kNotStarted"
proof -
  show "calls_grow s s'" using calls_grow_steps[OF assms] .
  show "replied_with i res s'" if "replied_with i res s"
    using assms(2) that
  proof (induction "(s', log')" arbitrary: s' log' rule: rtranclp_induct)
    case (step c)
    obtain t lg where c: "c = (t, lg)" by (cases c)
    have "async_inv kMax (t, lg)" using server_reachable_async[OF server_reachable_steps[OF reach]] step(1) c by blast
    with replied_with_step step c show ?case by blast
  qed simp
  show "effectiveMaxMessageSize kMax s' = effectiveMaxMessageSize kMax s \<and> sv_status s' \<noteq> kNotStarted"
    if "sv_status s \<noteq> kNotStarted"
    using assms(2)
  proof (induction "(s', log')" arbitrary: s' log' rule: rtranclp_induct)
    case base
    then show ?case using that by simp
  next
    case (step c)
    obtain t lg where c: "c = (t, lg)" by (cases c)
    with step step_tables[of le kMax t lg s' log'] show ?case
      by (simp add: same_tables_def effectiveMaxMessageSize_def)
  qed
qed

subsection \<open>The three stations of a request\<close>

text \<open>The server has room for the request: it is registered, and the pool, if there is one, takes the task.\<close>

definition has_room :: "'c \<Rightarrow> u64 \<Rightarrow> ('c, 'h, 'w) server \<Rightarrow> bool" where
  "has_room conn rid s \<longleftrightarrow> fst (register_call conn rid s) = kRegistered \<and>
     (case sv_taskPool s of None \<Rightarrow> True | Some p \<Rightarrow> fst (addTask (Some (length (sv_calls s))) p) = kAccepted)"

lemma async_request_registered:
  assumes "request_valid r" and "length (request_wire r) \<le> effectiveMaxMessageSize kMax s"
    and "table_find (rq_service r) (rq_method r) (sv_syncHandlers s) = None"
    and "table_find (rq_service r) (rq_method r) (sv_asyncHandlers s) = Some h"
    and "has_room conn (rq_requestId r) s"
  shows "\<exists>s1. server_onRpcMessage le kMax up conn (request_wire r) s = ([], s1) \<and>
    sv_calls s1 = sv_calls s @ [new_call conn r h] \<and> sv_queue s1 = sv_queue s \<and>
    registry_lookup (sv_registry s1) conn (rq_requestId r) = Some (length (sv_calls s))"
proof -
  obtain g where reg: "register_call conn (rq_requestId r) s = (kRegistered, g)"
    using assms(5) by (metis has_room_def prod.collapse)
  let ?s = "s\<lparr>sv_registry := g, sv_calls := sv_calls s @ [new_call conn r h]\<rparr>"
  have "server_onRpcMessage le kMax up conn (request_wire r) s = ([], submit_call (length (sv_calls s)) ?s)"
    using assms(1-4) by (simp add: onRpcMessage_request server_dispatch_def registered_simps invokeAsyncHandler_eq[OF assms(4) reg])
  moreover have "registry_lookup g conn (rq_requestId r) = Some (length (sv_calls s))"
    using lookup_registerToken[of conn "rq_requestId r" "length (sv_calls s)" _ kRegistered g] reg
    by (simp add: register_call_def)
  moreover have "\<exists>p. submit_call (length (sv_calls s)) ?s = ?s\<lparr>sv_taskPool := p\<rparr>"
  proof (cases "sv_taskPool s")
    case None
    then have "submit_call (length (sv_calls s)) ?s = ?s\<lparr>sv_taskPool := None\<rparr>" by (simp add: submit_call_def)
    then show ?thesis by blast
  next
    case (Some p)
    with assms(5) show ?thesis
      by (cases "addTask (Some (length (sv_calls s))) p") (auto simp: has_room_def submit_call_def pool_submit_def Let_def)
  qed
  ultimately show ?thesis by fastforce
qed

lemma queued_reply_sends:
  assumes reach: "server_reachable le kMax (s, log)" and "sv_queue s = qs @ q # qs'"
    and "registry_lookup (sv_registry s) (qr_conn q) (qr_requestId q) = Some tok" and "up (qr_conn q)"
    and "qr_result q = checked_result out" and "mx = effectiveMaxMessageSize kMax s" and "mx \<le> UINT32_MAX"
    and "22 + length (rr_payload (checked_result out)) + length (rr_errorMessage (checked_result out)) \<le> mx"
  shows "\<exists>s'. run_queued_reply le kMax up True q (s\<lparr>sv_queue := qs @ qs'\<rparr>) =
    ([SendFrame (qr_conn q) (response_wire (RpcResponse_make (qr_requestId q) (rr_result (checked_result out))
        (rr_errorCode (checked_result out)) (rr_payload (checked_result out)) (rr_errorMessage (checked_result out))))], s') \<and>
    registry_lookup (sv_registry s') (qr_conn q) (qr_requestId q) = None \<and> sv_calls s' = sv_calls s \<and> sv_queue s' = qs @ qs'"
proof -
  have "\<not> isCanceled (sv_registry s) tok"
    using async_inv_parts(1)[OF server_reachable_async[OF reach]] assms(3) by (auto simp: registry_calls_def)
  moreover obtain g where take: "registry_take (qr_conn q) (qr_requestId q) (sv_registry s) = (Some tok, g)"
    using assms(3) fst_registry_take by (metis prod.collapse)
  moreover have "isCanceled g = isCanceled (sv_registry s)"
    using take canceled_registry_take[of "qr_conn q" "qr_requestId q" "sv_registry s"] by (simp add: isCanceled_def fun_eq_iff)
  moreover have "registry_lookup g (qr_conn q) (qr_requestId q) = None"
    using take lookup_registry_take[of "qr_conn q" "qr_requestId q" "sv_registry s"] by simp
  ultimately show ?thesis
    using assms(4-8) by (simp add: run_queued_reply_def sendFramedData_eq effectiveMaxMessageSize_def
        fitted_response_fits[OF checked_result_valid] frames_for_def)
qed

subsection \<open>A reply to the wrong request\<close>

lemma async_reply_queues:
  assumes "\<not> ac_replied (sv_calls s ! i)"
  shows "async_reply i True res s = s\<lparr>sv_calls := (sv_calls s)[i := (sv_calls s ! i)\<lparr>ac_replied := True\<rparr>],
    sv_queue := sv_queue s @ [\<lparr>qr_conn = ac_conn (sv_calls s ! i), qr_requestId = ac_requestId (sv_calls s ! i),
      qr_result = checked_result (Some res), qr_call = i\<rparr>]\<rparr>"
  using assms by (simp add: async_reply_def checked_result_def Let_def)

lemma queued_reply_silent:
  assumes "registry_lookup (sv_registry s) (qr_conn q) (qr_requestId q) = None"
  shows "fst (run_queued_reply le kMax up True q s) = []"
  using assms fst_registry_take[of "qr_conn q" "qr_requestId q" "sv_registry s"]
  by (cases "registry_take (qr_conn q) (qr_requestId q) (sv_registry s)") (simp add: run_queued_reply_def)


text \<open>The peer cancels its request 7 and sends a new request 7, whose payload is different.\<close>

abbreviation reuse_schedule :: "(nat, nat) server_event list" where
  "reuse_schedule \<equiv> [E_async ''S'' ''m'' 0, E_start 0, E_message 0 (request_bytes 7 ''a''),
     E_message 0 (cancel_wire \<lparr>cn_requestId = 7\<rparr>), E_message 0 (request_bytes 7 ''b'')]"

lemma reuse_schedule_run:
  "\<exists>s :: (nat, nat, unit) server. server_run True 67108864 reuse_schedule (RpcServer_new (), []) = Some (s, []) \<and>
     call_begun s 0 \<and> call_begun s 1 \<and> sv_queue s = [] \<and> isCanceled (sv_registry s) 0 \<and>
     ac_conn (sv_calls s ! 0) = 0 \<and> ac_requestId (sv_calls s ! 0) = 7 \<and> registry_lookup (sv_registry s) 0 7 = Some 1 \<and>
     \<not> ac_replied (sv_calls s ! 0) \<and> \<not> ac_replied (sv_calls s ! 1) \<and> effectiveMaxMessageSize 67108864 s = 67108864 \<and>
     map ac_payload (sv_calls s) = [''a'', ''b'']"
  by (simp add: server_eval registry_lookup_def call_begun_def effectiveMaxMessageSize_def)


end
