(* ===== verification/Rpc_Client.thy ===== *)
theory Rpc_Client
  imports Rpc_Message
begin

section \<open>The client (RpcClient.h, RpcClient.cc)\<close>

text \<open>
  The state and the operations of \<open>RpcClient\<close>. All of it runs in one event loop, but the callbacks of
  the application are called from the middle of the client's own functions and may call the client
  again. The model keeps this: an operation returns the effects it has had, the new state, and the
  \<open>task\<close>s it still has to do, in order; calling an application callback is such a task. A stack of
  tasks is the call stack of the program, and while the application's code is running (the marker
  \<open>InUserCode\<close>) any public operation can push further tasks. \<open>Rpc_Client_Runs\<close> composes them.

  Code outside the repository enters as parameters: a connection is a value of type \<open>'c\<close>, \<open>up\<close> gives
  \<open>conn->connected()\<close>, a callback is a value of type \<open>'k\<close>, \<open>kMax\<close> is
  \<open>LengthHeaderCodec::kMaxMessageSize\<close>, and \<open>now\<close> is the reading of the steady clock in milliseconds.
  The event loop's timers are kept in \<open>cl_timers\<close> (timer id to bound function and duration): \<open>runAfter\<close>
  adds one with a fresh id, \<open>cancel\<close> removes it. \<open>cl_queue\<close> holds the functors other threads have
  handed to \<open>queueInLoop\<close>. A failed \<open>assert\<close> is \<^const>\<open>None\<close>; the assertions on the calling thread are
  left out.
\<close>

subsection \<open>Data\<close>

datatype ClientStatus = kDisconnected | kConnecting | kDisconnecting | kConnected

datatype RequestPhase = kWaitingResponse | kWaitingReconnect

type_synonym milliseconds = int

type_synonym TimerId = nat

record 'k PendingRequest =
  pr_serviceName :: string
  pr_methodName :: string
  pr_payload :: string
  pr_callback :: 'k
  pr_requestTimeout :: milliseconds
  pr_allowReconnect :: bool
  pr_phase :: RequestPhase
  pr_remainingResends :: u8
  pr_reconnectTimeout :: milliseconds
  pr_timerId :: "TimerId option"

text \<open>The functions the client binds to timers.\<close>

datatype timer_task = OnRequestTimeout u64 | OnReconnectTimeout u64 | OnClearExpired

text \<open>The arguments of a call, as they travel to the loop.\<close>

record 'k call_args =
  ca_requestId :: u64
  ca_service :: string
  ca_method :: string
  ca_payload :: string
  ca_callback :: 'k
  ca_timeout :: milliseconds
  ca_allowReconnect :: bool
  ca_reconnectTimeout :: milliseconds
  ca_resendLimit :: "u8 option"

datatype 'k loop_functor = CallFunctor "'k call_args" | CancelFunctor u64

record ('c, 'k) client =
  cl_hasConnectAttempted :: bool
  cl_nextRequestId :: u64
  cl_maxPendingRequests :: "nat option"
  cl_defaultTimeout :: milliseconds
  cl_maxMessageSize :: "nat option"
  cl_status :: ClientStatus
  cl_conn :: "'c option"
  cl_connectionCallback :: bool
  cl_connectionErrorCallback :: bool
  cl_pendingRequests :: "(u64, 'k PendingRequest) umap"
  cl_clearTimerId :: "TimerId option"
  cl_ignoredResponseRequests :: "(u64, milliseconds) umap"
  cl_defaultReconnectTimeout :: milliseconds
  cl_defaultResendLimit :: u8
  cl_defaultAllowResend :: bool
  cl_manualDisconnection :: bool
  cl_timers :: "(TimerId, timer_task \<times> milliseconds) umap"
  cl_nextTimer :: TimerId
  cl_queue :: "'k loop_functor list"

text \<open>What the client has done to the world outside; \<open>Issued\<close> records that a call has returned its
  request id.\<close>

datatype ('c, 'k) effect =
    Send 'c string | CloseConn 'c | CalledBack 'k RpcResponse | ConnectionReported 'c
  | ErrorReported int | TcpConnect | TcpDisconnect | TcpRetry bool | Issued u64 'k | Broken

datatype ('c, 'k) task =
    DoCallback 'k RpcResponse | DoConnectionCallback 'c | DoErrorCallback int | ClearIgnored
  | CheckReconnect 'c | ResendLoop 'c "u64 list" | InUserCode

type_synonym ('c, 'k) outcome = "('c, 'k) effect list \<times> ('c, 'k) task list \<times> ('c, 'k) client"

subsection \<open>The loop's timers\<close>

definition runAfter :: "milliseconds \<Rightarrow> timer_task \<Rightarrow> ('c, 'k) client \<Rightarrow> TimerId \<times> ('c, 'k) client" where
  "runAfter d f cl = (cl_nextTimer cl, cl\<lparr>cl_timers := m_put (cl_nextTimer cl) (f, d) (cl_timers cl),
     cl_nextTimer := cl_nextTimer cl + 1\<rparr>)"

definition cancel_timer :: "TimerId option \<Rightarrow> ('c, 'k) client \<Rightarrow> ('c, 'k) client" where
  "cancel_timer t cl = (case t of None \<Rightarrow> cl | Some i \<Rightarrow> cl\<lparr>cl_timers := m_erase i (cl_timers cl)\<rparr>)"

definition set_pending :: "u64 \<Rightarrow> 'k PendingRequest \<Rightarrow> ('c, 'k) client \<Rightarrow> ('c, 'k) client" where
  "set_pending rid p cl = cl\<lparr>cl_pendingRequests := m_put rid p (cl_pendingRequests cl)\<rparr>"

definition erase_pending :: "u64 \<Rightarrow> ('c, 'k) client \<Rightarrow> ('c, 'k) client" where
  "erase_pending rid cl = cl\<lparr>cl_pendingRequests := m_erase rid (cl_pendingRequests cl)\<rparr>"

text \<open>The constructor starts the periodic timer that clears expired entries.\<close>

definition RpcClient_new :: "('c, 'k) client" where
  "RpcClient_new = \<lparr>cl_hasConnectAttempted = False, cl_nextRequestId = 1, cl_maxPendingRequests = None,
     cl_defaultTimeout = 0, cl_maxMessageSize = None, cl_status = kDisconnected, cl_conn = None,
     cl_connectionCallback = False, cl_connectionErrorCallback = False, cl_pendingRequests = [],
     cl_clearTimerId = Some 0, cl_ignoredResponseRequests = [], cl_defaultReconnectTimeout = 1000,
     cl_defaultResendLimit = 1, cl_defaultAllowResend = False, cl_manualDisconnection = False,
     cl_timers = [(0, (OnClearExpired, 1000))], cl_nextTimer = 1, cl_queue = []\<rparr>"

subsection \<open>Configuration\<close>

definition setConnectionCallback :: "bool \<Rightarrow> ('c, 'k) client \<Rightarrow> ('c, 'k) client option" where
  "setConnectionCallback cb cl =
     (if cl_hasConnectAttempted cl then None else Some (cl\<lparr>cl_connectionCallback := cb\<rparr>))"

definition setConnectionErrorCallback :: "bool \<Rightarrow> ('c, 'k) client \<Rightarrow> ('c, 'k) client option" where
  "setConnectionErrorCallback cb cl =
     (if cl_hasConnectAttempted cl then None else Some (cl\<lparr>cl_connectionErrorCallback := cb\<rparr>))"

definition setMaxPendingRequests :: "nat \<Rightarrow> ('c, 'k) client \<Rightarrow> ('c, 'k) client option" where
  "setMaxPendingRequests m cl =
     (if \<not> m > 0 \<or> cl_hasConnectAttempted cl then None else Some (cl\<lparr>cl_maxPendingRequests := Some m\<rparr>))"

definition setDefaultTimeout :: "milliseconds \<Rightarrow> ('c, 'k) client \<Rightarrow> ('c, 'k) client option" where
  "setDefaultTimeout t cl =
     (if \<not> t \<ge> 0 \<or> cl_hasConnectAttempted cl then None else Some (cl\<lparr>cl_defaultTimeout := t\<rparr>))"

definition setDefaultReconnectTimeout :: "milliseconds \<Rightarrow> ('c, 'k) client \<Rightarrow> ('c, 'k) client option" where
  "setDefaultReconnectTimeout t cl =
     (if \<not> t > 0 \<or> cl_hasConnectAttempted cl then None else Some (cl\<lparr>cl_defaultReconnectTimeout := t\<rparr>))"

definition setDefaultResendLimit :: "u8 \<Rightarrow> ('c, 'k) client \<Rightarrow> ('c, 'k) client option" where
  "setDefaultResendLimit n cl =
     (if cl_hasConnectAttempted cl then None else Some (cl\<lparr>cl_defaultResendLimit := n\<rparr>))"

definition client_setMaxMessageSize :: "nat \<Rightarrow> nat \<Rightarrow> ('c, 'k) client \<Rightarrow> ('c, 'k) client option" where
  "client_setMaxMessageSize kMax m cl =
     (if cl_hasConnectAttempted cl \<or> \<not> m > 0 \<or> \<not> m \<le> kMax then None
      else Some (cl\<lparr>cl_maxMessageSize := Some m\<rparr>))"

definition setAllowReconnect :: "bool \<Rightarrow> ('c, 'k) client \<Rightarrow> ('c, 'k) client option" where
  "setAllowReconnect allow cl =
     (if cl_hasConnectAttempted cl then None else Some (cl\<lparr>cl_defaultAllowResend := allow\<rparr>))"

definition enableRetry :: "('c, 'k) client \<Rightarrow> ('c, 'k) outcome" where
  "enableRetry cl = ([TcpRetry True], [], cl)"

definition disableRetry :: "('c, 'k) client \<Rightarrow> ('c, 'k) outcome" where
  "disableRetry cl = ([TcpRetry False], [], cl)"

subsection \<open>Failing requests\<close>

definition failed_response :: "u64 \<Rightarrow> RpcErrorCode \<Rightarrow> string \<Rightarrow> RpcResponse" where
  "failed_response rid ec msg = RpcResponse_make rid kUnsuccess ec [] msg"

definition failAllPendingRequests :: "RpcErrorCode \<Rightarrow> string \<Rightarrow> ('c, 'k) client \<Rightarrow> ('c, 'k) outcome" where
  "failAllPendingRequests errorCode errorMessage cl =
     (let temp = cl_pendingRequests cl;
          cl = cl\<lparr>cl_pendingRequests := []\<rparr>;
          cl = fold (\<lambda>item. cancel_timer (pr_timerId (snd item))) temp cl
      in ([], map (\<lambda>item. DoCallback (pr_callback (snd item)) (failed_response (fst item) errorCode errorMessage)) temp, cl))"

text \<open>The loop body that moves a request to waiting for a new connection.\<close>

definition change_phase :: "u64 \<Rightarrow> ('c, 'k) client \<Rightarrow> ('c, 'k) client" where
  "change_phase item cl =
     (case m_find (cl_pendingRequests cl) item of
        None \<Rightarrow> cl
      | Some p \<Rightarrow>
          let cl = cancel_timer (pr_timerId p) cl;
              (timerId, cl) = runAfter (pr_reconnectTimeout p) (OnReconnectTimeout item) cl
          in set_pending item (p\<lparr>pr_phase := kWaitingReconnect, pr_timerId := Some timerId\<rparr>) cl)"

text \<open>The loop body that takes a request out and collects its callback.\<close>

definition collect_failed ::
  "u64 \<Rightarrow> (u64 \<times> 'k) list \<times> ('c, 'k) client \<Rightarrow> (u64 \<times> 'k) list \<times> ('c, 'k) client" where
  "collect_failed item s =
     (case s of (callbacks, cl) \<Rightarrow>
        (case m_find (cl_pendingRequests cl) item of
           None \<Rightarrow> (callbacks, cl)
         | Some p \<Rightarrow> (callbacks @ [(item, pr_callback p)], erase_pending item (cancel_timer (pr_timerId p) cl))))"

text \<open>The callbacks are called in the order of the \<open>std::map\<close> they are collected in.\<close>

definition failAllDisreconnectRequests :: "RpcErrorCode \<Rightarrow> string \<Rightarrow> ('c, 'k) client \<Rightarrow> ('c, 'k) outcome" where
  "failAllDisreconnectRequests errorCode errorMessage cl =
     (let waiting = filter (\<lambda>item. pr_phase (snd item) = kWaitingResponse) (cl_pendingRequests cl);
          keep = (\<lambda>item. pr_allowReconnect (snd item) \<and> pr_remainingResends (snd item) \<noteq> 0);
          waitingToChangePhase = map fst (filter keep waiting);
          waitingToCallFailCallback = map fst (filter (\<lambda>item. \<not> keep item) waiting);
          cl = fold change_phase waitingToChangePhase cl;
          (callbacks, cl) = fold collect_failed waitingToCallFailCallback ([], cl)
      in ([], map (\<lambda>item. DoCallback (snd item) (failed_response (fst item) errorCode errorMessage))
                (sort_key fst callbacks), cl))"

definition clearPendingRequests :: "('c, 'k) client \<Rightarrow> ('c, 'k) client" where
  "clearPendingRequests cl =
     (let temp = cl_pendingRequests cl
      in fold (\<lambda>item. cancel_timer (pr_timerId (snd item))) temp (cl\<lparr>cl_pendingRequests := []\<rparr>))"

definition clearIgnoredResponseRequests :: "('c, 'k) client \<Rightarrow> ('c, 'k) client" where
  "clearIgnoredResponseRequests cl = cl\<lparr>cl_ignoredResponseRequests := []\<rparr>"

definition clearExpiredIgnoredResponseRequests :: "milliseconds \<Rightarrow> ('c, 'k) client \<Rightarrow> ('c, 'k) client" where
  "clearExpiredIgnoredResponseRequests now cl =
     cl\<lparr>cl_ignoredResponseRequests := filter (\<lambda>it. \<not> snd it \<le> now) (cl_ignoredResponseRequests cl)\<rparr>"

text \<open>The destructor: requests are dropped, their callbacks are not called.\<close>

definition RpcClient_destroy :: "('c, 'k) client \<Rightarrow> ('c, 'k) client" where
  "RpcClient_destroy cl =
     cancel_timer (cl_clearTimerId cl) (clearIgnoredResponseRequests (clearPendingRequests cl))"

subsection \<open>Connecting and disconnecting\<close>

definition client_connect :: "('c, 'k) client \<Rightarrow> ('c, 'k) outcome" where
  "client_connect cl =
     (if cl_status cl \<noteq> kDisconnected then ([], [], cl)
      else ([TcpConnect], [], cl\<lparr>cl_status := kConnecting, cl_hasConnectAttempted := True\<rparr>))"

definition client_disconnect :: "('c, 'k) client \<Rightarrow> ('c, 'k) outcome" where
  "client_disconnect cl =
     (let cl = cl\<lparr>cl_manualDisconnection := True\<rparr> in
      if cl_status cl \<noteq> kConnected \<and> cl_status cl \<noteq> kConnecting then
        case failAllPendingRequests CONNECTION_CLOSED ''connect closed'' cl of
          (effs, tasks, cl) \<Rightarrow> (TcpDisconnect # effs, tasks, cl)
      else if cl_status cl = kConnected then ([TcpDisconnect], [], cl\<lparr>cl_status := kDisconnecting\<rparr>)
      else
        case failAllPendingRequests CONNECTION_CLOSED ''connect closed'' (cl\<lparr>cl_status := kDisconnected\<rparr>) of
          (effs, tasks, cl) \<Rightarrow> (TcpDisconnect # effs, tasks, cl))"

definition onConnection :: "('c \<Rightarrow> bool) \<Rightarrow> 'c \<Rightarrow> ('c, 'k) client \<Rightarrow> ('c, 'k) outcome" where
  "onConnection up conn cl =
     (if up conn then
        ([], (if cl_connectionCallback cl then [DoConnectionCallback conn] else []) @ [CheckReconnect conn],
         cl\<lparr>cl_conn := Some conn, cl_status := kConnected, cl_manualDisconnection := False\<rparr>)
      else
        let cl = cl\<lparr>cl_status := kDisconnected, cl_conn := None\<rparr>;
            (effs, tasks, cl) =
              (if cl_manualDisconnection cl
               then failAllPendingRequests CONNECTION_CLOSED ''connect closed'' cl
               else failAllDisreconnectRequests CONNECTION_CLOSED ''connect closed'' cl)
        in (effs, tasks @ [ClearIgnored] @ (if cl_connectionCallback cl then [DoConnectionCallback conn] else []), cl))"

definition onConnectionError :: "int \<Rightarrow> ('c, 'k) client \<Rightarrow> ('c, 'k) outcome" where
  "onConnectionError errorCode cl =
     (let cl = cl\<lparr>cl_conn := None, cl_status := kDisconnected\<rparr>;
          (effs, tasks, cl) = failAllDisreconnectRequests CONNECTION_UNAVAILABLE ''connection error'' cl
      in (effs, tasks @ [ClearIgnored] @ (if cl_connectionErrorCallback cl then [DoErrorCallback errorCode] else []), cl))"

subsection \<open>Calling\<close>

text \<open>The tail of \<open>callInLoop\<close> that every refusal reaches: the callback with a failure.\<close>

definition refuse_call :: "'k \<Rightarrow> u64 \<Rightarrow> RpcErrorCode \<Rightarrow> string \<Rightarrow> ('c, 'k) client \<Rightarrow> ('c, 'k) outcome" where
  "refuse_call cb rid ec msg cl = ([], [DoCallback cb (failed_response rid ec msg)], cl)"

definition callInLoop :: "bool \<Rightarrow> nat \<Rightarrow> ('c \<Rightarrow> bool) \<Rightarrow> 'k call_args \<Rightarrow> ('c, 'k) client \<Rightarrow> ('c, 'k) outcome" where
  "callInLoop le kMax up a cl =
     (let requestId = ca_requestId a; cb = ca_callback a in
      case cl_conn cl of
        None \<Rightarrow> refuse_call cb requestId CONNECTION_UNAVAILABLE ''connection not connected'' cl
      | Some conn \<Rightarrow>
      if cl_status cl = kConnected \<and> up conn then
        let outputMessageLen = RpcRequest_OutputMessageLen (length (ca_service a)) (length (ca_method a))
              (length (ca_payload a)) in
        if cl_maxMessageSize cl = None \<and> outputMessageLen > kMax \<or>
           (case cl_maxMessageSize cl of None \<Rightarrow> False | Some m \<Rightarrow> outputMessageLen > m)
        then refuse_call cb requestId MESSAGE_TOO_LARGE ''rpc message too large'' cl
        else if (case cl_maxPendingRequests cl of None \<Rightarrow> False | Some m \<Rightarrow> length (cl_pendingRequests cl) \<ge> m)
        then refuse_call cb requestId RESOURCE_EXHAUSTED ''too many pending requests'' cl
        else
          case RpcRequest_encode le \<lparr>rq_requestId = requestId, rq_service = ca_service a,
                 rq_method = ca_method a, rq_payload = ca_payload a\<rparr> [] [] of
            None \<Rightarrow> ([Broken], [], cl)
          | Some (res, output, errorMsg) \<Rightarrow>
              if \<not> res \<or> errorMsg \<noteq> []
              then refuse_call cb requestId INTERNAL_ERROR ''encode error'' cl
              else
                let remainingResends = (case ca_resendLimit a of None \<Rightarrow> cl_defaultResendLimit cl | Some n \<Rightarrow> n);
                    reconnectTimeout = (if ca_allowReconnect a \<and> ca_reconnectTimeout a = 0
                                        then cl_defaultReconnectTimeout cl else ca_reconnectTimeout a);
                    allowReconnect = (if remainingResends = 0 then False else ca_allowReconnect a);
                    p = \<lparr>pr_serviceName = ca_service a, pr_methodName = ca_method a, pr_payload = ca_payload a,
                         pr_callback = cb, pr_requestTimeout = ca_timeout a, pr_allowReconnect = allowReconnect,
                         pr_phase = kWaitingResponse, pr_remainingResends = remainingResends,
                         pr_reconnectTimeout = reconnectTimeout, pr_timerId = None\<rparr>;
                    cl = set_pending requestId p cl;
                    cl = (if ca_timeout a > 0 then
                            let (timerId, cl) = runAfter (ca_timeout a) (OnRequestTimeout requestId) cl
                            in set_pending requestId (p\<lparr>pr_timerId := Some timerId\<rparr>) cl
                          else cl)
                in ([Send conn output], [], cl)
      else refuse_call cb requestId CONNECTION_UNAVAILABLE ''connection not connected'' cl)"

text \<open>The public \<open>call\<close>: \<open>inLoop\<close> tells whether the caller is the loop's thread. The id in the arguments
  is overwritten with the next one. The two shorter overloads fill in the defaults.\<close>

definition client_call ::
  "bool \<Rightarrow> nat \<Rightarrow> ('c \<Rightarrow> bool) \<Rightarrow> bool \<Rightarrow> 'k call_args \<Rightarrow> ('c, 'k) client \<Rightarrow> (u64 \<times> ('c, 'k) outcome) option" where
  "client_call le kMax up inLoop a cl =
     (if \<not> ca_timeout a \<ge> 0 \<or> \<not> ca_reconnectTimeout a \<ge> 0 then None
      else
        let requestId = cl_nextRequestId cl;
            cl = cl\<lparr>cl_nextRequestId := requestId + 1\<rparr>;
            a = a\<lparr>ca_requestId := requestId\<rparr>;
            (effs, tasks, cl) =
              (if inLoop then callInLoop le kMax up a cl
               else ([], [], cl\<lparr>cl_queue := cl_queue cl @ [CallFunctor a]\<rparr>))
        in Some (requestId, Issued requestId (ca_callback a) # effs, tasks, cl))"

definition call_args_default :: "string \<Rightarrow> string \<Rightarrow> string \<Rightarrow> 'k \<Rightarrow> milliseconds \<Rightarrow> ('c, 'k) client \<Rightarrow> 'k call_args" where
  "call_args_default service meth payload cb timeout cl =
     \<lparr>ca_requestId = 0, ca_service = service, ca_method = meth, ca_payload = payload, ca_callback = cb,
      ca_timeout = timeout, ca_allowReconnect = cl_defaultAllowResend cl, ca_reconnectTimeout = 0,
      ca_resendLimit = None\<rparr>"

definition client_call4 ::
  "bool \<Rightarrow> nat \<Rightarrow> ('c \<Rightarrow> bool) \<Rightarrow> bool \<Rightarrow> string \<Rightarrow> string \<Rightarrow> string \<Rightarrow> 'k \<Rightarrow> ('c, 'k) client \<Rightarrow>
     (u64 \<times> ('c, 'k) outcome) option" where
  "client_call4 le kMax up inLoop service meth payload cb cl =
     client_call le kMax up inLoop (call_args_default service meth payload cb (cl_defaultTimeout cl) cl) cl"

definition client_call5 ::
  "bool \<Rightarrow> nat \<Rightarrow> ('c \<Rightarrow> bool) \<Rightarrow> bool \<Rightarrow> string \<Rightarrow> string \<Rightarrow> string \<Rightarrow> 'k \<Rightarrow> milliseconds \<Rightarrow> ('c, 'k) client \<Rightarrow>
     (u64 \<times> ('c, 'k) outcome) option" where
  "client_call5 le kMax up inLoop service meth payload cb timeout cl =
     client_call le kMax up inLoop (call_args_default service meth payload cb timeout cl) cl"

subsection \<open>Cancelling\<close>

definition sendCancel :: "bool \<Rightarrow> ('c \<Rightarrow> bool) \<Rightarrow> u64 \<Rightarrow> ('c, 'k) client \<Rightarrow> ('c, 'k) effect list" where
  "sendCancel le up requestId cl =
     (case cl_conn cl of
        None \<Rightarrow> []
      | Some conn \<Rightarrow>
          if \<not> up conn then []
          else case RpcCancel_encode le \<lparr>cn_requestId = requestId\<rparr> [] [] of
            None \<Rightarrow> [Broken]
          | Some (res, output, errorMsg) \<Rightarrow> if \<not> res \<or> errorMsg \<noteq> [] then [] else [Send conn output])"

definition ignore_response :: "milliseconds \<Rightarrow> u64 \<Rightarrow> ('c, 'k) client \<Rightarrow> ('c, 'k) client" where
  "ignore_response now requestId cl =
     cl\<lparr>cl_ignoredResponseRequests := m_put requestId (now + 60000) (cl_ignoredResponseRequests cl)\<rparr>"

definition cancelInLoop ::
  "bool \<Rightarrow> ('c \<Rightarrow> bool) \<Rightarrow> milliseconds \<Rightarrow> u64 \<Rightarrow> ('c, 'k) client \<Rightarrow> ('c, 'k) outcome" where
  "cancelInLoop le up now requestId cl =
     (case m_find (cl_pendingRequests cl) requestId of
        None \<Rightarrow> ([], [], cl)
      | Some p \<Rightarrow>
          let cl = ignore_response now requestId (erase_pending requestId (cancel_timer (pr_timerId p) cl))
          in (sendCancel le up requestId cl,
              [DoCallback (pr_callback p) (failed_response requestId REQUEST_CANCELED ''rpc request canceled'')], cl))"

definition client_cancel ::
  "bool \<Rightarrow> ('c \<Rightarrow> bool) \<Rightarrow> milliseconds \<Rightarrow> bool \<Rightarrow> u64 \<Rightarrow> ('c, 'k) client \<Rightarrow> ('c, 'k) outcome" where
  "client_cancel le up now inLoop requestId cl =
     (if inLoop then cancelInLoop le up now requestId cl
      else ([], [], cl\<lparr>cl_queue := cl_queue cl @ [CancelFunctor requestId]\<rparr>))"

subsection \<open>Responses and time\<close>

definition client_onRpcMessage ::
  "bool \<Rightarrow> nat \<Rightarrow> 'c \<Rightarrow> string \<Rightarrow> ('c, 'k) client \<Rightarrow> ('c, 'k) outcome" where
  "client_onRpcMessage le kMax conn msg cl =
     (if msg = [] then ([CloseConn conn], [], cl)
      else if length msg > (case cl_maxMessageSize cl of None \<Rightarrow> kMax | Some m \<Rightarrow> m) then ([CloseConn conn], [], cl)
      else case decodeHead le msg kRequest of
        None \<Rightarrow> ([Broken], [], cl)
      | Some (ok, messageType) \<Rightarrow>
          if \<not> ok \<or> messageType \<noteq> kResponse then ([CloseConn conn], [], cl)
          else case RpcResponse_decode le RpcResponse_default msg [] of
            None \<Rightarrow> ([Broken], [], cl)
          | Some (res, response, errorMsg) \<Rightarrow>
              if \<not> res \<or> errorMsg \<noteq> [] then ([CloseConn conn], [], cl)
              else case m_find (cl_pendingRequests cl) (rs_requestId response) of
                None \<Rightarrow>
                  if m_find (cl_ignoredResponseRequests cl) (rs_requestId response) \<noteq> None
                  then ([], [], cl\<lparr>cl_ignoredResponseRequests :=
                          m_erase (rs_requestId response) (cl_ignoredResponseRequests cl)\<rparr>)
                  else ([CloseConn conn], [], cl)
              | Some p \<Rightarrow>
                  ([], [DoCallback (pr_callback p) response],
                   erase_pending (rs_requestId response) (cancel_timer (pr_timerId p) cl)))"

definition onRequestTimeout ::
  "bool \<Rightarrow> ('c \<Rightarrow> bool) \<Rightarrow> milliseconds \<Rightarrow> u64 \<Rightarrow> ('c, 'k) client \<Rightarrow> ('c, 'k) outcome" where
  "onRequestTimeout le up now requestId cl =
     (case m_find (cl_pendingRequests cl) requestId of
        None \<Rightarrow> ([], [], cl)
      | Some p \<Rightarrow>
          if pr_phase p \<noteq> kWaitingResponse then ([], [], cl)
          else
            let cl = ignore_response now requestId (erase_pending requestId cl)
            in (sendCancel le up requestId cl,
                [DoCallback (pr_callback p) (failed_response requestId REQUEST_TIMEOUT ''rpc request timeout'')], cl))"

definition onReconnectTimeout :: "u64 \<Rightarrow> ('c, 'k) client \<Rightarrow> ('c, 'k) outcome" where
  "onReconnectTimeout requestId cl =
     (case m_find (cl_pendingRequests cl) requestId of
        None \<Rightarrow> ([], [], cl)
      | Some p \<Rightarrow>
          if pr_phase p \<noteq> kWaitingReconnect then ([], [], cl)
          else
            let p = p\<lparr>pr_remainingResends := pr_remainingResends p - 1\<rparr> in
            if pr_remainingResends p = 0 then
              ([], [DoCallback (pr_callback p) (failed_response requestId RECONNECT_TIMEOUT ''rpc reconnect timeout'')],
               erase_pending requestId cl)
            else
              let (timerId, cl) = runAfter (pr_reconnectTimeout p) (OnReconnectTimeout requestId) cl
              in ([], [], set_pending requestId (p\<lparr>pr_timerId := Some timerId\<rparr>) cl))"

text \<open>A timer fires: a one-shot timer is gone when its function runs.\<close>

definition fire_timer ::
  "bool \<Rightarrow> ('c \<Rightarrow> bool) \<Rightarrow> milliseconds \<Rightarrow> TimerId \<Rightarrow> ('c, 'k) client \<Rightarrow> ('c, 'k) outcome" where
  "fire_timer le up now t cl =
     (case m_find (cl_timers cl) t of
        None \<Rightarrow> ([], [], cl)
      | Some (OnRequestTimeout rid, _) \<Rightarrow> onRequestTimeout le up now rid (cancel_timer (Some t) cl)
      | Some (OnReconnectTimeout rid, _) \<Rightarrow> onReconnectTimeout rid (cancel_timer (Some t) cl)
      | Some (OnClearExpired, _) \<Rightarrow> ([], [], clearExpiredIgnoredResponseRequests now cl))"

subsection \<open>Resending after a reconnect\<close>

definition waitingToResend :: "('c, 'k) client \<Rightarrow> u64 list" where
  "waitingToResend cl = map fst (filter (\<lambda>item. \<not> (pr_phase (snd item) \<noteq> kWaitingReconnect \<or>
     \<not> pr_allowReconnect (snd item) \<or> pr_remainingResends (snd item) = 0)) (cl_pendingRequests cl))"

text \<open>One round of the loop of \<open>checkReconnect\<close>, for the request \<open>item\<close>, with the rest of the loop as
  the task that follows; the first test leaves the whole loop.\<close>

definition resend_one ::
  "bool \<Rightarrow> ('c \<Rightarrow> bool) \<Rightarrow> 'c \<Rightarrow> u64 \<Rightarrow> u64 list \<Rightarrow> ('c, 'k) client \<Rightarrow> ('c, 'k) outcome" where
  "resend_one le up conn item items cl =
     (if cl_conn cl \<noteq> Some conn \<or> cl_status cl \<noteq> kConnected \<or> \<not> up conn then ([], [], cl)
      else case m_find (cl_pendingRequests cl) item of
        None \<Rightarrow> ([], [ResendLoop conn items], cl)
      | Some p \<Rightarrow>
          if pr_phase p \<noteq> kWaitingReconnect then ([], [ResendLoop conn items], cl)
          else
            let cl = cancel_timer (pr_timerId p) cl;
                p = p\<lparr>pr_timerId := None, pr_remainingResends := pr_remainingResends p - 1,
                      pr_phase := kWaitingResponse\<rparr>
            in case RpcRequest_encode le \<lparr>rq_requestId = item, rq_service = pr_serviceName p,
                      rq_method = pr_methodName p, rq_payload = pr_payload p\<rparr> [] [] of
                 None \<Rightarrow> ([Broken], [], cl)
               | Some (res, output, errorMsg) \<Rightarrow>
                   if \<not> res \<or> errorMsg \<noteq> [] then
                     ([], [DoCallback (pr_callback p) (failed_response item INTERNAL_ERROR errorMsg), ResendLoop conn items],
                      erase_pending item cl)
                   else
                     let cl = (if pr_requestTimeout p > 0 then
                                 let (timerId, cl) = runAfter (pr_requestTimeout p) (OnRequestTimeout item) cl
                                 in set_pending item (p\<lparr>pr_timerId := Some timerId\<rparr>) cl
                               else set_pending item p cl)
                     in ([Send conn output], [ResendLoop conn items], cl))"

subsection \<open>Tasks\<close>

text \<open>Doing the next task of the call stack. A callback of the application leaves the marker behind,
  which stays until that callback returns.\<close>

fun run_task :: "bool \<Rightarrow> ('c \<Rightarrow> bool) \<Rightarrow> ('c, 'k) task \<Rightarrow> ('c, 'k) client \<Rightarrow> ('c, 'k) outcome" where
  "run_task le up (DoCallback cb response) cl = ([CalledBack cb response], [InUserCode], cl)"
| "run_task le up (DoConnectionCallback conn) cl = ([ConnectionReported conn], [InUserCode], cl)"
| "run_task le up (DoErrorCallback e) cl = ([ErrorReported e], [InUserCode], cl)"
| "run_task le up ClearIgnored cl = ([], [], clearIgnoredResponseRequests cl)"
| "run_task le up (CheckReconnect conn) cl =
     ([], if cl_conn cl = Some conn then [ResendLoop conn (waitingToResend cl)] else [], cl)"
| "run_task le up (ResendLoop conn []) cl = ([], [], cl)"
| "run_task le up (ResendLoop conn (item # items)) cl = resend_one le up conn item items cl"
| "run_task le up InUserCode cl = ([], [], cl)"

text \<open>A functor queued by another thread.\<close>

fun run_functor ::
  "bool \<Rightarrow> nat \<Rightarrow> ('c \<Rightarrow> bool) \<Rightarrow> milliseconds \<Rightarrow> 'k loop_functor \<Rightarrow> ('c, 'k) client \<Rightarrow> ('c, 'k) outcome" where
  "run_functor le kMax up now (CallFunctor a) cl = callInLoop le kMax up a cl"
| "run_functor le kMax up now (CancelFunctor rid) cl = cancelInLoop le up now rid cl"

end
