(* ===== verification/Rpc_Client_Invariant.thy ===== *)
theory Rpc_Client_Invariant
  imports Rpc_Client
begin

section \<open>The consistency of the client's state\<close>

text \<open>
  When the state of \<open>RpcClient\<close> is consistent: pending requests and timers of the loop correspond one to
  one, every pending request fits the size limit and the limit on pending requests holds. Every operation
  keeps this, and neither loses nor duplicates a call (\<open>op_ok\<close>); \<open>Rpc_Client_Runs\<close> lifts this to runs.
\<close>

subsection \<open>Pending requests and their timers\<close>

text \<open>The timer a pending request should have.\<close>

definition timer_of :: "u64 \<Rightarrow> 'k PendingRequest \<Rightarrow> timer_task \<times> milliseconds" where
  "timer_of rid p =
     (case pr_phase p of
        kWaitingResponse \<Rightarrow> (OnRequestTimeout rid, pr_requestTimeout p)
      | kWaitingReconnect \<Rightarrow> (OnReconnectTimeout rid, pr_reconnectTimeout p))"

definition armed :: "'k PendingRequest \<Rightarrow> bool" where
  "armed p \<longleftrightarrow> pr_phase p = kWaitingReconnect \<or> pr_requestTimeout p > 0"

text \<open>Requests and timers correspond: a request that waits for a connection, or for a response with a
  time limit, has its timer running with the right function and duration; every running timer belongs to
  exactly such a request or is the periodic one; a request waits for a connection only with attempts
  left.\<close>

definition timers_ok ::
  "(u64, 'k PendingRequest) umap \<Rightarrow> (TimerId, timer_task \<times> milliseconds) umap \<Rightarrow> TimerId \<Rightarrow> TimerId option \<Rightarrow> bool" where
  "timers_ok pend tms nxt clr \<longleftrightarrow> m_wf pend \<and> m_wf tms \<and> (\<forall>t \<in> m_keys tms. t < nxt) \<and>
     (\<forall>rid p. m_find pend rid = Some p \<longrightarrow> (pr_timerId p \<noteq> None \<longleftrightarrow> armed p)) \<and>
     (\<forall>rid p t. m_find pend rid = Some p \<longrightarrow> pr_timerId p = Some t \<longrightarrow> m_find tms t = Some (timer_of rid p)) \<and>
     (\<forall>t e. m_find tms t = Some e \<longrightarrow> clr = Some t \<or>
        (\<exists>rid p. m_find pend rid = Some p \<and> pr_timerId p = Some t)) \<and>
     (\<forall>t. clr = Some t \<longrightarrow> m_find tms t = Some (OnClearExpired, 1000))"

definition client_timers :: "('c, 'k) client \<Rightarrow> bool" where
  "client_timers cl \<longleftrightarrow>
     timers_ok (cl_pendingRequests cl) (cl_timers cl) (cl_nextTimer cl) (cl_clearTimerId cl)"

declare map_of_eq_Some_iff [simp del] Some_eq_map_of_iff [simp del]

lemma timers_ok_clauses:
  assumes "timers_ok pend tms nxt clr"
  shows "m_wf pend" "m_wf tms" "\<And>t. t \<in> m_keys tms \<Longrightarrow> t < nxt"
    and "\<And>rid p. m_find pend rid = Some p \<Longrightarrow> pr_timerId p \<noteq> None \<longleftrightarrow> armed p"
    and "\<And>rid p t. m_find pend rid = Some p \<Longrightarrow> pr_timerId p = Some t \<Longrightarrow> m_find tms t = Some (timer_of rid p)"
    and "\<And>t e. m_find tms t = Some e \<Longrightarrow> clr = Some t \<or> (\<exists>rid p. m_find pend rid = Some p \<and> pr_timerId p = Some t)"
    and "\<And>t. clr = Some t \<Longrightarrow> m_find tms t = Some (OnClearExpired, 1000)"
  using assms unfolding timers_ok_def by blast+

lemma timer_of_not_clear: "timer_of rid p \<noteq> (OnClearExpired, d)"
  by (simp add: timer_of_def split: RequestPhase.split)

lemma timer_of_inj: "timer_of rid p = timer_of rid' p' \<Longrightarrow> rid = rid'"
  by (simp add: timer_of_def split: RequestPhase.splits)

lemma timers_ok_unique:
  assumes "timers_ok pend tms nxt clr" and "m_find pend rid = Some p" "pr_timerId p = Some t"
  shows "clr \<noteq> Some t" and "m_find pend rid' = Some p' \<Longrightarrow> pr_timerId p' = Some t \<Longrightarrow> rid' = rid"
proof -
  have t: "m_find tms t = Some (timer_of rid p)"
    using assms by (rule timers_ok_clauses(5))
  show "clr \<noteq> Some t"
    using timers_ok_clauses(7)[OF assms(1), of t] t timer_of_not_clear[of rid p 1000] by auto
  show "rid' = rid" if "m_find pend rid' = Some p'" "pr_timerId p' = Some t"
    using timers_ok_clauses(5)[OF assms(1) that] t timer_of_inj[of rid' p' rid p] by simp
qed

definition erase_timer :: "TimerId option \<Rightarrow> (TimerId, timer_task \<times> milliseconds) umap \<Rightarrow> (TimerId, timer_task \<times> milliseconds) umap" where
  "erase_timer t tms = (case t of None \<Rightarrow> tms | Some i \<Rightarrow> m_erase i tms)"

lemma m_find_erase_timer: "m_find (erase_timer t tms) i = (if t = Some i then None else m_find tms i)"
  by (auto simp: erase_timer_def umap_simps split: option.split)

lemma m_keys_erase_timer: "m_keys (erase_timer t tms) \<subseteq> m_keys tms"
  by (auto simp: erase_timer_def set_m_erase split: option.split)

lemma m_wf_erase_timer: "m_wf tms \<Longrightarrow> m_wf (erase_timer t tms)"
  by (simp add: erase_timer_def umap_simps split: option.split)

text \<open>Taking a request out together with its timer.\<close>

lemma timers_ok_drop:
  assumes ok: "timers_ok pend tms nxt clr" and p: "m_find pend rid = Some p"
  shows "timers_ok (m_erase rid pend) (erase_timer (pr_timerId p) tms) nxt clr"
proof -
  let ?pend = "m_erase rid pend" and ?tms = "erase_timer (pr_timerId p) tms"
  have other: "pr_timerId p \<noteq> Some t" if "m_find ?pend rid' = Some p'" "pr_timerId p' = Some t" for rid' p' t
    using that timers_ok_unique(2)[OF ok p, of t rid' p'] by (auto simp: umap_simps split: if_splits)
  have "m_wf ?pend" "m_wf ?tms"
    using timers_ok_clauses(1,2)[OF ok] by (simp_all add: umap_simps m_wf_erase_timer)
  moreover have "\<forall>t \<in> m_keys ?tms. t < nxt"
    using timers_ok_clauses(3)[OF ok] m_keys_erase_timer by blast
  moreover have "pr_timerId p' \<noteq> None \<longleftrightarrow> armed p'" if "m_find ?pend rid' = Some p'" for rid' p'
    using that timers_ok_clauses(4)[OF ok, of rid' p'] by (simp add: umap_simps split: if_splits)
  moreover have "m_find ?tms t = Some (timer_of rid' p')"
    if "m_find ?pend rid' = Some p'" "pr_timerId p' = Some t" for rid' p' t
    using that other[OF that] timers_ok_clauses(5)[OF ok, of rid' p' t]
    by (simp add: umap_simps m_find_erase_timer split: if_splits)
  moreover have "clr = Some t \<or> (\<exists>rid' p'. m_find ?pend rid' = Some p' \<and> pr_timerId p' = Some t)"
    if "m_find ?tms t = Some e" for t e
  proof -
    have t: "pr_timerId p \<noteq> Some t" "m_find tms t = Some e"
      using that by (auto simp: m_find_erase_timer split: if_splits)
    then consider "clr = Some t" | rid' p' where "m_find pend rid' = Some p'" "pr_timerId p' = Some t"
      using timers_ok_clauses(6)[OF ok, of t e] by blast
    then show ?thesis
    proof cases
      case (2 rid' p')
      with t(1) p have "rid' \<noteq> rid" by auto
      with 2 show ?thesis by (auto simp: umap_simps)
    qed blast
  qed
  moreover have "m_find ?tms t = Some (OnClearExpired, 1000)" if "clr = Some t" for t
    using that timers_ok_clauses(7)[OF ok, of t] timers_ok_unique(1)[OF ok p, of t]
    by (auto simp: m_find_erase_timer)
  ultimately show ?thesis unfolding timers_ok_def by blast
qed

text \<open>Putting a request in, without a timer or with a fresh one.\<close>

lemma timers_ok_put_plain:
  assumes ok: "timers_ok (m_erase rid pend) tms nxt clr" and wf: "m_wf pend"
    and p: "\<not> armed p" "pr_timerId p = None"
  shows "timers_ok (m_put rid p pend) tms nxt clr"
proof -
  have find: "m_find (m_put rid p pend) rid' = (if rid' = rid then Some p else m_find (m_erase rid pend) rid')" for rid'
    by (simp add: umap_simps)
  have "clr = Some t \<or> (\<exists>rid' p'. m_find (m_put rid p pend) rid' = Some p' \<and> pr_timerId p' = Some t)"
    if "m_find tms t = Some e" for t e
  proof -
    consider "clr = Some t" | rid' p' where "m_find (m_erase rid pend) rid' = Some p'" "pr_timerId p' = Some t"
      using timers_ok_clauses(6)[OF ok, of t e] \<open>m_find tms t = Some e\<close> by blast
    then show ?thesis by cases (auto simp: umap_simps split: if_splits)
  qed
  moreover have "pr_timerId p' \<noteq> None \<longleftrightarrow> armed p'" if "m_find (m_put rid p pend) rid' = Some p'" for rid' p'
    using that p timers_ok_clauses(4)[OF ok, of rid' p'] unfolding find by (auto split: if_splits)
  moreover have "m_find tms t = Some (timer_of rid' p')"
    if "m_find (m_put rid p pend) rid' = Some p'" "pr_timerId p' = Some t" for rid' p' t
    using that p timers_ok_clauses(5)[OF ok, of rid' p' t] unfolding find by (auto split: if_splits)
  ultimately show ?thesis
    using timers_ok_clauses(2,3,7)[OF ok] m_wf_put[OF wf] unfolding timers_ok_def by blast
qed

lemma timers_ok_put_armed:
  assumes ok: "timers_ok (m_erase rid pend) tms nxt clr" and wf: "m_wf pend"
    and p: "armed p" "pr_timerId p = Some nxt"
  shows "timers_ok (m_put rid p pend) (m_put nxt (timer_of rid p) tms) (nxt + 1) clr"
proof -
  let ?tms = "m_put nxt (timer_of rid p) tms"
  have find: "m_find (m_put rid p pend) rid' = (if rid' = rid then Some p else m_find (m_erase rid pend) rid')" for rid'
    by (simp add: umap_simps)
  have fresh: "m_find tms nxt = None" using timers_ok_clauses(3)[OF ok, of nxt] by (auto simp: m_find_None_iff)
  have "clr = Some t \<or> (\<exists>rid' p'. m_find (m_put rid p pend) rid' = Some p' \<and> pr_timerId p' = Some t)"
    if "m_find ?tms t = Some e" for t e
  proof (cases "t = nxt")
    case True
    with p show ?thesis by (auto simp: umap_simps)
  next
    case False
    with that have "m_find tms t = Some e" by (simp add: umap_simps)
    then consider "clr = Some t" | rid' p' where "m_find (m_erase rid pend) rid' = Some p'" "pr_timerId p' = Some t"
      using timers_ok_clauses(6)[OF ok] by blast
    then show ?thesis by cases (auto simp: umap_simps split: if_splits)
  qed
  moreover have "pr_timerId p' \<noteq> None \<longleftrightarrow> armed p'" if "m_find (m_put rid p pend) rid' = Some p'" for rid' p'
    using that p timers_ok_clauses(4)[OF ok, of rid' p'] unfolding find by (auto split: if_splits)
  moreover have "m_find ?tms t = Some (timer_of rid' p')"
    if "m_find (m_put rid p pend) rid' = Some p'" "pr_timerId p' = Some t" for rid' p' t
  proof (cases "rid' = rid")
    case True
    with that p show ?thesis by (simp add: find umap_simps)
  next
    case False
    then have "m_find tms t = Some (timer_of rid' p')"
      using that by (intro timers_ok_clauses(5)[OF ok]) (simp_all add: find)
    with fresh show ?thesis by (auto simp: umap_simps)
  qed
  moreover have "m_find ?tms t = Some (OnClearExpired, 1000)" if "clr = Some t" for t
    using timers_ok_clauses(7)[OF ok that] fresh by (auto simp: umap_simps)
  moreover have "\<forall>t \<in> m_keys ?tms. t < nxt + 1"
    unfolding m_keys_put using timers_ok_clauses(3)[OF ok] by (auto intro: less_SucI)
  moreover have "m_wf ?tms" using timers_ok_clauses(2)[OF ok] by (simp add: umap_simps)
  ultimately show ?thesis
    using m_wf_put[OF wf] unfolding timers_ok_def by blast
qed

subsection \<open>Where a call can be\<close>

text \<open>A call, named by its request id and callback, is in the queue of functors, pending, on the stack as
  a callback to be made, or called back.\<close>

fun functor_call :: "'k loop_functor \<Rightarrow> (u64 \<times> 'k) list" where
  "functor_call (CallFunctor a) = [(ca_requestId a, ca_callback a)]"
| "functor_call (CancelFunctor rid) = []"

fun task_call :: "('c, 'k) task \<Rightarrow> (u64 \<times> 'k) list" where
  "task_call (DoCallback cb r) = [(rs_requestId r, cb)]"
| "task_call _ = []"

fun effect_call :: "('c, 'k) effect \<Rightarrow> (u64 \<times> 'k) list" where
  "effect_call (CalledBack cb r) = [(rs_requestId r, cb)]"
| "effect_call _ = []"

fun effect_issue :: "('c, 'k) effect \<Rightarrow> (u64 \<times> 'k) list" where
  "effect_issue (Issued rid cb) = [(rid, cb)]"
| "effect_issue _ = []"

definition calls_of :: "('x \<Rightarrow> (u64 \<times> 'k) list) \<Rightarrow> 'x list \<Rightarrow> (u64 \<times> 'k) multiset" where
  "calls_of f xs = mset (concat (map f xs))"

definition pending_calls :: "(u64, 'k PendingRequest) umap \<Rightarrow> (u64 \<times> 'k) multiset" where
  "pending_calls pend = image_mset (\<lambda>(rid, p). (rid, pr_callback p)) (mset pend)"

definition held_calls :: "('c, 'k) client \<Rightarrow> (u64 \<times> 'k) multiset" where
  "held_calls cl = calls_of functor_call (cl_queue cl) + pending_calls (cl_pendingRequests cl)"

lemma calls_of_simps [simp]:
  "calls_of f [] = {#}" "calls_of f (x # xs) = mset (f x) + calls_of f xs"
  "calls_of f (xs @ ys) = calls_of f xs + calls_of f ys"
  by (simp_all add: calls_of_def)

lemma mset_m_put: "m_wf m \<Longrightarrow> mset (m_put k v m) = add_mset (k, v) (mset (m_erase k m))"
proof (induction m)
  case (Cons a m)
  show ?case
  proof (cases "fst a = k")
    case True
    with Cons.prems have "k \<notin> m_keys m" by auto
    then have "m_erase k m = m" by simp
    with True show ?thesis by (cases a) simp
  next
    case False
    with Cons show ?thesis by (cases a) simp
  qed
qed simp

lemma pending_calls_put:
  "m_wf pend \<Longrightarrow> pending_calls (m_put rid p pend) = add_mset (rid, pr_callback p) (pending_calls (m_erase rid pend))"
  by (simp add: pending_calls_def mset_m_put)

lemma pending_calls_erase:
  "m_wf pend \<Longrightarrow> m_find pend rid = Some p \<Longrightarrow>
     pending_calls pend = add_mset (rid, pr_callback p) (pending_calls (m_erase rid pend))"
  by (simp add: pending_calls_def mset_m_erase)

text \<open>The requests on the wire: what a pending entry stands for, and the effective size limit.\<close>

definition pending_request :: "u64 \<Rightarrow> 'k PendingRequest \<Rightarrow> RpcRequest" where
  "pending_request rid p = \<lparr>rq_requestId = rid, rq_service = pr_serviceName p, rq_method = pr_methodName p,
     rq_payload = pr_payload p\<rparr>"

definition client_max :: "nat \<Rightarrow> ('c, 'k) client \<Rightarrow> nat" where
  "client_max kMax cl = (case cl_maxMessageSize cl of None \<Rightarrow> kMax | Some m \<Rightarrow> m)"

text \<open>A pending request fits the limit, and waits for a connection only with attempts left.\<close>

definition entry_fits :: "nat \<Rightarrow> u64 \<Rightarrow> 'k PendingRequest \<Rightarrow> bool" where
  "entry_fits mx rid p \<longleftrightarrow> request_valid (pending_request rid p) \<and>
     length (request_wire (pending_request rid p)) \<le> mx \<and>
     (pr_phase p = kWaitingReconnect \<longrightarrow> pr_allowReconnect p \<and> pr_remainingResends p \<noteq> 0)"

definition pending_ok :: "nat \<Rightarrow> nat option \<Rightarrow> (u64, 'k PendingRequest) umap \<Rightarrow> bool" where
  "pending_ok mx limit pend \<longleftrightarrow> (\<forall>rid p. m_find pend rid = Some p \<longrightarrow> entry_fits mx rid p) \<and>
     (case limit of None \<Rightarrow> True | Some m \<Rightarrow> length pend \<le> m)"

definition client_ok :: "nat \<Rightarrow> ('c, 'k) client \<Rightarrow> bool" where
  "client_ok kMax cl \<longleftrightarrow> client_timers cl \<and>
     pending_ok (client_max kMax cl) (cl_maxPendingRequests cl) (cl_pendingRequests cl) \<and>
     (\<not> cl_hasConnectAttempted cl \<longrightarrow> cl_pendingRequests cl = [] \<and> cl_conn cl = None)"

text \<open>What an operation may do: it sends only encoded requests and cancel messages within the limit, and
  only the public call issues an id.\<close>

fun effect_ok :: "nat \<Rightarrow> ('c, 'k) effect \<Rightarrow> bool" where
  "effect_ok mx (Send conn bs) \<longleftrightarrow>
     (bs \<in> request_wire ` Collect request_valid \<or> bs \<in> range cancel_wire) \<and> length bs \<le> mx"
| "effect_ok mx Broken = False"
| "effect_ok mx (Issued rid cb) = False"
| "effect_ok mx _ = True"

text \<open>The next id, and the settings that are fixed once the first connection was attempted.\<close>

definition settled :: "('c, 'k) client \<Rightarrow> ('c, 'k) client \<Rightarrow> bool" where
  "settled cl cl' \<longleftrightarrow> cl_nextRequestId cl' = cl_nextRequestId cl \<and> (cl_hasConnectAttempted cl \<longrightarrow>
     cl_hasConnectAttempted cl' \<and> cl_maxMessageSize cl' = cl_maxMessageSize cl)"

text \<open>An operation that is handed the calls \<open>x\<close> is in order: it keeps the state consistent, neither
  loses nor duplicates a call, and sends only proper messages, none before the first connection
  attempt.\<close>

definition op_ok :: "nat \<Rightarrow> ('c, 'k) client \<Rightarrow> (u64 \<times> 'k) multiset \<Rightarrow> ('c, 'k) outcome \<Rightarrow> bool" where
  "op_ok kMax cl x r \<longleftrightarrow> (case r of (effs, tasks, cl') \<Rightarrow>
     client_ok kMax cl' \<and> settled cl cl' \<and>
     held_calls cl + x = held_calls cl' + calls_of task_call tasks + calls_of effect_call effs \<and>
     (\<forall>e \<in> set effs. effect_ok (client_max kMax cl) e) \<and>
     (\<not> cl_hasConnectAttempted cl \<longrightarrow> (\<forall>conn bs. Send conn bs \<notin> set effs)))"

subsection \<open>The building blocks of the operations\<close>

lemma cancel_timer_eq: "cancel_timer t cl = cl\<lparr>cl_timers := erase_timer t (cl_timers cl)\<rparr>"
  by (simp add: cancel_timer_def erase_timer_def split: option.split)

lemmas block_defs = cancel_timer_eq set_pending_def erase_pending_def runAfter_def ignore_response_def

text \<open>Fields that do not matter for the consistency of the state.\<close>

lemma client_ok_frame [simp]:
  "client_ok kMax (cl\<lparr>cl_ignoredResponseRequests := a\<rparr>) = client_ok kMax cl"
  "client_ok kMax (cl\<lparr>cl_queue := b\<rparr>) = client_ok kMax cl"
  "client_ok kMax (cl\<lparr>cl_nextRequestId := c\<rparr>) = client_ok kMax cl"
  "client_ok kMax (cl\<lparr>cl_status := d\<rparr>) = client_ok kMax cl"
  "client_ok kMax (cl\<lparr>cl_manualDisconnection := e\<rparr>) = client_ok kMax cl"
  by (simp_all add: client_ok_def client_timers_def client_max_def)

lemma held_calls_frame [simp]:
  "held_calls (cl\<lparr>cl_ignoredResponseRequests := a\<rparr>) = held_calls cl"
  "held_calls (cl\<lparr>cl_nextRequestId := c\<rparr>) = held_calls cl"
  "held_calls (cl\<lparr>cl_status := d\<rparr>) = held_calls cl"
  "held_calls (cl\<lparr>cl_manualDisconnection := e\<rparr>) = held_calls cl"
  "held_calls (cl\<lparr>cl_conn := f\<rparr>) = held_calls cl"
  "held_calls (cl\<lparr>cl_timers := g\<rparr>) = held_calls cl"
  "held_calls (cl\<lparr>cl_nextTimer := h\<rparr>) = held_calls cl"
  by (simp_all add: held_calls_def)

lemma client_max_frame [simp]:
  "client_max kMax (cl\<lparr>cl_ignoredResponseRequests := a\<rparr>) = client_max kMax cl"
  "client_max kMax (cl\<lparr>cl_nextRequestId := c\<rparr>) = client_max kMax cl"
  "client_max kMax (cl\<lparr>cl_status := d\<rparr>) = client_max kMax cl"
  "client_max kMax (cl\<lparr>cl_manualDisconnection := e\<rparr>) = client_max kMax cl"
  "client_max kMax (cl\<lparr>cl_conn := f\<rparr>) = client_max kMax cl"
  "client_max kMax (cl\<lparr>cl_timers := g\<rparr>) = client_max kMax cl"
  "client_max kMax (cl\<lparr>cl_nextTimer := h\<rparr>) = client_max kMax cl"
  "client_max kMax (cl\<lparr>cl_queue := i\<rparr>) = client_max kMax cl"
  "client_max kMax (cl\<lparr>cl_pendingRequests := j\<rparr>) = client_max kMax cl"
  by (simp_all add: client_max_def)

lemma client_ok_clauses:
  assumes "client_ok kMax cl"
  shows "timers_ok (cl_pendingRequests cl) (cl_timers cl) (cl_nextTimer cl) (cl_clearTimerId cl)"
    and "m_wf (cl_pendingRequests cl)"
    and "\<And>rid p. m_find (cl_pendingRequests cl) rid = Some p \<Longrightarrow> entry_fits (client_max kMax cl) rid p"
    and "m_find (cl_pendingRequests cl) rid = Some p \<Longrightarrow> cl_hasConnectAttempted cl"
  using assms by (auto simp: client_ok_def client_timers_def timers_ok_clauses pending_ok_def)

lemma pending_ok_erase: "m_wf pend \<Longrightarrow> pending_ok mx limit pend \<Longrightarrow> pending_ok mx limit (m_erase rid pend)"
  using length_delete_le[of rid pend]
  by (auto simp: pending_ok_def umap_simps split: option.splits intro: le_trans)

lemma pending_ok_replace:
  assumes "m_wf pend" "pending_ok mx limit pend" "m_find pend rid = Some p" "entry_fits mx rid p'"
  shows "pending_ok mx limit (m_put rid p' pend)"
  using assms by (auto simp: pending_ok_def umap_simps split: option.splits)

text \<open>A request is taken out with its timer.\<close>

lemma client_ok_drop:
  assumes ok: "client_ok kMax cl" and p: "m_find (cl_pendingRequests cl) rid = Some p"
  shows "client_ok kMax (erase_pending rid (cancel_timer (pr_timerId p) cl))"
    and "held_calls cl = add_mset (rid, pr_callback p) (held_calls (erase_pending rid (cancel_timer (pr_timerId p) cl)))"
proof -
  note c = client_ok_clauses[OF ok]
  have "timers_ok (m_erase rid (cl_pendingRequests cl)) (erase_timer (pr_timerId p) (cl_timers cl))
      (cl_nextTimer cl) (cl_clearTimerId cl)"
    using c(1) p by (rule timers_ok_drop)
  then show "client_ok kMax (erase_pending rid (cancel_timer (pr_timerId p) cl))"
    using ok c(4)[OF p] pending_ok_erase[OF c(2)]
    by (simp add: client_ok_def client_timers_def block_defs)
  show "held_calls cl = add_mset (rid, pr_callback p) (held_calls (erase_pending rid (cancel_timer (pr_timerId p) cl)))"
    using pending_calls_erase[OF c(2) p] by (simp add: held_calls_def block_defs)
qed

text \<open>A request gets a new timer in place of its old one, or none.\<close>

lemma client_ok_rearm:
  assumes ok: "client_ok kMax cl" and p: "m_find (cl_pendingRequests cl) rid = Some p"
    and p': "entry_fits (client_max kMax cl) rid p'" "armed p'" "pr_callback p' = pr_callback p" "timer_of rid p' = (f, d)"
    and run: "runAfter d f (cancel_timer (pr_timerId p) cl) = (t, cl')"
  shows "client_ok kMax (set_pending rid (p'\<lparr>pr_timerId := Some t\<rparr>) cl')"
    and "held_calls (set_pending rid (p'\<lparr>pr_timerId := Some t\<rparr>) cl') = held_calls cl"
proof -
  let ?p = "p'\<lparr>pr_timerId := Some t\<rparr>"
  note c = client_ok_clauses[OF ok]
  have t: "t = cl_nextTimer cl" and cl': "cl' = cl\<lparr>cl_timers := m_put t (f, d) (erase_timer (pr_timerId p) (cl_timers cl)),
      cl_nextTimer := t + 1\<rparr>"
    using run by (auto simp: block_defs)
  have same: "timer_of rid ?p = (f, d)" "armed ?p" "entry_fits (client_max kMax cl) rid ?p"
    using p' by (simp_all add: timer_of_def armed_def entry_fits_def pending_request_def cong: RequestPhase.case_cong)
  have "timers_ok (m_put rid ?p (cl_pendingRequests cl))
      (m_put t (timer_of rid ?p) (erase_timer (pr_timerId p) (cl_timers cl))) (t + 1) (cl_clearTimerId cl)"
    unfolding t
    by (rule timers_ok_put_armed[OF timers_ok_drop[OF c(1) p] c(2)]) (use same(2) t in simp_all)
  then show "client_ok kMax (set_pending rid ?p cl')"
    using ok c(4)[OF p] pending_ok_replace[OF c(2) _ p same(3)]
    by (simp add: client_ok_def client_timers_def set_pending_def cl' same(1))
  show "held_calls (set_pending rid ?p cl') = held_calls cl"
    using pending_calls_put[OF c(2), of rid ?p] pending_calls_erase[OF c(2) p] p'(3)
    by (simp add: held_calls_def set_pending_def cl')
qed

lemma client_ok_unarm:
  assumes ok: "client_ok kMax cl" and p: "m_find (cl_pendingRequests cl) rid = Some p"
    and p': "entry_fits (client_max kMax cl) rid p'" "\<not> armed p'" "pr_callback p' = pr_callback p" "pr_timerId p' = None"
  shows "client_ok kMax (set_pending rid p' (cancel_timer (pr_timerId p) cl))"
    and "held_calls (set_pending rid p' (cancel_timer (pr_timerId p) cl)) = held_calls cl"
proof -
  note c = client_ok_clauses[OF ok]
  have "timers_ok (m_put rid p' (cl_pendingRequests cl)) (erase_timer (pr_timerId p) (cl_timers cl))
      (cl_nextTimer cl) (cl_clearTimerId cl)"
    by (rule timers_ok_put_plain[OF timers_ok_drop[OF c(1) p] c(2) p'(2,4)])
  then show "client_ok kMax (set_pending rid p' (cancel_timer (pr_timerId p) cl))"
    using ok c(4)[OF p] pending_ok_replace[OF c(2) _ p p'(1)]
    by (simp add: client_ok_def client_timers_def block_defs)
  show "held_calls (set_pending rid p' (cancel_timer (pr_timerId p) cl)) = held_calls cl"
    using pending_calls_put[OF c(2), of rid p'] pending_calls_erase[OF c(2) p] p'(3)
    by (simp add: held_calls_def block_defs)
qed

text \<open>A new request is put in.\<close>

definition add_request :: "u64 \<Rightarrow> 'k PendingRequest \<Rightarrow> ('c, 'k) client \<Rightarrow> ('c, 'k) client" where
  "add_request rid p cl =
     (if pr_requestTimeout p > 0 then
        let (t, cl) = runAfter (pr_requestTimeout p) (OnRequestTimeout rid) (set_pending rid p cl)
        in set_pending rid (p\<lparr>pr_timerId := Some t\<rparr>) cl
      else set_pending rid p cl)"

lemma client_ok_add:
  assumes ok: "client_ok kMax cl" and fresh: "m_find (cl_pendingRequests cl) rid = None"
    and p: "entry_fits (client_max kMax cl) rid p" "pr_phase p = kWaitingResponse" "pr_timerId p = None"
    and att: "cl_hasConnectAttempted cl"
    and room: "case cl_maxPendingRequests cl of None \<Rightarrow> True | Some m \<Rightarrow> length (cl_pendingRequests cl) < m"
  shows "client_ok kMax (add_request rid p cl)"
    and "held_calls (add_request rid p cl) = add_mset (rid, pr_callback p) (held_calls cl)"
    and "cl_hasConnectAttempted (add_request rid p cl) = cl_hasConnectAttempted cl"
    and "cl_maxMessageSize (add_request rid p cl) = cl_maxMessageSize cl"
    and "cl_nextRequestId (add_request rid p cl) = cl_nextRequestId cl"
proof -
  note c = client_ok_clauses[OF ok]
  let ?pend = "cl_pendingRequests cl"
  have same: "m_erase rid ?pend = ?pend" using fresh by (rule m_erase_notin)
  have fits: "pending_ok (client_max kMax cl) (cl_maxPendingRequests cl) (m_put rid q ?pend)"
    if "entry_fits (client_max kMax cl) rid q" for q
    using ok room fresh that by (auto simp: client_ok_def pending_ok_def umap_simps split: option.splits)
  have q: "entry_fits (client_max kMax cl) rid (p\<lparr>pr_timerId := x\<rparr>)" for x
    using p(1) by (simp add: entry_fits_def pending_request_def)
  have plain: "timers_ok (m_put rid p ?pend) (cl_timers cl) (cl_nextTimer cl) (cl_clearTimerId cl)"
    if "\<not> pr_requestTimeout p > 0"
    using timers_ok_put_plain[of rid ?pend "cl_timers cl" "cl_nextTimer cl" "cl_clearTimerId cl" p] c(1,2) p that
    by (simp add: same armed_def)
  have timed: "timers_ok (m_put rid (p\<lparr>pr_timerId := Some (cl_nextTimer cl)\<rparr>) ?pend)
      (m_put (cl_nextTimer cl) (OnRequestTimeout rid, pr_requestTimeout p) (cl_timers cl)) (cl_nextTimer cl + 1) (cl_clearTimerId cl)"
    if "pr_requestTimeout p > 0"
    using timers_ok_put_armed[of rid ?pend "cl_timers cl" "cl_nextTimer cl" "cl_clearTimerId cl"
        "p\<lparr>pr_timerId := Some (cl_nextTimer cl)\<rparr>"] c(1,2) p that
    by (simp add: same armed_def timer_of_def)
  show "client_ok kMax (add_request rid p cl)"
    using plain timed fits[OF p(1)] fits[OF q] att
    by (simp add: add_request_def client_ok_def client_timers_def block_defs)
  show "held_calls (add_request rid p cl) = add_mset (rid, pr_callback p) (held_calls cl)"
    using c(2) by (simp add: add_request_def block_defs held_calls_def pending_calls_put same)
  show "cl_hasConnectAttempted (add_request rid p cl) = cl_hasConnectAttempted cl"
    and "cl_maxMessageSize (add_request rid p cl) = cl_maxMessageSize cl"
    and "cl_nextRequestId (add_request rid p cl) = cl_nextRequestId cl"
    by (simp_all add: add_request_def block_defs)
qed

lemma pending_wire_fits: "entry_fits mx rid p \<Longrightarrow> 11 \<le> mx"
  by (auto simp: entry_fits_def request_wire_def)

subsection \<open>Every operation is in order\<close>

lemma failed_response_id [simp]: "rs_requestId (failed_response rid ec msg) = rid"
  by (simp add: failed_response_def RpcResponse_make_def)

lemma sendCancel_ok:
  assumes "11 \<le> mx" and "cl_conn cl = None \<Longrightarrow> True"
  shows "\<forall>e \<in> set (sendCancel le up rid cl). effect_ok mx e"
    and "calls_of effect_call (sendCancel le up rid cl) = {#}"
  using assms by (auto simp: sendCancel_def RpcCancel_encode_eq split: option.split)

lemma op_ok_refuse: "client_ok kMax cl \<Longrightarrow> op_ok kMax cl {#(rid, cb)#} (refuse_call cb rid ec msg cl)"
  by (simp add: op_ok_def refuse_call_def settled_def)

text \<open>When a call is accepted; every other call is refused through its callback.\<close>

definition call_accepted :: "nat \<Rightarrow> ('c \<Rightarrow> bool) \<Rightarrow> 'k call_args \<Rightarrow> ('c, 'k) client \<Rightarrow> bool" where
  "call_accepted kMax up a cl \<longleftrightarrow> (\<exists>conn. cl_conn cl = Some conn \<and> cl_status cl = kConnected \<and> up conn \<and>
     RpcRequest_OutputMessageLen (length (ca_service a)) (length (ca_method a)) (length (ca_payload a)) \<le> client_max kMax cl \<and>
     (case cl_maxPendingRequests cl of None \<Rightarrow> True | Some m \<Rightarrow> length (cl_pendingRequests cl) < m) \<and>
     request_valid \<lparr>rq_requestId = ca_requestId a, rq_service = ca_service a, rq_method = ca_method a, rq_payload = ca_payload a\<rparr>)"

lemma callInLoop_refused:
  assumes "\<not> call_accepted kMax up a cl"
  shows "\<exists>ec msg. callInLoop le kMax up a cl = refuse_call (ca_callback a) (ca_requestId a) ec msg cl"
proof -
  let ?len = "RpcRequest_OutputMessageLen (length (ca_service a)) (length (ca_method a)) (length (ca_payload a))"
  let ?full = "case cl_maxPendingRequests cl of None \<Rightarrow> False | Some m \<Rightarrow> length (cl_pendingRequests cl) \<ge> m"
  have large: "(cl_maxMessageSize cl = None \<and> ?len > kMax \<or> (case cl_maxMessageSize cl of None \<Rightarrow> False | Some m \<Rightarrow> ?len > m)) =
      (client_max kMax cl < ?len)"
    by (simp add: client_max_def split: option.split)
  have room: "(case cl_maxPendingRequests cl of None \<Rightarrow> True | Some m \<Rightarrow> length (cl_pendingRequests cl) < m) = (\<not> ?full)"
    by (simp add: not_le split: option.split)
  show ?thesis
  proof (cases "\<exists>conn. cl_conn cl = Some conn \<and> cl_status cl = kConnected \<and> up conn")
    case False
    then have "callInLoop le kMax up a cl =
        refuse_call (ca_callback a) (ca_requestId a) CONNECTION_UNAVAILABLE ''connection not connected'' cl"
      by (cases "cl_conn cl") (auto simp: callInLoop_def Let_def split del: if_split)
    then show ?thesis by blast
  next
    case True
    then obtain conn where conn: "cl_conn cl = Some conn" "cl_status cl = kConnected" "up conn" by blast
    consider "client_max kMax cl < ?len" | "\<not> client_max kMax cl < ?len" ?full
      | "\<not> client_max kMax cl < ?len" "\<not> ?full"
      by blast
    then show ?thesis
    proof cases
      case 3
      with assms conn have "\<not> request_valid \<lparr>rq_requestId = ca_requestId a, rq_service = ca_service a,
          rq_method = ca_method a, rq_payload = ca_payload a\<rparr>"
        by (simp add: call_accepted_def room not_less)
      with 3 conn show ?thesis
        unfolding callInLoop_def by (auto simp: large RpcRequest_encode_eq Let_def)
    qed (use conn in \<open>auto simp: callInLoop_def large Let_def\<close>)
  qed
qed

text \<open>The entry of an accepted call.\<close>

definition accepted_request :: "'k call_args \<Rightarrow> ('c, 'k) client \<Rightarrow> 'k PendingRequest" where
  "accepted_request a cl =
     (let n = (case ca_resendLimit a of None \<Rightarrow> cl_defaultResendLimit cl | Some n \<Rightarrow> n) in
      \<lparr>pr_serviceName = ca_service a, pr_methodName = ca_method a, pr_payload = ca_payload a,
       pr_callback = ca_callback a, pr_requestTimeout = ca_timeout a,
       pr_allowReconnect = (if n = 0 then False else ca_allowReconnect a), pr_phase = kWaitingResponse,
       pr_remainingResends = n, pr_reconnectTimeout = (if ca_allowReconnect a \<and> ca_reconnectTimeout a = 0
         then cl_defaultReconnectTimeout cl else ca_reconnectTimeout a), pr_timerId = None\<rparr>)"

lemma accepted_request_sel [simp]:
  "pr_callback (accepted_request a cl) = ca_callback a" "pr_phase (accepted_request a cl) = kWaitingResponse"
  "pr_timerId (accepted_request a cl) = None"
  "pending_request rid (accepted_request a cl) =
     \<lparr>rq_requestId = rid, rq_service = ca_service a, rq_method = ca_method a, rq_payload = ca_payload a\<rparr>"
  by (simp_all add: accepted_request_def Let_def pending_request_def)

lemma callInLoop_accepted:
  assumes "call_accepted kMax up a cl"
  obtains conn where "cl_conn cl = Some conn" "cl_status cl = kConnected" "up conn"
    "request_valid (pending_request (ca_requestId a) (accepted_request a cl))"
    "length (request_wire (pending_request (ca_requestId a) (accepted_request a cl))) \<le> client_max kMax cl"
    "case cl_maxPendingRequests cl of None \<Rightarrow> True | Some m \<Rightarrow> length (cl_pendingRequests cl) < m"
    "callInLoop le kMax up a cl =
       ([Send conn (request_wire (pending_request (ca_requestId a) (accepted_request a cl)))], [],
        add_request (ca_requestId a) (accepted_request a cl) cl)"
proof -
  let ?req = "\<lparr>rq_requestId = ca_requestId a, rq_service = ca_service a, rq_method = ca_method a, rq_payload = ca_payload a\<rparr>"
  let ?len = "RpcRequest_OutputMessageLen (length (ca_service a)) (length (ca_method a)) (length (ca_payload a))"
  obtain conn where conn: "cl_conn cl = Some conn" "cl_status cl = kConnected" "up conn"
    "?len \<le> client_max kMax cl" "request_valid ?req"
    and room: "case cl_maxPendingRequests cl of None \<Rightarrow> True | Some m \<Rightarrow> length (cl_pendingRequests cl) < m"
    using assms unfolding call_accepted_def by blast
  have "length (request_wire ?req) \<le> client_max kMax cl"
    using length_request_wire[OF conn(5)] conn(4) by simp
  moreover have "callInLoop le kMax up a cl =
      ([Send conn (request_wire ?req)], [], add_request (ca_requestId a) (accepted_request a cl) cl)"
    using conn room
    by (auto simp: callInLoop_def RpcRequest_encode_eq client_max_def add_request_def accepted_request_def Let_def
        not_less not_le split: option.splits)
  ultimately show thesis using conn room that by simp
qed

lemma op_ok_callInLoop:
  assumes ok: "client_ok kMax cl" and fresh: "m_find (cl_pendingRequests cl) (ca_requestId a) = None"
  shows "op_ok kMax cl {#(ca_requestId a, ca_callback a)#} (callInLoop le kMax up a cl)"
proof (cases "call_accepted kMax up a cl")
  case True
  let ?p = "accepted_request a cl"
  from True obtain conn where conn: "cl_conn cl = Some conn" "cl_status cl = kConnected" "up conn"
    and valid: "request_valid (pending_request (ca_requestId a) ?p)"
      "length (request_wire (pending_request (ca_requestId a) ?p)) \<le> client_max kMax cl"
    and room: "case cl_maxPendingRequests cl of None \<Rightarrow> True | Some m \<Rightarrow> length (cl_pendingRequests cl) < m"
    and res: "callInLoop le kMax up a cl =
      ([Send conn (request_wire (pending_request (ca_requestId a) ?p))], [], add_request (ca_requestId a) ?p cl)"
    by (rule callInLoop_accepted)
  have att: "cl_hasConnectAttempted cl" using ok conn(1) by (auto simp: client_ok_def)
  have "entry_fits (client_max kMax cl) (ca_requestId a) ?p"
    unfolding entry_fits_def using valid by simp
  from client_ok_add[OF ok fresh this _ _ att room] show ?thesis
    unfolding res using valid att by (simp add: op_ok_def settled_def)
next
  case False
  then have "\<exists>ec msg. callInLoop le kMax up a cl = refuse_call (ca_callback a) (ca_requestId a) ec msg cl"
    by (rule callInLoop_refused)
  then show ?thesis using op_ok_refuse[OF ok] by auto
qed

text \<open>Cancellation and responses take one request out.\<close>

lemma op_ok_idle: "client_ok kMax cl \<Longrightarrow> op_ok kMax cl {#} ([], [], cl)"
  by (simp add: op_ok_def settled_def)

lemma drop_frame [simp]:
  "client_max kMax (erase_pending rid (cancel_timer t cl)) = client_max kMax cl"
  "settled cl (erase_pending rid (cancel_timer t cl))"
  "cl_conn (erase_pending rid (cancel_timer t cl)) = cl_conn cl"
  "settled cl (cl'\<lparr>cl_ignoredResponseRequests := a\<rparr>) = settled cl cl'"
  "settled cl (cl'\<lparr>cl_queue := b\<rparr>) = settled cl cl'"
  "settled (cl\<lparr>cl_queue := b\<rparr>) cl' = settled cl cl'"
  by (simp_all add: block_defs settled_def)

lemma op_ok_take_out:
  assumes ok: "client_ok kMax cl" and p: "m_find (cl_pendingRequests cl) rid = Some p"
    and r: "rs_requestId r = rid"
    and effs: "\<forall>e \<in> set effs. effect_ok (client_max kMax cl) e" "calls_of effect_call effs = {#}"
    and cl': "cl' = erase_pending rid (cancel_timer (pr_timerId p) cl)"
  shows "op_ok kMax cl {#} (effs, [DoCallback (pr_callback p) r], cl')"
    and "op_ok kMax cl {#} (effs, [DoCallback (pr_callback p) r], ignore_response now rid cl')"
  using client_ok_drop[OF ok p] client_ok_clauses(4)[OF ok p] effs r
  by (simp_all add: op_ok_def cl' ignore_response_def)

lemma op_ok_cancelInLoop:
  assumes ok: "client_ok kMax cl"
  shows "op_ok kMax cl {#} (cancelInLoop le up now rid cl)"
proof (cases "m_find (cl_pendingRequests cl) rid")
  case None
  with ok show ?thesis by (simp add: cancelInLoop_def op_ok_idle)
next
  case (Some p)
  have "11 \<le> client_max kMax cl"
    using client_ok_clauses(3)[OF ok Some] by (rule pending_wire_fits)
  with Some show ?thesis
    by (auto simp: cancelInLoop_def Let_def sendCancel_ok intro!: op_ok_take_out(2)[OF ok Some])
qed

text \<open>A message is either the encoding of a valid response or closes the connection.\<close>

definition takes_response :: "nat \<Rightarrow> ('c, 'k) client \<Rightarrow> RpcResponse \<Rightarrow> bool" where
  "takes_response kMax cl r \<longleftrightarrow> response_valid r \<and> length (response_wire r) \<le> client_max kMax cl"

lemma onRpcMessage_response:
  assumes "takes_response kMax cl r"
  shows "client_onRpcMessage le kMax conn (response_wire r) cl =
     (case m_find (cl_pendingRequests cl) (rs_requestId r) of
        None \<Rightarrow>
          if m_find (cl_ignoredResponseRequests cl) (rs_requestId r) \<noteq> None
          then ([], [], cl\<lparr>cl_ignoredResponseRequests :=
                  m_erase (rs_requestId r) (cl_ignoredResponseRequests cl)\<rparr>)
          else ([CloseConn conn], [], cl)
      | Some p \<Rightarrow> ([], [DoCallback (pr_callback p) r],
                   erase_pending (rs_requestId r) (cancel_timer (pr_timerId p) cl)))"
proof -
  have head: "decodeHead le (response_wire r) kRequest = Some (True, kResponse)"
    unfolding response_wire_def by (rule decodeHead_wire)
  have "response_wire r \<noteq> []" by (simp add: response_wire_def flip: length_0_conv)
  moreover have "\<not> length (response_wire r) > client_max kMax cl"
    using assms by (simp add: takes_response_def)
  moreover have "RpcResponse_decode le RpcResponse_default (response_wire r) [] = Some (True, r, [])"
    using assms by (intro RpcResponse_decode_wire) (simp add: takes_response_def)
  ultimately show ?thesis
    by (simp add: client_onRpcMessage_def client_max_def head split del: if_split)
qed

lemma onRpcMessage_malformed:
  assumes "\<And>r. takes_response kMax cl r \<Longrightarrow> msg \<noteq> response_wire r"
  shows "client_onRpcMessage le kMax conn msg cl = ([CloseConn conn], [], cl)"
proof (cases "length msg > client_max kMax cl")
  case True
  then show ?thesis by (simp add: client_onRpcMessage_def client_max_def)
next
  case False
  note head = decodeHead_total[of le msg kRequest]
  show ?thesis
  proof (cases rule: RpcResponse_decode_cases[of le RpcResponse_default msg "[]"])
    case (fail m)
    with head show ?thesis by (auto simp: client_onRpcMessage_def)
  next
    case (ok r)
    with False assms[of r] show ?thesis by (simp add: takes_response_def)
  qed
qed

lemma op_ok_close: "client_ok kMax cl \<Longrightarrow> op_ok kMax cl {#} ([CloseConn conn], [], cl)"
  by (simp add: op_ok_def settled_def)

lemma op_ok_onRpcMessage:
  assumes ok: "client_ok kMax cl"
  shows "op_ok kMax cl {#} (client_onRpcMessage le kMax conn msg cl)"
proof (cases "\<exists>r. takes_response kMax cl r \<and> msg = response_wire r")
  case False
  then have "client_onRpcMessage le kMax conn msg cl = ([CloseConn conn], [], cl)"
    by (intro onRpcMessage_malformed) blast
  with ok show ?thesis by (simp add: op_ok_close)
next
  case True
  then obtain r where r: "takes_response kMax cl r" "msg = response_wire r" by blast
  show ?thesis
  proof (cases "m_find (cl_pendingRequests cl) (rs_requestId r)")
    case None
    with ok show ?thesis
      unfolding r(2) onRpcMessage_response[OF r(1)]
      by (auto simp: op_ok_close op_ok_def settled_def)
  next
    case (Some p)
    then show ?thesis
      unfolding r(2) onRpcMessage_response[OF r(1)]
      by (auto intro!: op_ok_take_out(1)[OF ok Some])
  qed
qed

text \<open>A timer that fires belongs to exactly one request, in the phase the timer is for.\<close>

lemma fired_timer:
  assumes ok: "client_ok kMax cl" and t: "m_find (cl_timers cl) t = Some e" "cl_clearTimerId cl \<noteq> Some t"
  obtains rid p where "m_find (cl_pendingRequests cl) rid = Some p" "pr_timerId p = Some t" "e = timer_of rid p"
proof -
  note c = client_ok_clauses(1)[OF ok]
  obtain rid p where p: "m_find (cl_pendingRequests cl) rid = Some p" "pr_timerId p = Some t"
    using timers_ok_clauses(6)[OF c t(1)] t(2) by blast
  moreover have "e = timer_of rid p" using timers_ok_clauses(5)[OF c p] t(1) by simp
  ultimately show thesis by (rule that)
qed

lemma op_ok_onRequestTimeout:
  assumes ok: "client_ok kMax cl" and p: "m_find (cl_pendingRequests cl) rid = Some p"
    and t: "pr_timerId p = Some t" "pr_phase p = kWaitingResponse"
  shows "op_ok kMax cl {#} (onRequestTimeout le up now rid (cancel_timer (Some t) cl))"
proof -
  have "11 \<le> client_max kMax cl"
    using client_ok_clauses(3)[OF ok p] by (rule pending_wire_fits)
  moreover have "m_find (cl_pendingRequests (cancel_timer (Some t) cl)) rid = Some p"
    using p by (simp add: cancel_timer_eq)
  ultimately show ?thesis
    using t by (auto simp: onRequestTimeout_def Let_def sendCancel_ok intro!: op_ok_take_out(2)[OF ok p])
qed

text \<open>A request that waits for a connection has an attempt left, so taking one away does not wrap.\<close>

lemma dec_resends: "w \<noteq> 0 \<Longrightarrow> unat (w - 1) = unat w - 1" for w :: u8
  by (simp add: unat_minus_one)

lemma op_ok_onReconnectTimeout:
  assumes ok: "client_ok kMax cl" and p: "m_find (cl_pendingRequests cl) rid = Some p"
    and t: "pr_timerId p = Some t" "pr_phase p = kWaitingReconnect"
  shows "op_ok kMax cl {#} (onReconnectTimeout rid (cancel_timer (Some t) cl))"
proof -
  let ?cl = "cancel_timer (Some t) cl" and ?p = "p\<lparr>pr_remainingResends := pr_remainingResends p - 1\<rparr>"
  have find: "m_find (cl_pendingRequests ?cl) rid = Some p"
    using p by (simp add: cancel_timer_eq)
  show ?thesis
  proof (cases "pr_remainingResends p - 1 = 0")
    case True
    with find t show ?thesis
      by (auto simp: onReconnectTimeout_def Let_def intro!: op_ok_take_out(1)[OF ok p])
  next
    case False
    obtain t' cl' where run: "runAfter (pr_reconnectTimeout p) (OnReconnectTimeout rid) ?cl = (t', cl')"
      by fastforce
    have fits: "entry_fits (client_max kMax cl) rid ?p"
      using client_ok_clauses(3)[OF ok p] False t(2) by (simp add: entry_fits_def pending_request_def)
    have new: "onReconnectTimeout rid ?cl = ([], [], set_pending rid (?p\<lparr>pr_timerId := Some t'\<rparr>) cl')"
      using find t False run by (simp add: onReconnectTimeout_def Let_def)
    have "settled cl (set_pending rid q cl')" for q
      using run by (auto simp: block_defs settled_def)
    with client_ok_rearm[OF ok p fits _ _ _ run[folded t(1)]] t(2) show ?thesis
      unfolding new by (simp add: op_ok_def armed_def timer_of_def)
  qed
qed

lemma op_ok_fire_timer:
  assumes ok: "client_ok kMax cl"
  shows "op_ok kMax cl {#} (fire_timer le up now t cl)"
proof (cases "m_find (cl_timers cl) t")
  case None
  with ok show ?thesis by (simp add: fire_timer_def op_ok_idle)
next
  case (Some e)
  show ?thesis
  proof (cases "cl_clearTimerId cl = Some t")
    case True
    then have "e = (OnClearExpired, 1000)"
      using timers_ok_clauses(7)[OF client_ok_clauses(1)[OF ok]] Some by simp
    with Some ok show ?thesis
      by (simp add: fire_timer_def clearExpiredIgnoredResponseRequests_def op_ok_def settled_def)
  next
    case False
    obtain rid p where p: "m_find (cl_pendingRequests cl) rid = Some p" "pr_timerId p = Some t" "e = timer_of rid p"
      using fired_timer[OF ok Some False] .
    with Some show ?thesis
      using op_ok_onRequestTimeout[OF ok p(1,2)] op_ok_onReconnectTimeout[OF ok p(1,2)]
      by (cases "pr_phase p") (simp_all add: fire_timer_def timer_of_def)
  qed
qed

subsection \<open>Failing requests\<close>

lemma timers_ok_fold:
  fixes pend :: "(u64, 'k PendingRequest) umap"
  shows "timers_ok pend tms nxt clr \<Longrightarrow> timers_ok ([] :: (u64, 'k PendingRequest) umap)
     (fold (\<lambda>item. erase_timer (pr_timerId (snd item))) pend tms) nxt clr"
proof (induction pend arbitrary: tms)
  case (Cons item pend)
  obtain rid p where item: "item = (rid, p)" by fastforce
  have "m_erase rid ((rid, p) # pend) = pend"
    using timers_ok_clauses(1)[OF Cons.prems] by (simp add: item)
  then have "timers_ok pend (erase_timer (pr_timerId p) tms) nxt clr"
    using timers_ok_drop[of "(rid, p) # pend" tms nxt clr rid p] Cons.prems by (simp add: item)
  with Cons.IH show ?case by (simp add: item)
qed simp

lemma fold_cancel_timer:
  "fold (\<lambda>item. cancel_timer (pr_timerId (snd item))) pend cl =
     cl\<lparr>cl_timers := fold (\<lambda>item. erase_timer (pr_timerId (snd item))) pend (cl_timers cl)\<rparr>"
  by (induction pend arbitrary: cl) (simp_all add: cancel_timer_eq)

lemma client_ok_clear:
  assumes "client_ok kMax cl"
  shows "client_ok kMax (clearPendingRequests cl)"
  using assms timers_ok_fold[OF client_ok_clauses(1)[OF assms]]
  by (simp add: clearPendingRequests_def Let_def fold_cancel_timer client_ok_def client_timers_def pending_ok_def
      split: option.split)

lemma calls_of_failed:
  "calls_of task_call (map (\<lambda>item. DoCallback (f item) (failed_response (fst item) ec msg)) xs) =
     mset (map (\<lambda>item. (fst item, f item)) xs)"
  by (induction xs) simp_all

lemma op_ok_failAll:
  assumes "client_ok kMax cl"
  shows "op_ok kMax cl {#} (failAllPendingRequests ec msg cl)"
proof -
  have "failAllPendingRequests ec msg cl = ([], map (\<lambda>item. DoCallback (pr_callback (snd item))
      (failed_response (fst item) ec msg)) (cl_pendingRequests cl), clearPendingRequests cl)"
    by (simp add: failAllPendingRequests_def clearPendingRequests_def Let_def)
  then show ?thesis
    using client_ok_clear[OF assms]
    by (simp add: op_ok_def settled_def calls_of_failed clearPendingRequests_def Let_def fold_cancel_timer
        held_calls_def pending_calls_def case_prod_unfold)
qed

text \<open>The requests that may be sent again get the timer of their new phase.\<close>

definition resendable :: "'k PendingRequest \<Rightarrow> bool" where
  "resendable p \<longleftrightarrow> pr_allowReconnect p \<and> pr_remainingResends p \<noteq> 0"

definition same_settings :: "('c, 'k) client \<Rightarrow> ('c, 'k) client \<Rightarrow> bool" where
  "same_settings cl cl' \<longleftrightarrow> cl_hasConnectAttempted cl' = cl_hasConnectAttempted cl \<and>
     cl_maxMessageSize cl' = cl_maxMessageSize cl \<and> cl_status cl' = cl_status cl \<and> cl_conn cl' = cl_conn cl \<and>
     cl_nextRequestId cl' = cl_nextRequestId cl"

lemma same_settings_simps [simp]:
  "same_settings cl cl"
  "same_settings cl (set_pending rid p cl') = same_settings cl cl'"
  "same_settings cl (erase_pending rid cl') = same_settings cl cl'"
  "same_settings cl (cancel_timer t cl') = same_settings cl cl'"
  "same_settings cl (snd (runAfter d f cl')) = same_settings cl cl'"
  by (simp_all add: same_settings_def block_defs)

lemma same_settings_trans: "same_settings a b \<Longrightarrow> same_settings b c \<Longrightarrow> same_settings a c"
  by (simp add: same_settings_def)

lemma same_settings_settled: "same_settings cl cl' \<Longrightarrow> settled cl cl'"
  by (simp add: same_settings_def settled_def)

lemma change_phase_ok:
  assumes ok: "client_ok kMax cl"
    and keep: "\<And>p. m_find (cl_pendingRequests cl) rid = Some p \<Longrightarrow> resendable p"
  shows "client_ok kMax (change_phase rid cl)" and "held_calls (change_phase rid cl) = held_calls cl"
    and "same_settings cl (change_phase rid cl)"
    and "\<And>rid' p'. m_find (cl_pendingRequests (change_phase rid cl)) rid' = Some p' \<Longrightarrow>
      \<exists>p. m_find (cl_pendingRequests cl) rid' = Some p \<and> resendable p' = resendable p"
proof -
  let ?new = "change_phase rid cl"
  have "client_ok kMax ?new \<and> held_calls ?new = held_calls cl \<and> same_settings cl ?new \<and>
    (\<forall>rid' p'. m_find (cl_pendingRequests ?new) rid' = Some p' \<longrightarrow>
      (\<exists>p. m_find (cl_pendingRequests cl) rid' = Some p \<and> resendable p' = resendable p))"
  proof (cases "m_find (cl_pendingRequests cl) rid")
    case None
    with ok show ?thesis by (simp add: change_phase_def)
  next
    case (Some p)
    let ?p = "p\<lparr>pr_phase := kWaitingReconnect\<rparr>"
    obtain t cl' where run: "runAfter (pr_reconnectTimeout p) (OnReconnectTimeout rid)
        (cancel_timer (pr_timerId p) cl) = (t, cl')" by fastforce
    then have cl': "cl' = snd (runAfter (pr_reconnectTimeout p) (OnReconnectTimeout rid) (cancel_timer (pr_timerId p) cl))"
      by simp
    have new: "?new = set_pending rid (?p\<lparr>pr_timerId := Some t\<rparr>) cl'"
      using Some run by (simp add: change_phase_def)
    have fits: "entry_fits (client_max kMax cl) rid ?p"
      using client_ok_clauses(3)[OF ok Some] keep[OF Some] by (simp add: entry_fits_def pending_request_def resendable_def)
    note armed = client_ok_rearm[OF ok Some fits _ _ _ run]
    have pend: "cl_pendingRequests ?new = m_put rid (?p\<lparr>pr_timerId := Some t\<rparr>) (cl_pendingRequests cl)"
      unfolding new using cl' by (simp add: block_defs)
    have "client_ok kMax ?new" "held_calls ?new = held_calls cl"
      unfolding new by (rule armed; simp add: armed_def timer_of_def)+
    moreover have "same_settings cl ?new" unfolding new cl' by simp
    moreover have "\<exists>q. m_find (cl_pendingRequests cl) rid' = Some q \<and> resendable p' = resendable q"
      if "m_find (cl_pendingRequests ?new) rid' = Some p'" for rid' p'
      using that Some unfolding pend by (auto simp: umap_simps resendable_def split: if_splits)
    ultimately show ?thesis by blast
  qed
  then show "client_ok kMax ?new" "held_calls ?new = held_calls cl" "same_settings cl ?new"
    "\<And>rid' p'. m_find (cl_pendingRequests ?new) rid' = Some p' \<Longrightarrow>
      \<exists>p. m_find (cl_pendingRequests cl) rid' = Some p \<and> resendable p' = resendable p"
    by blast+
qed

lemma fold_change_phase_ok:
  "client_ok kMax cl \<Longrightarrow> \<forall>rid \<in> set ids. \<forall>p. m_find (cl_pendingRequests cl) rid = Some p \<longrightarrow> resendable p \<Longrightarrow>
     client_ok kMax (fold change_phase ids cl) \<and> held_calls (fold change_phase ids cl) = held_calls cl \<and>
     same_settings cl (fold change_phase ids cl)"
proof (induction ids arbitrary: cl)
  case (Cons rid ids)
  have keep: "resendable p" if "m_find (cl_pendingRequests cl) rid = Some p" for p
    using Cons.prems(2) that by simp
  note step = change_phase_ok[OF Cons.prems(1) keep]
  have "\<forall>rid' \<in> set ids. \<forall>p. m_find (cl_pendingRequests (change_phase rid cl)) rid' = Some p \<longrightarrow> resendable p"
    using step(4) Cons.prems(2) by fastforce
  from Cons.IH[OF step(1) this] step show ?case
    by (auto intro: same_settings_trans)
qed simp

lemma fold_collect_ok:
  "client_ok kMax cl \<Longrightarrow> fold collect_failed ids (cbs, cl) = (cbs', cl') \<Longrightarrow>
     client_ok kMax cl' \<and> held_calls cl + mset cbs = held_calls cl' + mset cbs' \<and> same_settings cl cl'"
proof (induction ids arbitrary: cl cbs)
  case (Cons rid ids)
  show ?case
  proof (cases "m_find (cl_pendingRequests cl) rid")
    case None
    then have "collect_failed rid (cbs, cl) = (cbs, cl)" by (simp add: collect_failed_def)
    with Cons show ?thesis by simp
  next
    case (Some p)
    let ?cl = "erase_pending rid (cancel_timer (pr_timerId p) cl)"
    have "collect_failed rid (cbs, cl) = (cbs @ [(rid, pr_callback p)], ?cl)"
      using Some by (simp add: collect_failed_def)
    then have "fold collect_failed ids (cbs @ [(rid, pr_callback p)], ?cl) = (cbs', cl')"
      using Cons.prems(2) by simp
    from Cons.IH[OF client_ok_drop(1)[OF Cons.prems(1) Some] this] show ?thesis
      using client_ok_drop(2)[OF Cons.prems(1) Some] by (auto simp: same_settings_def block_defs)
  qed
qed simp

lemma failed_waiting_keep:
  assumes "client_ok kMax cl"
    and "rid \<in> set (map fst (filter (\<lambda>item. resendable (snd item)) (filter P (cl_pendingRequests cl))))"
    and "m_find (cl_pendingRequests cl) rid = Some p"
  shows "resendable p"
  using assms(2,3) client_ok_clauses(2)[OF assms(1)] by (auto simp: m_find_set_iff dest: eq_key_imp_eq_value)

lemma op_ok_failAllDis:
  assumes ok: "client_ok kMax cl"
  shows "op_ok kMax cl {#} (failAllDisreconnectRequests ec msg cl)"
    and "failAllDisreconnectRequests ec msg cl = (effs, tasks, cl') \<Longrightarrow> same_settings cl cl'"
proof -
  let ?waiting = "filter (\<lambda>item. pr_phase (snd item) = kWaitingResponse) (cl_pendingRequests cl)"
  let ?change = "map fst (filter (\<lambda>item. resendable (snd item)) ?waiting)"
  let ?fail = "map fst (filter (\<lambda>item. \<not> resendable (snd item)) ?waiting)"
  let ?cl1 = "fold change_phase ?change cl"
  obtain cbs cl2 where fold: "fold collect_failed ?fail ([], ?cl1) = (cbs, cl2)" by fastforce
  have one: "client_ok kMax ?cl1 \<and> held_calls ?cl1 = held_calls cl \<and> same_settings cl ?cl1"
    using failed_waiting_keep[OF ok] by (intro fold_change_phase_ok[OF ok]) blast
  then have two: "client_ok kMax cl2 \<and> held_calls ?cl1 = held_calls cl2 + mset cbs \<and> same_settings ?cl1 cl2"
    using fold_collect_ok[OF conjunct1[OF one] fold] by simp
  have same: "same_settings cl cl2" using one two same_settings_trans by blast
  have res: "failAllDisreconnectRequests ec msg cl = ([], map (\<lambda>item. DoCallback (snd item)
      (failed_response (fst item) ec msg)) (sort_key fst cbs), cl2)"
    using fold by (simp add: failAllDisreconnectRequests_def Let_def resendable_def)
  then show "op_ok kMax cl {#} (failAllDisreconnectRequests ec msg cl)"
    using one two same_settings_settled[OF same] by (simp add: op_ok_def calls_of_failed)
  show "same_settings cl cl'" if "failAllDisreconnectRequests ec msg cl = (effs, tasks, cl')"
    using that same res by simp
qed

subsection \<open>Connections\<close>

lemma client_ok_conn: "client_ok kMax cl \<Longrightarrow> client_ok kMax (cl\<lparr>cl_conn := None\<rparr>)"
  "client_ok kMax cl \<Longrightarrow> cl_hasConnectAttempted cl \<Longrightarrow> client_ok kMax (cl\<lparr>cl_conn := Some conn\<rparr>)"
  "client_ok kMax cl \<Longrightarrow> client_ok kMax (cl\<lparr>cl_hasConnectAttempted := True\<rparr>)"
  by (simp_all add: client_ok_def client_timers_def) (simp add: client_max_def)

text \<open>An operation may be preceded by changes that matter for neither calls nor timers, and followed by
  tasks and effects that concern no call.\<close>

lemma op_ok_around:
  assumes "op_ok kMax cl' x (effs, tasks, new)"
    and "held_calls cl' = held_calls cl" "client_max kMax cl' = client_max kMax cl"
      "cl_hasConnectAttempted cl' = cl_hasConnectAttempted cl" "cl_maxMessageSize cl' = cl_maxMessageSize cl"
      "cl_nextRequestId cl' = cl_nextRequestId cl"
    and "calls_of task_call tasks' = {#}" "calls_of effect_call effs' = {#}"
    and "\<forall>e \<in> set effs'. effect_ok (client_max kMax cl) e \<and> (\<forall>conn bs. e \<noteq> Send conn bs)"
  shows "op_ok kMax cl x (effs' @ effs, tasks @ tasks', new)"
  using assms by (auto simp: op_ok_def settled_def)

lemma op_ok_connect: "client_ok kMax cl \<Longrightarrow> op_ok kMax cl {#} (client_connect cl)"
  using client_ok_conn(3)[of kMax "cl\<lparr>cl_status := kConnecting\<rparr>"]
  by (simp add: client_connect_def op_ok_def settled_def held_calls_def)

lemma op_ok_disconnect:
  assumes "client_ok kMax cl"
  shows "op_ok kMax cl {#} (client_disconnect cl)"
proof -
  let ?m = "cl\<lparr>cl_manualDisconnection := True\<rparr>"
  have fail: "op_ok kMax cl {#} (case failAllPendingRequests CONNECTION_CLOSED ''connect closed'' cl' of
      (effs, tasks, cl) \<Rightarrow> (TcpDisconnect # effs, tasks, cl))" if "cl' = ?m \<or> cl' = ?m\<lparr>cl_status := kDisconnected\<rparr>" for cl'
  proof -
    obtain effs tasks new where r: "failAllPendingRequests CONNECTION_CLOSED ''connect closed'' cl' = (effs, tasks, new)"
      by (metis prod_cases3)
    have "op_ok kMax cl' {#} (effs, tasks, new)"
      using op_ok_failAll[of kMax cl' CONNECTION_CLOSED "''connect closed''"] that assms r by auto
    then have "op_ok kMax cl {#} ([TcpDisconnect] @ effs, tasks @ [], new)"
      using that by (intro op_ok_around[of kMax cl']) auto
    then show ?thesis by (simp add: r)
  qed
  show ?thesis
    using fail[of ?m] fail[of "?m\<lparr>cl_status := kDisconnected\<rparr>"] assms
    by (auto simp: client_disconnect_def Let_def op_ok_def settled_def)
qed

lemma op_ok_onConnection:
  assumes ok: "client_ok kMax cl" and att: "cl_hasConnectAttempted cl"
  shows "op_ok kMax cl {#} (onConnection up conn cl)"
proof (cases "up conn")
  case True
  then show ?thesis
    using client_ok_conn(2)[OF ok att, of conn] att
    by (simp add: onConnection_def op_ok_def settled_def)
next
  case False
  let ?cl = "cl\<lparr>cl_status := kDisconnected, cl_conn := None\<rparr>"
  let ?r = "if cl_manualDisconnection ?cl then failAllPendingRequests CONNECTION_CLOSED ''connect closed'' ?cl
    else failAllDisreconnectRequests CONNECTION_CLOSED ''connect closed'' ?cl"
  obtain effs tasks new where r: "?r = (effs, tasks, new)" by (metis prod_cases3)
  have "client_ok kMax ?cl" using client_ok_conn(1)[of kMax "cl\<lparr>cl_status := kDisconnected\<rparr>"] ok by simp
  then have "op_ok kMax ?cl {#} ?r" by (simp add: op_ok_failAll op_ok_failAllDis)
  then have "op_ok kMax cl {#} ([] @ effs, tasks @ [ClearIgnored] @
      (if cl_connectionCallback new then [DoConnectionCallback conn] else []), new)"
    unfolding r by (intro op_ok_around[of kMax ?cl]) auto
  then show ?thesis
    using False r by (simp add: onConnection_def Let_def del: if_split)
qed

lemma op_ok_onConnectionError:
  assumes ok: "client_ok kMax cl"
  shows "op_ok kMax cl {#} (onConnectionError e cl)"
proof -
  let ?cl = "cl\<lparr>cl_conn := None, cl_status := kDisconnected\<rparr>"
  let ?r = "failAllDisreconnectRequests CONNECTION_UNAVAILABLE ''connection error'' ?cl"
  obtain effs tasks new where r: "?r = (effs, tasks, new)" by (metis prod_cases3)
  have "client_ok kMax ?cl" using client_ok_conn(1)[of kMax cl] ok by simp
  then have "op_ok kMax ?cl {#} ?r" by (rule op_ok_failAllDis)
  then have "op_ok kMax cl {#} ([] @ effs, tasks @ [ClearIgnored] @
      (if cl_connectionErrorCallback new then [DoErrorCallback e] else []), new)"
    unfolding r by (intro op_ok_around[of kMax ?cl]) auto
  then show ?thesis
    using r by (simp add: onConnectionError_def Let_def)
qed

text \<open>Settings change only before the first connection attempt, when nothing is pending.\<close>

lemma client_ok_settings:
  assumes "client_ok kMax cl"
    and "\<not> cl_hasConnectAttempted cl" "\<not> cl_hasConnectAttempted cl'" "cl_pendingRequests cl' = cl_pendingRequests cl"
      "cl_timers cl' = cl_timers cl" "cl_nextTimer cl' = cl_nextTimer cl" "cl_clearTimerId cl' = cl_clearTimerId cl"
      "cl_conn cl' = cl_conn cl" "cl_queue cl' = cl_queue cl" "cl_nextRequestId cl' = cl_nextRequestId cl"
  shows "op_ok kMax cl {#} ([], [], cl')"
  using assms
  by (auto simp: op_ok_def client_ok_def client_timers_def pending_ok_def settled_def held_calls_def
      split: option.split)

lemmas setter_defs = setConnectionCallback_def setConnectionErrorCallback_def setMaxPendingRequests_def
  setDefaultTimeout_def setDefaultReconnectTimeout_def setDefaultResendLimit_def client_setMaxMessageSize_def
  setAllowReconnect_def

lemma op_ok_setters:
  assumes "client_ok kMax cl"
  shows "setConnectionCallback b cl = Some cl' \<Longrightarrow> op_ok kMax cl {#} ([], [], cl')"
    and "setConnectionErrorCallback b cl = Some cl' \<Longrightarrow> op_ok kMax cl {#} ([], [], cl')"
    and "setMaxPendingRequests n cl = Some cl' \<Longrightarrow> op_ok kMax cl {#} ([], [], cl')"
    and "setDefaultTimeout d cl = Some cl' \<Longrightarrow> op_ok kMax cl {#} ([], [], cl')"
    and "setDefaultReconnectTimeout d cl = Some cl' \<Longrightarrow> op_ok kMax cl {#} ([], [], cl')"
    and "setDefaultResendLimit w cl = Some cl' \<Longrightarrow> op_ok kMax cl {#} ([], [], cl')"
    and "client_setMaxMessageSize kMax n cl = Some cl' \<Longrightarrow> op_ok kMax cl {#} ([], [], cl')"
    and "setAllowReconnect b cl = Some cl' \<Longrightarrow> op_ok kMax cl {#} ([], [], cl')"
  by (rule client_ok_settings[OF assms]; auto simp: setter_defs split: if_splits)+

lemma op_ok_retry:
  assumes "client_ok kMax cl"
  shows "op_ok kMax cl {#} (enableRetry cl)" "op_ok kMax cl {#} (disableRetry cl)"
  using assms by (simp_all add: enableRetry_def disableRetry_def op_ok_def settled_def)

subsection \<open>Resending and the remaining tasks\<close>

lemma op_ok_resend_one:
  assumes ok: "client_ok kMax cl"
  shows "op_ok kMax cl {#} (resend_one le up conn item items cl)"
proof -
  let ?here = "cl_conn cl = Some conn \<and> cl_status cl = kConnected \<and> up conn"
  consider "\<not> ?here" | "?here" "\<And>p. m_find (cl_pendingRequests cl) item = Some p \<Longrightarrow> pr_phase p \<noteq> kWaitingReconnect"
    | p where "?here" "m_find (cl_pendingRequests cl) item = Some p" "pr_phase p = kWaitingReconnect"
    by blast
  then show ?thesis
  proof cases
    case 1
    then have "resend_one le up conn item items cl = ([], [], cl)" by (auto simp: resend_one_def)
    with ok show ?thesis by (simp add: op_ok_idle)
  next
    case 2
    then have "resend_one le up conn item items cl = ([], [ResendLoop conn items], cl)"
      by (cases "m_find (cl_pendingRequests cl) item") (simp_all add: resend_one_def)
    with ok show ?thesis by (simp add: op_ok_def settled_def)
  next
    case (3 p)
    let ?p = "p\<lparr>pr_timerId := None, pr_remainingResends := pr_remainingResends p - 1, pr_phase := kWaitingResponse\<rparr>"
    let ?cl = "cancel_timer (pr_timerId p) cl"
    let ?wire = "request_wire (pending_request item p)"
    have fits: "entry_fits (client_max kMax cl) item p" using client_ok_clauses(3)[OF ok 3(2)] .
    then have enc: "RpcRequest_encode le \<lparr>rq_requestId = item, rq_service = pr_serviceName p,
        rq_method = pr_methodName p, rq_payload = pr_payload p\<rparr> [] [] = Some (True, ?wire, [])"
      by (simp add: RpcRequest_encode_eq entry_fits_def pending_request_def)
    have fits': "entry_fits (client_max kMax cl) item ?p"
      using fits by (simp add: entry_fits_def pending_request_def)
    have sent: "op_ok kMax cl {#} ([Send conn ?wire], [ResendLoop conn items], new)"
      if "client_ok kMax new" "held_calls new = held_calls cl" "same_settings cl new" for new
      using that same_settings_settled[OF that(3)] fits client_ok_clauses(4)[OF ok 3(2)]
      by (simp add: op_ok_def entry_fits_def)
    show ?thesis
    proof (cases "pr_requestTimeout p > 0")
      case True
      obtain t cl' where run: "runAfter (pr_requestTimeout p) (OnRequestTimeout item) ?cl = (t, cl')" by fastforce
      have res: "resend_one le up conn item items cl =
          ([Send conn ?wire], [ResendLoop conn items], set_pending item (?p\<lparr>pr_timerId := Some t\<rparr>) cl')"
        using 3 True run by (simp add: resend_one_def enc Let_def)
      have "same_settings cl cl'" using run by (auto simp: block_defs same_settings_def)
      then show ?thesis
        unfolding res
        by (intro sent client_ok_rearm[OF ok 3(2) fits' _ _ _ run]) (use True in \<open>simp_all add: armed_def timer_of_def\<close>)
    next
      case False
      have res: "resend_one le up conn item items cl =
          ([Send conn ?wire], [ResendLoop conn items], set_pending item ?p ?cl)"
        using 3 False by (simp add: resend_one_def enc Let_def)
      show ?thesis
        unfolding res by (intro sent client_ok_unarm[OF ok 3(2) fits']) (use False in \<open>simp_all add: armed_def\<close>)
    qed
  qed
qed

lemma op_ok_run_task:
  assumes ok: "client_ok kMax cl"
  shows "op_ok kMax cl (mset (task_call t)) (run_task le up t cl)"
proof (cases t)
  case (ResendLoop conn items)
  with ok show ?thesis
    by (cases items) (simp_all add: op_ok_resend_one op_ok_idle)
qed (use ok in \<open>simp_all add: op_ok_def settled_def clearIgnoredResponseRequests_def\<close>)

lemma op_ok_run_functor:
  assumes ok: "client_ok kMax cl" and q: "cl_queue cl = f # fs"
    and fresh: "\<And>rid cb. (rid, cb) \<in> set (functor_call f) \<Longrightarrow> m_find (cl_pendingRequests cl) rid = None"
  shows "op_ok kMax cl {#} (run_functor le kMax up now f (cl\<lparr>cl_queue := fs\<rparr>))"
proof -
  let ?cl = "cl\<lparr>cl_queue := fs\<rparr>"
  have held: "held_calls cl = held_calls ?cl + mset (functor_call f)"
    by (simp add: held_calls_def q)
  have "op_ok kMax ?cl (mset (functor_call f)) (run_functor le kMax up now f ?cl)"
    using ok fresh by (cases f) (simp_all add: op_ok_callInLoop op_ok_cancelInLoop)
  then show ?thesis by (auto simp: op_ok_def held)
qed

text \<open>The public call takes the next id and then works like the call in the loop, or queues it.\<close>

lemma op_ok_call:
  assumes ok: "client_ok kMax cl" and call: "client_call le kMax up inLoop a cl = Some (rid, effs, tasks, cl')"
    and fresh: "m_find (cl_pendingRequests cl) (cl_nextRequestId cl) = None"
  obtains effs' where "effs = Issued (cl_nextRequestId cl) (ca_callback a) # effs'" "rid = cl_nextRequestId cl"
    "op_ok kMax (cl\<lparr>cl_nextRequestId := rid + 1\<rparr>) {#(rid, ca_callback a)#} (effs', tasks, cl')"
proof -
  let ?rid = "cl_nextRequestId cl"
  let ?cl = "cl\<lparr>cl_nextRequestId := ?rid + 1\<rparr>" and ?a = "a\<lparr>ca_requestId := ?rid\<rparr>"
  let ?r = "if inLoop then callInLoop le kMax up ?a ?cl else ([], [], ?cl\<lparr>cl_queue := cl_queue cl @ [CallFunctor ?a]\<rparr>)"
  have "op_ok kMax ?cl {#(?rid, ca_callback a)#} (callInLoop le kMax up ?a ?cl)"
    using op_ok_callInLoop[of kMax ?cl ?a] ok fresh by simp
  moreover have "op_ok kMax ?cl {#(?rid, ca_callback a)#} ([], [], ?cl\<lparr>cl_queue := cl_queue cl @ [CallFunctor ?a]\<rparr>)"
    using ok by (simp add: op_ok_def settled_def held_calls_def)
  moreover obtain effs' tasks' new where r: "?r = (effs', tasks', new)" by (metis prod_cases3)
  ultimately have "op_ok kMax ?cl {#(?rid, ca_callback a)#} (effs', tasks', new)" by (auto split: if_splits)
  moreover have "rid = ?rid" "effs = Issued ?rid (ca_callback a) # effs'" "tasks = tasks'" "cl' = new"
    using call r by (auto simp: client_call_def Let_def split: if_splits)
  ultimately show thesis using that by blast
qed

lemma op_ok_cancel: "client_ok kMax cl \<Longrightarrow> op_ok kMax cl {#} (client_cancel le up now inLoop rid cl)"
  by (simp add: client_cancel_def op_ok_cancelInLoop) (simp add: op_ok_def settled_def held_calls_def)

subsection \<open>What a lost connection does to each request\<close>

abbreviation reconnecting :: "TimerId \<Rightarrow> 'k PendingRequest \<Rightarrow> 'k PendingRequest" where
  "reconnecting t p \<equiv> p\<lparr>pr_phase := kWaitingReconnect, pr_timerId := Some t\<rparr>"

lemma change_phase_find:
  "m_find (cl_pendingRequests (change_phase item cl)) rid =
     (if rid = item then map_option (reconnecting (cl_nextTimer cl)) (m_find (cl_pendingRequests cl) rid)
      else m_find (cl_pendingRequests cl) rid)"
  by (cases "m_find (cl_pendingRequests cl) item") (simp_all add: change_phase_def block_defs umap_simps)

lemma fold_change_phase_other:
  "rid \<notin> set ids \<Longrightarrow> m_find (cl_pendingRequests (fold change_phase ids cl)) rid = m_find (cl_pendingRequests cl) rid"
  by (induction ids arbitrary: cl) (simp_all add: change_phase_find)

lemma fold_change_phase_in:
  "rid \<in> set ids \<Longrightarrow> m_find (cl_pendingRequests cl) rid = Some p \<Longrightarrow>
     \<exists>t. m_find (cl_pendingRequests (fold change_phase ids cl)) rid = Some (reconnecting t p)"
proof (induction ids arbitrary: cl p)
  case (Cons item ids)
  show ?case
  proof (cases "rid \<in> set ids")
    case True
    let ?p = "if rid = item then reconnecting (cl_nextTimer cl) p else p"
    have "m_find (cl_pendingRequests (change_phase item cl)) rid = Some ?p"
      using Cons.prems by (auto simp: change_phase_find)
    from Cons.IH[OF True this] show ?thesis by (auto split: if_splits)
  next
    case False
    with Cons.prems have "m_find (cl_pendingRequests (fold change_phase (item # ids) cl)) rid =
        Some (reconnecting (cl_nextTimer cl) p)"
      by (auto simp: fold_change_phase_other change_phase_find)
    then show ?thesis by (rule exI)
  qed
qed simp

lemma collect_failed_find:
  "collect_failed item (cbs, cl) = (cbs', cl') \<Longrightarrow>
     m_find (cl_pendingRequests cl') rid = (if rid = item then None else m_find (cl_pendingRequests cl) rid) \<and>
     (\<exists>more. cbs' = cbs @ more) \<and>
     (\<forall>p. m_find (cl_pendingRequests cl) item = Some p \<longrightarrow> (item, pr_callback p) \<in> set cbs')"
  by (cases "m_find (cl_pendingRequests cl) item") (auto simp: collect_failed_def block_defs umap_simps)

lemma fold_collect_find:
  "fold collect_failed ids (cbs, cl) = (cbs', cl') \<Longrightarrow>
     m_find (cl_pendingRequests cl') rid = (if rid \<in> set ids then None else m_find (cl_pendingRequests cl) rid) \<and>
     set cbs \<subseteq> set cbs' \<and>
     (\<forall>p. rid \<in> set ids \<longrightarrow> m_find (cl_pendingRequests cl) rid = Some p \<longrightarrow> (rid, pr_callback p) \<in> set cbs')"
proof (induction ids arbitrary: cbs cl)
  case (Cons item ids)
  obtain cbs1 cl1 where one: "collect_failed item (cbs, cl) = (cbs1, cl1)" by fastforce
  with Cons.prems have "fold collect_failed ids (cbs1, cl1) = (cbs', cl')" by simp
  from Cons.IH[OF this] collect_failed_find[OF one, of rid] show ?case by (cases "rid = item") auto
qed simp

lemma fold_change_phase_None:
  "m_find (cl_pendingRequests cl) rid = None \<Longrightarrow> m_find (cl_pendingRequests (fold change_phase ids cl)) rid = None"
proof (induction ids arbitrary: cl)
  case (Cons item ids)
  have "m_find (cl_pendingRequests (change_phase item cl)) rid = None"
    using Cons.prems by (auto simp: change_phase_find)
  with Cons.IH show ?case by simp
qed simp

lemma failAllDis_find_None:
  assumes "failAllDisreconnectRequests ec msg cl = (effs, tasks, cl')" and "m_find (cl_pendingRequests cl) rid = None"
  shows "m_find (cl_pendingRequests cl') rid = None"
  using assms(1) fold_change_phase_None[OF assms(2)]
  by (auto simp: failAllDisreconnectRequests_def Let_def split: prod.splits dest!: fold_collect_find[where rid = rid])

lemma find_in_filtered:
  assumes "m_wf m" "m_find m k = Some v"
  shows "k \<in> set (map fst (filter Q (filter P m))) \<longleftrightarrow> P (k, v) \<and> Q (k, v)"
proof -
  have "k \<in> set (map fst (filter Q (filter P m))) \<longleftrightarrow> (\<exists>w. (k, w) \<in> set m \<and> P (k, w) \<and> Q (k, w))"
    by force
  also have "\<dots> \<longleftrightarrow> P (k, v) \<and> Q (k, v)"
    unfolding m_find_set_iff[OF assms(1), symmetric] assms(2) by simp
  finally show ?thesis .
qed

lemma failAllDis_find:
  assumes ok: "client_ok kMax cl" and res: "failAllDisreconnectRequests ec msg cl = (effs, tasks, cl')"
    and p: "m_find (cl_pendingRequests cl) rid = Some p"
  shows "if pr_phase p = kWaitingReconnect then m_find (cl_pendingRequests cl') rid = Some p
     else if resendable p then \<exists>t. m_find (cl_pendingRequests cl') rid = Some (reconnecting t p)
     else m_find (cl_pendingRequests cl') rid = None \<and>
       DoCallback (pr_callback p) (failed_response rid ec msg) \<in> set tasks"
proof -
  let ?waiting = "filter (\<lambda>item. pr_phase (snd item) = kWaitingResponse) (cl_pendingRequests cl)"
  let ?change = "map fst (filter (\<lambda>item. resendable (snd item)) ?waiting)"
  let ?fail = "map fst (filter (\<lambda>item. \<not> resendable (snd item)) ?waiting)"
  let ?cl1 = "fold change_phase ?change cl"
  obtain cbs cl2 where fold: "fold collect_failed ?fail ([], ?cl1) = (cbs, cl2)" by fastforce
  have out: "cl' = cl2" "tasks = map (\<lambda>item. DoCallback (snd item) (failed_response (fst item) ec msg)) (sort_key fst cbs)"
    using res fold by (simp_all add: failAllDisreconnectRequests_def Let_def resendable_def)
  note wf = client_ok_clauses(2)[OF ok]
  have change: "rid \<in> set ?change \<longleftrightarrow> pr_phase p = kWaitingResponse \<and> resendable p"
    unfolding find_in_filtered[OF wf p] by simp
  have fail: "rid \<in> set ?fail \<longleftrightarrow> pr_phase p = kWaitingResponse \<and> \<not> resendable p"
    unfolding find_in_filtered[OF wf p] by simp
  note find = fold_collect_find[OF fold, of rid]
  consider (reconnect) "pr_phase p = kWaitingReconnect" | (resend) "pr_phase p = kWaitingResponse" "resendable p"
    | (fail) "pr_phase p = kWaitingResponse" "\<not> resendable p"
    by (cases "pr_phase p") auto
  then show ?thesis
  proof cases
    case reconnect
    then have "m_find (cl_pendingRequests cl') rid = Some p"
      using find change fail p unfolding out(1) by (simp add: fold_change_phase_other del: set_map)
    with reconnect show ?thesis by auto
  next
    case resend
    then obtain t where "m_find (cl_pendingRequests ?cl1) rid = Some (reconnecting t p)"
      using fold_change_phase_in[OF _ p, of ?change] change by blast
    then have "m_find (cl_pendingRequests cl') rid = Some (reconnecting t p)"
      using find fail resend unfolding out(1) by (simp del: set_map)
    with resend show ?thesis by auto
  next
    case fail': fail
    then have "m_find (cl_pendingRequests ?cl1) rid = Some p"
      using fold_change_phase_other[of rid ?change cl] change p by (simp del: set_map)
    then have "m_find (cl_pendingRequests cl') rid = None" "(rid, pr_callback p) \<in> set cbs"
      using find fail fail' unfolding out(1) by (simp_all del: set_map)
    moreover from this(2) have "DoCallback (pr_callback p) (failed_response rid ec msg) \<in> set tasks"
      unfolding out(2) by force
    ultimately show ?thesis using fail' by simp
  qed
qed

end
