(* ===== verification/Rpc_Client_Runs.thy ===== *)
theory Rpc_Client_Runs
  imports Rpc_Client_Invariant
begin

section \<open>Runs of the client\<close>

text \<open>
  The operations of \<open>Rpc_Client\<close> composed the way the program composes them. A configuration is the
  client, the stack of tasks still to be done (the call stack) and the log of effects. With an empty
  stack the event loop delivers the next event: a connection going up or down, a connection error, a
  message, a timer, a functor. The application may call the client between events and inside any of its
  callbacks, at any depth; other threads may queue calls and cancellations at any time. Every step may
  find connections up or down and the clock at any value.
\<close>

type_synonym ('c, 'k) client_config = "('c, 'k) client \<times> ('c, 'k) task list \<times> ('c, 'k) effect list"

text \<open>Public operations, called in the thread of the loop.\<close>

inductive client_api :: "bool \<Rightarrow> nat \<Rightarrow> ('c, 'k) client \<Rightarrow> ('c, 'k) outcome \<Rightarrow> bool" for le kMax where
  api_call: "client_call le kMax up True a cl = Some (rid, r) \<Longrightarrow> client_api le kMax cl r"
| api_cancel: "client_api le kMax cl (client_cancel le up now True rid cl)"
| api_connect: "client_api le kMax cl (client_connect cl)"
| api_disconnect: "client_api le kMax cl (client_disconnect cl)"
| api_enable: "client_api le kMax cl (enableRetry cl)"
| api_disable: "client_api le kMax cl (disableRetry cl)"
| api_set_connection: "setConnectionCallback b cl = Some cl' \<Longrightarrow> client_api le kMax cl ([], [], cl')"
| api_set_error: "setConnectionErrorCallback b cl = Some cl' \<Longrightarrow> client_api le kMax cl ([], [], cl')"
| api_set_pending: "setMaxPendingRequests n cl = Some cl' \<Longrightarrow> client_api le kMax cl ([], [], cl')"
| api_set_timeout: "setDefaultTimeout d cl = Some cl' \<Longrightarrow> client_api le kMax cl ([], [], cl')"
| api_set_reconnect: "setDefaultReconnectTimeout d cl = Some cl' \<Longrightarrow> client_api le kMax cl ([], [], cl')"
| api_set_resend: "setDefaultResendLimit w cl = Some cl' \<Longrightarrow> client_api le kMax cl ([], [], cl')"
| api_set_size: "client_setMaxMessageSize kMax n cl = Some cl' \<Longrightarrow> client_api le kMax cl ([], [], cl')"
| api_set_allow: "setAllowReconnect b cl = Some cl' \<Longrightarrow> client_api le kMax cl ([], [], cl')"

text \<open>What the event loop delivers; the TCP client reports connections and errors only after the first
  \<open>connect\<close>. \<open>M conn msg\<close> says that the transport may deliver the message \<open>msg\<close> on \<open>conn\<close>; \<open>client_step\<close>
  below leaves this open, a system with a known server restricts it.\<close>

inductive client_event ::
  "('c \<Rightarrow> string \<Rightarrow> bool) \<Rightarrow> bool \<Rightarrow> nat \<Rightarrow> ('c, 'k) client \<Rightarrow> ('c, 'k) outcome \<Rightarrow> bool" for M le kMax where
  ev_connection: "cl_hasConnectAttempted cl \<Longrightarrow> client_event M le kMax cl (onConnection up conn cl)"
| ev_error: "cl_hasConnectAttempted cl \<Longrightarrow> client_event M le kMax cl (onConnectionError e cl)"
| ev_message: "M conn msg \<Longrightarrow> client_event M le kMax cl (client_onRpcMessage le kMax conn msg cl)"
| ev_timer: "client_event M le kMax cl (fire_timer le up now t cl)"
| ev_functor: "cl_queue cl = f # fs \<Longrightarrow>
    client_event M le kMax cl (run_functor le kMax up now f (cl\<lparr>cl_queue := fs\<rparr>))"

text \<open>What other threads do.\<close>

inductive client_remote :: "bool \<Rightarrow> nat \<Rightarrow> ('c, 'k) client \<Rightarrow> ('c, 'k) outcome \<Rightarrow> bool" for le kMax where
  rm_call: "client_call le kMax up False a cl = Some (rid, r) \<Longrightarrow> client_remote le kMax cl r"
| rm_cancel: "client_remote le kMax cl (client_cancel le up now False rid cl)"

inductive client_step_from ::
  "('c \<Rightarrow> string \<Rightarrow> bool) \<Rightarrow> bool \<Rightarrow> nat \<Rightarrow> ('c, 'k) client_config \<Rightarrow> ('c, 'k) client_config \<Rightarrow> bool" for M le kMax where
  st_api: "stack = [] \<or> hd stack = InUserCode \<Longrightarrow> client_api le kMax cl (effs, tasks, cl') \<Longrightarrow>
    client_step_from M le kMax (cl, stack, log) (cl', tasks @ stack, log @ effs)"
| st_event: "client_event M le kMax cl (effs, tasks, cl') \<Longrightarrow>
    client_step_from M le kMax (cl, [], log) (cl', tasks, log @ effs)"
| st_remote: "client_remote le kMax cl (effs, tasks, cl') \<Longrightarrow>
    client_step_from M le kMax (cl, stack, log) (cl', tasks @ stack, log @ effs)"
| st_task: "t \<noteq> InUserCode \<Longrightarrow> run_task le up t cl = (effs, tasks, cl') \<Longrightarrow>
    client_step_from M le kMax (cl, t # stack, log) (cl', tasks @ stack, log @ effs)"
| st_return: "client_step_from M le kMax (cl, InUserCode # stack, log) (cl, stack, log)"

abbreviation client_step :: "bool \<Rightarrow> nat \<Rightarrow> ('c, 'k) client_config \<Rightarrow> ('c, 'k) client_config \<Rightarrow> bool" where
  "client_step \<equiv> client_step_from (\<lambda>_ _. True)"

lemma client_event_any: "client_event M le kMax cl r \<Longrightarrow> client_event (\<lambda>_ _. True) le kMax cl r"
  by (induction rule: client_event.induct) (blast intro: client_event.intros)+

lemma client_step_from_step: "client_step_from M le kMax c c' \<Longrightarrow> client_step le kMax c c'"
  by (induction rule: client_step_from.induct) (blast intro: client_step_from.intros client_event_any)+

definition client_init :: "('c, 'k) client_config \<Rightarrow> bool" where
  "client_init c \<longleftrightarrow> c = (RpcClient_new, [], [])"

definition client_reachable :: "bool \<Rightarrow> nat \<Rightarrow> ('c, 'k) client_config \<Rightarrow> bool" where
  "client_reachable le kMax c \<longleftrightarrow> (client_step le kMax)\<^sup>*\<^sup>* (RpcClient_new, [], []) c"

subsection \<open>The invariant of runs\<close>

text \<open>Request ids come from a 64-bit counter. Below \<open>2 ^ 64\<close> calls they are distinct; all of the
  following is stated for runs below that number.\<close>

definition issued :: "('c, 'k) effect list \<Rightarrow> (u64 \<times> 'k) list" where
  "issued log = concat (map effect_issue log)"

definition below_wrap :: "('c, 'k) effect list \<Rightarrow> bool" where
  "below_wrap log \<longleftrightarrow> length (issued log) < 2 ^ 64"

definition ids_ok :: "u64 \<Rightarrow> ('c, 'k) effect list \<Rightarrow> bool" where
  "ids_ok nxt log \<longleftrightarrow> map fst (issued log) = map of_nat [1..<length (issued log) + 1] \<and>
     nxt = of_nat (length (issued log) + 1)"

definition flow_ok :: "('c, 'k) client_config \<Rightarrow> bool" where
  "flow_ok c \<longleftrightarrow> (case c of (cl, stack, log) \<Rightarrow>
     mset (issued log) = held_calls cl + calls_of task_call stack + calls_of effect_call log)"

fun is_issue :: "('c, 'k) effect \<Rightarrow> bool" where
  "is_issue (Issued rid cb) = True"
| "is_issue _ = False"

definition client_log_ok :: "nat \<Rightarrow> ('c, 'k) client \<Rightarrow> ('c, 'k) effect list \<Rightarrow> bool" where
  "client_log_ok kMax cl log \<longleftrightarrow> (\<forall>e \<in> set log. is_issue e \<or> effect_ok (client_max kMax cl) e) \<and>
     (\<not> cl_hasConnectAttempted cl \<longrightarrow> (\<forall>conn bs. Send conn bs \<notin> set log))"

definition client_inv :: "nat \<Rightarrow> ('c, 'k) client_config \<Rightarrow> bool" where
  "client_inv kMax c \<longleftrightarrow> (case c of (cl, stack, log) \<Rightarrow> below_wrap log \<longrightarrow>
     client_ok kMax cl \<and> ids_ok (cl_nextRequestId cl) log \<and> flow_ok c \<and> client_log_ok kMax cl log)"

lemma client_inv_init: "client_init c \<Longrightarrow> client_inv kMax c"
  by (simp add: client_init_def client_inv_def RpcClient_new_def client_ok_def client_timers_def timers_ok_def
      pending_ok_def ids_ok_def issued_def flow_ok_def held_calls_def pending_calls_def client_log_ok_def)

lemma issued_simps [simp]:
  "issued [] = []" "issued (log @ log') = issued log @ issued log'" "issued (e # log) = effect_issue e @ issued log"
  by (simp_all add: issued_def)

lemma issued_none: "\<forall>e \<in> set effs. effect_ok mx e \<Longrightarrow> issued effs = []"
proof (induction effs)
  case (Cons e effs)
  then show ?case by (cases e) simp_all
qed simp

text \<open>The log stays in order when an operation that is in order adds to it.\<close>

lemma effect_ok_no_send: "effect_ok mx e \<Longrightarrow> (\<And>conn bs. e \<noteq> Send conn bs) \<Longrightarrow> effect_ok mx' e"
  by (cases e) auto

lemma client_log_ok_append:
  assumes log: "client_log_ok kMax cl log" and op: "op_ok kMax cl x (effs, tasks, cl')"
  shows "client_log_ok kMax cl' (log @ effs)"
proof (cases "cl_hasConnectAttempted cl")
  case True
  then have "client_max kMax cl' = client_max kMax cl" "cl_hasConnectAttempted cl'"
    using op by (simp_all add: op_ok_def settled_def client_max_def)
  then show ?thesis using log op by (auto simp: client_log_ok_def op_ok_def)
next
  case False
  then have none: "\<forall>conn bs. Send conn bs \<notin> set (log @ effs)"
    using log op by (simp add: client_log_ok_def op_ok_def)
  have "\<forall>e \<in> set (log @ effs). is_issue e \<or> effect_ok (client_max kMax cl) e"
    using log op by (auto simp: client_log_ok_def op_ok_def)
  with none have "\<forall>e \<in> set (log @ effs). is_issue e \<or> effect_ok (client_max kMax cl') e"
    using effect_ok_no_send by metis
  with none show ?thesis by (simp add: client_log_ok_def)
qed

lemma client_inv_op:
  assumes inv: "client_inv kMax (cl, stack, log)"
    and op: "client_ok kMax cl \<Longrightarrow> flow_ok (cl, stack, log) \<Longrightarrow> ids_ok (cl_nextRequestId cl) log \<Longrightarrow>
      below_wrap log \<Longrightarrow> op_ok kMax cl x (effs, tasks, cl')"
    and stack: "calls_of task_call stack = x + calls_of task_call rest"
  shows "client_inv kMax (cl', tasks @ rest, log @ effs)"
proof -
  have "client_ok kMax cl' \<and> ids_ok (cl_nextRequestId cl') (log @ effs) \<and>
    flow_ok (cl', tasks @ rest, log @ effs) \<and> client_log_ok kMax cl' (log @ effs)" if wrap: "below_wrap (log @ effs)"
  proof -
    have parts: "client_ok kMax cl" "ids_ok (cl_nextRequestId cl) log" "flow_ok (cl, stack, log)" "client_log_ok kMax cl log"
      and "below_wrap log"
      using inv wrap by (auto simp: client_inv_def below_wrap_def)
    then have r: "op_ok kMax cl x (effs, tasks, cl')" using op by blast
    then have same: "issued (log @ effs) = issued log" "cl_nextRequestId cl' = cl_nextRequestId cl"
      using issued_none[of effs "client_max kMax cl"] by (simp_all add: op_ok_def settled_def)
    have "held_calls cl + x = held_calls cl' + calls_of task_call tasks + calls_of effect_call effs"
      using r by (simp add: op_ok_def)
    then have "flow_ok (cl', tasks @ rest, log @ effs)"
      using parts(3) stack same(1) by (simp add: flow_ok_def ac_simps)
    with r parts(2) same client_log_ok_append[OF parts(4) r] show ?thesis by (simp add: op_ok_def ids_ok_def)
  qed
  then show ?thesis by (simp add: client_inv_def)
qed

text \<open>Ids are distinct, so a call in the queue is not pending, and the next id is not in use.\<close>

lemma of_nat_u64_inj: "m < 2 ^ 64 \<Longrightarrow> n < 2 ^ 64 \<Longrightarrow> (of_nat m :: u64) = of_nat n \<longleftrightarrow> m = n"
  by (simp add: word_of_nat_eq_iff take_bit_nat_eq_self)

lemma ids_distinct:
  assumes "ids_ok nxt log" "below_wrap log"
  shows "distinct (map fst (issued log))"
proof -
  have "inj_on (of_nat :: nat \<Rightarrow> u64) {1..<length (issued log) + 1}"
    using assms(2) by (intro inj_onI) (auto simp: below_wrap_def of_nat_u64_inj)
  then show ?thesis using assms(1) by (simp add: ids_ok_def distinct_map del: upt_Suc)
qed

lemma pending_call_in: "m_find pend rid = Some p \<Longrightarrow> (rid, pr_callback p) \<in># pending_calls pend"
  by (force simp: pending_calls_def dest: map_of_SomeD)

abbreviation issued_ids :: "('c, 'k) effect list \<Rightarrow> u64 set" where
  "issued_ids log \<equiv> fst ` set (issued log)"

lemma pending_id_issued:
  assumes "flow_ok (cl, stack, log)" and "m_find (cl_pendingRequests cl) rid = Some p"
  shows "rid \<in> issued_ids log"
proof -
  have "(rid, pr_callback p) \<in># mset (issued log)"
    using assms pending_call_in by (fastforce simp: flow_ok_def held_calls_def)
  then show ?thesis by force
qed

lemma next_id_unissued:
  assumes "ids_ok nxt log" "length (issued log) + 1 < 2 ^ 64"
  shows "nxt \<notin> issued_ids log"
proof
  assume "nxt \<in> issued_ids log"
  also have "issued_ids log = set (map of_nat [1..<length (issued log) + 1])"
    using assms(1) unfolding ids_ok_def by (metis set_map)
  finally obtain k where "k < length (issued log) + 1" "nxt = of_nat k" by (auto simp del: upt_Suc)
  moreover have "nxt = of_nat (length (issued log) + 1)" using assms(1) unfolding ids_ok_def by blast
  ultimately show False using assms(2) of_nat_u64_inj[of "length (issued log) + 1" k] by simp
qed

lemma next_id_fresh:
  assumes "ids_ok (cl_nextRequestId cl) log" "flow_ok (cl, stack, log)" "length (issued log) + 1 < 2 ^ 64"
  shows "m_find (cl_pendingRequests cl) (cl_nextRequestId cl) = None"
  using pending_id_issued[OF assms(2)] next_id_unissued[OF assms(1,3)] by (meson not_Some_eq)

lemma distinct_twice:
  assumes "distinct (map fst xs)" and "{#(k, a)#} + {#(k, b)#} \<subseteq># mset xs"
  shows False
proof -
  have "image_mset fst ({#(k, a)#} + {#(k, b)#}) \<subseteq># mset (map fst xs)"
    using image_mset_subseteq_mono[OF assms(2), of fst] by simp
  then have "count {#k, k#} k \<le> count (mset (map fst xs)) k"
    by (intro mset_subset_eq_count) simp
  moreover have "count (mset (map fst xs)) k \<le> 1"
    using assms(1) by (simp add: distinct_count_atmost_1)
  ultimately show False by simp
qed

lemma held_once:
  assumes "ids_ok nxt log" "below_wrap log" "flow_ok (cl, stack, log)"
    and "{#(rid, a)#} + {#(rid, b)#} \<subseteq># held_calls cl"
  shows False
proof -
  have "{#(rid, a)#} + {#(rid, b)#} \<subseteq># mset (issued log)"
    using assms(3,4) by (auto simp: flow_ok_def intro: subset_mset.trans)
  then show False using distinct_twice[OF ids_distinct[OF assms(1,2)]] by blast
qed

lemma queued_id_fresh:
  assumes "ids_ok nxt log" "below_wrap log" "flow_ok (cl, stack, log)"
    and queued: "(rid, cb) \<in># calls_of functor_call (cl_queue cl)"
  shows "m_find (cl_pendingRequests cl) rid = None"
proof (rule ccontr)
  assume "\<not> ?thesis"
  then obtain p where p: "m_find (cl_pendingRequests cl) rid = Some p" by blast
  have "{#(rid, cb)#} + {#(rid, pr_callback p)#} \<subseteq># held_calls cl"
    using pending_call_in[OF p] queued unfolding held_calls_def by (intro subset_mset.add_mono) simp_all
  then show False by (rule held_once[OF assms(1-3)])
qed

subsection \<open>Every step keeps the invariant\<close>

lemma client_inv_call:
  assumes inv: "client_inv kMax (cl, stack, log)"
    and call: "client_call le kMax up inLoop a cl = Some (rid, effs, tasks, cl')"
  shows "client_inv kMax (cl', tasks @ stack, log @ effs)"
proof -
  have "client_ok kMax cl' \<and> ids_ok (cl_nextRequestId cl') (log @ effs) \<and>
    flow_ok (cl', tasks @ stack, log @ effs) \<and> client_log_ok kMax cl' (log @ effs)" if wrap: "below_wrap (log @ effs)"
  proof -
    let ?rid = "cl_nextRequestId cl" and ?n = "length (issued log)"
    let ?cl = "cl\<lparr>cl_nextRequestId := ?rid + 1\<rparr>"
    obtain effs0 where effs0: "effs = Issued ?rid (ca_callback a) # effs0"
      using call by (auto simp: client_call_def Let_def split: if_splits prod.splits)
    then have n: "?n + 1 < 2 ^ 64" and "below_wrap log"
      using wrap by (auto simp: below_wrap_def)
    then have parts: "client_ok kMax cl" "ids_ok ?rid log" "flow_ok (cl, stack, log)" "client_log_ok kMax cl log"
      using inv by (auto simp: client_inv_def)
    obtain effs' where effs: "effs = Issued ?rid (ca_callback a) # effs'" "rid = ?rid"
      and op: "op_ok kMax ?cl {#(?rid, ca_callback a)#} (effs', tasks, cl')"
      using op_ok_call[OF parts(1) call next_id_fresh[OF parts(2,3) n]] by metis
    have none: "issued effs' = []" using op issued_none[of effs' "client_max kMax ?cl"] by (simp add: op_ok_def)
    have log: "issued (log @ effs) = issued log @ [(?rid, ca_callback a)]" by (simp add: effs none)
    have "ids_ok (cl_nextRequestId cl') (log @ effs)"
      using parts(2) op unfolding ids_ok_def log by (simp add: op_ok_def settled_def algebra_simps)
    moreover have "held_calls cl + {#(?rid, ca_callback a)#} =
        held_calls cl' + calls_of task_call tasks + calls_of effect_call effs'"
      using op by (simp add: op_ok_def)
    then have "flow_ok (cl', tasks @ stack, log @ effs)"
      using parts(3) unfolding flow_ok_def log by (simp add: effs(1) none ac_simps)
    moreover have before: "client_log_ok kMax ?cl (log @ [Issued ?rid (ca_callback a)])"
      using parts(4) by (auto simp: client_log_ok_def)
    have "client_log_ok kMax cl' (log @ effs)"
      using client_log_ok_append[OF before op] by (simp add: effs(1))
    ultimately show ?thesis using op by (simp add: op_ok_def)
  qed
  then show ?thesis by (simp add: client_inv_def)
qed

lemma client_api_ok:
  assumes "client_api le kMax cl r" and "client_ok kMax cl"
  shows "(\<exists>up a rid. client_call le kMax up True a cl = Some (rid, r)) \<or> op_ok kMax cl {#} r"
  using assms
  by (cases rule: client_api.cases)
    (simp_all add: op_ok_cancel op_ok_connect op_ok_disconnect op_ok_retry op_ok_setters, blast)

lemma client_api_inv:
  assumes "client_api le kMax cl (effs, tasks, cl')" and "client_inv kMax (cl, stack, log)"
  shows "client_inv kMax (cl', tasks @ stack, log @ effs)"
proof (cases "\<exists>up a rid. client_call le kMax up True a cl = Some (rid, effs, tasks, cl')")
  case True
  then show ?thesis using client_inv_call[OF assms(2)] by blast
next
  case False
  then show ?thesis
    using client_api_ok[OF assms(1)] by (intro client_inv_op[OF assms(2), of "{#}"]) auto
qed

lemma client_event_inv:
  assumes "client_event M le kMax cl (effs, tasks, cl')" and "client_inv kMax (cl, stack, log)"
  shows "client_inv kMax (cl', tasks @ stack, log @ effs)"
proof (rule client_inv_op[OF assms(2), of "{#}"])
  assume ok: "client_ok kMax cl" and flow: "flow_ok (cl, stack, log)"
    and ids: "ids_ok (cl_nextRequestId cl) log" and wrap: "below_wrap log"
  have queued: "m_find (cl_pendingRequests cl) rid = None"
    if "cl_queue cl = f # fs" "(rid, cb) \<in> set (functor_call f)" for f fs rid cb
    using queued_id_fresh[OF ids wrap flow, of rid cb] that by simp
  from assms(1) show "op_ok kMax cl {#} (effs, tasks, cl')"
  proof (cases rule: client_event.cases)
    case (ev_functor f fs up now)
    then show ?thesis using op_ok_run_functor[OF ok ev_functor(2) queued[OF ev_functor(2)]] by simp
  next
    case (ev_connection up conn)
    then show ?thesis using op_ok_onConnection[OF ok] by simp
  next
    case (ev_error e)
    then show ?thesis using op_ok_onConnectionError[OF ok] by simp
  next
    case (ev_message conn msg)
    then show ?thesis using op_ok_onRpcMessage[OF ok] by simp
  next
    case (ev_timer up now t)
    then show ?thesis using op_ok_fire_timer[OF ok] by simp
  qed
qed simp

lemma client_remote_inv:
  assumes "client_remote le kMax cl (effs, tasks, cl')" and "client_inv kMax (cl, stack, log)"
  shows "client_inv kMax (cl', tasks @ stack, log @ effs)"
  using assms(1)
proof (cases rule: client_remote.cases)
  case (rm_call up a rid)
  then show ?thesis using client_inv_call[OF assms(2)] by blast
next
  case (rm_cancel up now rid)
  have "op_ok kMax cl {#} (effs, tasks, cl')" if "client_ok kMax cl"
    unfolding rm_cancel using that by (rule op_ok_cancel)
  then show ?thesis by (intro client_inv_op[OF assms(2), of "{#}"]) simp_all
qed

lemma client_inv_step: "client_step le kMax c c' \<Longrightarrow> client_inv kMax c \<Longrightarrow> client_inv kMax c'"
proof (induction rule: client_step_from.induct)
  case (st_event cl effs tasks cl' log)
  from client_event_inv[OF st_event] show ?case by simp
next
  case (st_task t up cl effs tasks cl' stack log)
  have "op_ok kMax cl (mset (task_call t)) (effs, tasks, cl')" if "client_ok kMax cl"
    using op_ok_run_task[OF that, of t le up] st_task(2) by simp
  then show ?case by (intro client_inv_op[OF st_task(3), of "mset (task_call t)"]) simp_all
next
  case (st_return cl stack log)
  then show ?case by (simp add: client_inv_def flow_ok_def)
qed (auto intro: client_api_inv client_remote_inv)

interpretation client: invariant_system client_init "client_step le kMax" "client_inv kMax" for le kMax
  by unfold_locales (auto intro: client_inv_init client_inv_step)

lemma client_reachable_inv: "client_reachable le kMax c \<Longrightarrow> client_inv kMax c"
  unfolding client_reachable_def by (metis client.inv_reachable client_init_def)

lemma client_reachable_parts:
  assumes "client_reachable le kMax (cl, stack, log)" and "below_wrap log"
  shows "client_ok kMax cl" "ids_ok (cl_nextRequestId cl) log" "flow_ok (cl, stack, log)" "client_log_ok kMax cl log"
  using client_reachable_inv[OF assms(1)] assms(2) by (simp_all add: client_inv_def)

subsection \<open>Executing a schedule\<close>

text \<open>The step relation as a function of an event, for concrete runs; the clock stands at 0 and
  connections are up unless the event says otherwise.\<close>

datatype ('c, 'k) client_ev =
    C_call "'k call_args" | C_remote "'k call_args" | C_cancel u64 | C_connect | C_disconnect | C_limit nat
  | C_up 'c | C_down 'c | C_error int | C_message 'c string | C_timer TimerId | C_functor | C_task | C_return

definition perform :: "('c, 'k) task list \<Rightarrow> ('c, 'k) effect list \<Rightarrow> ('c, 'k) outcome \<Rightarrow> ('c, 'k) client_config" where
  "perform stack log r = (case r of (effs, tasks, cl) \<Rightarrow> (cl, tasks @ stack, log @ effs))"

fun client_exec :: "bool \<Rightarrow> nat \<Rightarrow> ('c, 'k) client_ev \<Rightarrow> ('c, 'k) client_config \<Rightarrow> ('c, 'k) client_config option" where
  "client_exec le kMax (C_call a) (cl, stack, log) =
     (if stack = [] \<or> hd stack = InUserCode
      then map_option (\<lambda>r. perform stack log (snd r)) (client_call le kMax (\<lambda>_. True) True a cl) else None)"
| "client_exec le kMax (C_remote a) (cl, stack, log) =
     map_option (\<lambda>r. perform stack log (snd r)) (client_call le kMax (\<lambda>_. True) False a cl)"
| "client_exec le kMax (C_cancel rid) (cl, stack, log) =
     (if stack = [] \<or> hd stack = InUserCode
      then Some (perform stack log (client_cancel le (\<lambda>_. True) 0 True rid cl)) else None)"
| "client_exec le kMax C_connect (cl, stack, log) =
     (if stack = [] \<or> hd stack = InUserCode then Some (perform stack log (client_connect cl)) else None)"
| "client_exec le kMax C_disconnect (cl, stack, log) =
     (if stack = [] \<or> hd stack = InUserCode then Some (perform stack log (client_disconnect cl)) else None)"
| "client_exec le kMax (C_limit n) (cl, stack, log) =
     (if stack = [] \<or> hd stack = InUserCode
      then map_option (\<lambda>cl. perform stack log ([], [], cl)) (setMaxPendingRequests n cl) else None)"
| "client_exec le kMax (C_up conn) (cl, stack, log) =
     (if stack = [] \<and> cl_hasConnectAttempted cl then Some (perform stack log (onConnection (\<lambda>_. True) conn cl)) else None)"
| "client_exec le kMax (C_down conn) (cl, stack, log) =
     (if stack = [] \<and> cl_hasConnectAttempted cl then Some (perform stack log (onConnection (\<lambda>_. False) conn cl)) else None)"
| "client_exec le kMax (C_error e) (cl, stack, log) =
     (if stack = [] \<and> cl_hasConnectAttempted cl then Some (perform stack log (onConnectionError e cl)) else None)"
| "client_exec le kMax (C_message conn msg) (cl, stack, log) =
     (if stack = [] then Some (perform stack log (client_onRpcMessage le kMax conn msg cl)) else None)"
| "client_exec le kMax (C_timer t) (cl, stack, log) =
     (if stack = [] then Some (perform stack log (fire_timer le (\<lambda>_. True) 0 t cl)) else None)"
| "client_exec le kMax C_functor (cl, stack, log) =
     (case cl_queue cl of
        [] \<Rightarrow> None
      | f # fs \<Rightarrow>
          if stack = [] then Some (perform stack log (run_functor le kMax (\<lambda>_. True) 0 f (cl\<lparr>cl_queue := fs\<rparr>)))
          else None)"
| "client_exec le kMax C_task (cl, stack, log) =
     (case stack of
        [] \<Rightarrow> None
      | t # stack \<Rightarrow> if t = InUserCode then None else Some (perform stack log (run_task le (\<lambda>_. True) t cl)))"
| "client_exec le kMax C_return (cl, stack, log) =
     (case stack of [] \<Rightarrow> None | t # stack \<Rightarrow> if t = InUserCode then Some (cl, stack, log) else None)"

fun client_run :: "bool \<Rightarrow> nat \<Rightarrow> ('c, 'k) client_ev list \<Rightarrow> ('c, 'k) client_config \<Rightarrow> ('c, 'k) client_config option" where
  "client_run le kMax [] c = Some c"
| "client_run le kMax (e # es) c = (case client_exec le kMax e c of None \<Rightarrow> None | Some c \<Rightarrow> client_run le kMax es c)"

text \<open>Outcomes of the three kinds as steps.\<close>

lemma perform_api: "client_api le kMax cl r \<Longrightarrow> stack = [] \<or> hd stack = InUserCode \<Longrightarrow>
     client_step_from M le kMax (cl, stack, log) (perform stack log r)"
  by (cases r) (simp add: perform_def st_api)

lemma perform_event: "client_event M le kMax cl r \<Longrightarrow> client_step_from M le kMax (cl, [], log) (perform [] log r)"
  by (cases r) (simp add: perform_def st_event)

lemma perform_remote: "client_remote le kMax cl r \<Longrightarrow> client_step_from M le kMax (cl, stack, log) (perform stack log r)"
  by (cases r) (simp add: perform_def st_remote)

lemma perform_task:
  "t \<noteq> InUserCode \<Longrightarrow> client_step_from M le kMax (cl, t # stack, log) (perform stack log (run_task le up t cl))"
  by (cases "run_task le up t cl") (simp add: perform_def st_task)

lemmas perform_steps = perform_api perform_event perform_remote perform_task

lemma client_exec_step_from:
  assumes "client_exec le kMax e c = Some c'"
  shows "client_step_from (\<lambda>conn msg. e = C_message conn msg) le kMax c c'"
proof -
  obtain cl stack log where c: "c = (cl, stack, log)" by (metis prod_cases3)
  show ?thesis
  proof (cases e)
    case (C_call a)
    then show ?thesis using assms
      by (fastforce simp: c split: if_splits intro: perform_steps client_api.intros)
  next
    case (C_remote a)
    then show ?thesis using assms
      by (fastforce simp: c intro: perform_steps client_remote.intros)
  next
    case C_functor
    then show ?thesis using assms
      by (auto simp: c split: if_splits list.splits intro!: perform_event ev_functor)
  next
    case C_task
    then show ?thesis using assms
      by (auto simp: c split: if_splits list.splits intro!: perform_task)
  next
    case C_return
    then show ?thesis using assms by (auto simp: c split: if_splits list.splits intro!: st_return)
  qed (use assms in \<open>auto simp: c split: if_splits intro: perform_steps client_api.intros client_event.intros\<close>)
qed

lemma client_exec_step: "client_exec le kMax e c = Some c' \<Longrightarrow> client_step le kMax c c'"
  by (rule client_step_from_step[OF client_exec_step_from])

lemma client_run_steps: "client_run le kMax es c = Some c' \<Longrightarrow> (client_step le kMax)\<^sup>*\<^sup>* c c'"
proof (induction es arbitrary: c)
  case (Cons e es)
  then obtain d where d: "client_exec le kMax e c = Some d" "client_run le kMax es d = Some c'"
    by (auto split: option.splits)
  from Cons.IH[OF d(2)] client_exec_step[OF d(1)] show ?case by (rule converse_rtranclp_into_rtranclp[rotated])
qed simp

lemma client_run_reachable: "client_run le kMax es (RpcClient_new, [], []) = Some c \<Longrightarrow> client_reachable le kMax c"
  unfolding client_reachable_def by (rule client_run_steps)

subsection \<open>Properties of runs\<close>

text \<open>C1: every call the application has made, in the loop or from another thread, is in exactly one place:
  queued for the loop, pending, on the call stack as a callback about to be made, or called back. Request
  ids are distinct. So no callback is ever made twice, for a call that was not made, or with the id of
  another call, and none is lost: once nothing is queued, pending or on the stack, every call has had
  exactly one callback.\<close>

theorem client_calls_conserved:
  assumes "client_reachable le kMax (cl, stack, log)" and "below_wrap log"
  shows "distinct (map fst (issued log)) \<and>
    mset (issued log) = held_calls cl + calls_of task_call stack + calls_of effect_call log"
  using client_reachable_parts[OF assms] ids_distinct[OF _ assms(2)] by (auto simp: flow_ok_def)

text \<open>C16: requests and timers correspond. A pending request whose response has a time limit, or which waits
  for a new connection, has its own timer running, with the handler of its phase and the configured
  duration, and a request without a time limit has none; every running timer but the periodic one belongs
  to exactly one pending request, so no timer is left behind by a finished request. A request that waits for a
  connection always has an attempt left, so the 8-bit counter never wraps when it is decremented.\<close>

theorem client_timers_match:
  assumes "client_reachable le kMax (cl, stack, log)" and "below_wrap log"
  shows "(\<forall>rid p. m_find (cl_pendingRequests cl) rid = Some p \<longrightarrow>
      (if pr_phase p = kWaitingReconnect \<or> pr_requestTimeout p > 0
       then \<exists>t. pr_timerId p = Some t \<and> m_find (cl_timers cl) t = Some (timer_of rid p)
       else pr_timerId p = None) \<and>
      (pr_phase p = kWaitingReconnect \<longrightarrow> pr_allowReconnect p \<and>
         unat (pr_remainingResends p - 1) = unat (pr_remainingResends p) - 1)) \<and>
    (\<forall>t e. m_find (cl_timers cl) t = Some e \<longrightarrow> cl_clearTimerId cl \<noteq> Some t \<longrightarrow>
      (\<exists>!rid. \<exists>p. m_find (cl_pendingRequests cl) rid = Some p \<and> pr_timerId p = Some t))"
proof (intro conjI allI impI)
  note ok = client_reachable_parts(1)[OF assms]
  note tms = client_ok_clauses(1)[OF ok]
  fix rid p assume p: "m_find (cl_pendingRequests cl) rid = Some p"
  show "if pr_phase p = kWaitingReconnect \<or> pr_requestTimeout p > 0
     then \<exists>t. pr_timerId p = Some t \<and> m_find (cl_timers cl) t = Some (timer_of rid p) else pr_timerId p = None"
    using timers_ok_clauses(4)[OF tms p] timers_ok_clauses(5)[OF tms p] by (auto simp: armed_def)
  assume "pr_phase p = kWaitingReconnect"
  then show "pr_allowReconnect p" "unat (pr_remainingResends p - 1) = unat (pr_remainingResends p) - 1"
    using client_ok_clauses(3)[OF ok p] by (simp_all add: entry_fits_def dec_resends)
next
  note ok = client_reachable_parts(1)[OF assms]
  fix t e assume t: "m_find (cl_timers cl) t = Some e" "cl_clearTimerId cl \<noteq> Some t"
  obtain rid p where p: "m_find (cl_pendingRequests cl) rid = Some p" "pr_timerId p = Some t" "e = timer_of rid p"
    using fired_timer[OF ok t] .
  then show "\<exists>!rid. \<exists>p. m_find (cl_pendingRequests cl) rid = Some p \<and> pr_timerId p = Some t"
    using timers_ok_unique(2)[OF client_ok_clauses(1)[OF ok] p(1,2)] by blast
qed

text \<open>C17: the destructor leaves nothing behind in the event loop. Whatever the client was doing, after
  its destructor no request is pending, no late response is remembered, and none of the timers it ever
  started is still running, so no timer fires on a destroyed client.\<close>

theorem client_destroy_clean:
  assumes "client_reachable le kMax (cl, stack, log)" and "below_wrap log"
  shows "cl_pendingRequests (RpcClient_destroy cl) = [] \<and> cl_ignoredResponseRequests (RpcClient_destroy cl) = [] \<and>
    cl_timers (RpcClient_destroy cl) = []"
proof -
  let ?cl = "clearPendingRequests cl"
  have pend: "cl_pendingRequests ?cl = []" and clr: "cl_clearTimerId ?cl = cl_clearTimerId cl"
    by (simp_all add: clearPendingRequests_def Let_def fold_cancel_timer)
  note ok = client_ok_clear[OF client_reachable_parts(1)[OF assms]]
  have last: "cl_clearTimerId ?cl = Some t" if "m_find (cl_timers ?cl) t = Some e" for t e
    using timers_ok_clauses(6)[OF client_ok_clauses(1)[OF ok] that] pend by simp
  have "t \<notin> m_keys (cl_timers (cancel_timer (cl_clearTimerId ?cl) ?cl))" for t
    using last[of t] unfolding m_find_None_iff[symmetric]
    by (cases "m_find (cl_timers ?cl) t"; cases "cl_clearTimerId ?cl") (auto simp: cancel_timer_def umap_simps)
  then have "cl_timers (cancel_timer (cl_clearTimerId ?cl) ?cl) = []"
    by (metis empty_iff image_is_empty list.set_intros(1) neq_Nil_conv image_eqI)
  then show ?thesis
    using pend clr by (simp add: RpcClient_destroy_def clearIgnoredResponseRequests_def cancel_timer_def split: option.splits)
qed

text \<open>The number of pending requests never exceeds the configured limit, and nothing is pending before the
  first connection attempt.\<close>

theorem client_pending_bounded:
  assumes "client_reachable le kMax (cl, stack, log)" and "below_wrap log"
  shows "(\<forall>m. cl_maxPendingRequests cl = Some m \<longrightarrow> length (cl_pendingRequests cl) \<le> m) \<and>
    (\<not> cl_hasConnectAttempted cl \<longrightarrow> cl_pendingRequests cl = [])"
  using client_reachable_parts(1)[OF assms] by (auto simp: client_ok_def pending_ok_def)

text \<open>C27: everything the client has ever handed to the transport, first transmissions and
  retransmissions alike, is the encoding of a valid request or a cancel message and within the size limit;
  encoding never touches memory outside its buffer.\<close>

theorem client_log_wellformed:
  assumes "client_reachable le kMax (cl, stack, log)" and "below_wrap log" and "e \<in> set log"
  shows "e \<noteq> Broken \<and> (\<forall>conn bs. e = Send conn bs \<longrightarrow>
    (bs \<in> request_wire ` Collect request_valid \<or> bs \<in> range cancel_wire) \<and> length bs \<le> client_max kMax cl)"
proof -
  have "is_issue e \<or> effect_ok (client_max kMax cl) e"
    using client_reachable_parts(4)[OF assms(1,2)] assms(3) by (simp add: client_log_ok_def)
  then show ?thesis by (cases e) auto
qed

text \<open>C26: a message from the server. The encoding of a valid response within the size limit that answers a
  pending request stops its timer, removes the request and calls its callback with that response; the late response
  of a timed-out or cancelled request is dropped once; every other message closes the connection and
  changes nothing.\<close>

theorem client_message_outcome:
  "(\<forall>r. takes_response kMax cl r \<longrightarrow> client_onRpcMessage le kMax conn (response_wire r) cl =
     (case m_find (cl_pendingRequests cl) (rs_requestId r) of
        Some p \<Rightarrow> ([], [DoCallback (pr_callback p) r], erase_pending (rs_requestId r) (cancel_timer (pr_timerId p) cl))
      | None \<Rightarrow>
          if rs_requestId r \<in> m_keys (cl_ignoredResponseRequests cl)
          then ([], [], cl\<lparr>cl_ignoredResponseRequests := m_erase (rs_requestId r) (cl_ignoredResponseRequests cl)\<rparr>)
          else ([CloseConn conn], [], cl))) \<and>
   (msg \<notin> response_wire ` Collect (takes_response kMax cl) \<longrightarrow>
      client_onRpcMessage le kMax conn msg cl = ([CloseConn conn], [], cl))"
proof (intro conjI allI impI)
  fix r assume r: "takes_response kMax cl r"
  show "client_onRpcMessage le kMax conn (response_wire r) cl =
     (case m_find (cl_pendingRequests cl) (rs_requestId r) of
        Some p \<Rightarrow> ([], [DoCallback (pr_callback p) r], erase_pending (rs_requestId r) (cancel_timer (pr_timerId p) cl))
      | None \<Rightarrow>
          if rs_requestId r \<in> m_keys (cl_ignoredResponseRequests cl)
          then ([], [], cl\<lparr>cl_ignoredResponseRequests := m_erase (rs_requestId r) (cl_ignoredResponseRequests cl)\<rparr>)
          else ([CloseConn conn], [], cl))"
    unfolding onRpcMessage_response[OF r] by (simp add: m_find_None_iff split: option.split)
next
  assume "msg \<notin> response_wire ` Collect (takes_response kMax cl)"
  then show "client_onRpcMessage le kMax conn msg cl = ([CloseConn conn], [], cl)"
    by (intro onRpcMessage_malformed) auto
qed

text \<open>What a connection that is lost, or could not be made, does to the pending requests: those that
  already wait for a connection stay exactly as they are, with the same timer; those that may be sent again begin to wait
  under a new timer; all others fail.\<close>

definition requests_after_loss ::
  "RpcErrorCode \<Rightarrow> string \<Rightarrow> ('c, 'k) client \<Rightarrow> ('c, 'k) task list \<Rightarrow> ('c, 'k) client \<Rightarrow> bool" where
  "requests_after_loss ec msg cl tasks cl' \<longleftrightarrow>
     (\<forall>rid. m_find (cl_pendingRequests cl) rid = None \<longrightarrow> m_find (cl_pendingRequests cl') rid = None) \<and>
     (\<forall>rid p. m_find (cl_pendingRequests cl) rid = Some p \<longrightarrow>
       (if pr_phase p = kWaitingReconnect then m_find (cl_pendingRequests cl') rid = Some p
        else if pr_allowReconnect p \<and> pr_remainingResends p \<noteq> 0
        then \<exists>t. m_find (cl_pendingRequests cl') rid = Some (p\<lparr>pr_phase := kWaitingReconnect, pr_timerId := Some t\<rparr>) \<and>
          m_find (cl_timers cl') t = Some (OnReconnectTimeout rid, pr_reconnectTimeout p)
        else m_find (cl_pendingRequests cl') rid = None \<and>
          DoCallback (pr_callback p) (failed_response rid ec msg) \<in> set tasks))"

lemma failAllDis_after_loss:
  assumes ok: "client_ok kMax cl" and run: "failAllDisreconnectRequests ec msg cl = (effs, tasks, cl')"
  shows "effs = []" "cl_status cl' = cl_status cl" "cl_conn cl' = cl_conn cl" "requests_after_loss ec msg cl tasks cl'"
proof -
  show "effs = []" using run by (auto simp: failAllDisreconnectRequests_def Let_def split: prod.splits)
  show "cl_status cl' = cl_status cl" "cl_conn cl' = cl_conn cl"
    using op_ok_failAllDis(2)[OF ok run] by (simp_all add: same_settings_def)
  have "client_ok kMax cl'" using op_ok_failAllDis(1)[OF ok, of ec msg] run by (simp add: op_ok_def)
  note timer = timers_ok_clauses(5)[OF client_ok_clauses(1)[OF this]]
  have "m_find (cl_timers cl') t = Some (OnReconnectTimeout rid, pr_reconnectTimeout p)"
    if "m_find (cl_pendingRequests cl') rid = Some (reconnecting t p)" for rid t p
    using timer[OF that, of t] by (simp add: timer_of_def)
  then show "requests_after_loss ec msg cl tasks cl'"
    using failAllDis_find[OF ok run] failAllDis_find_None[OF run]
    unfolding requests_after_loss_def resendable_def by metis
qed

lemma requests_after_loss_cong:
  assumes "requests_after_loss ec msg cl0 tasks0 cl'" and "cl_pendingRequests cl0 = cl_pendingRequests cl"
    and "set tasks0 \<subseteq> set tasks"
  shows "requests_after_loss ec msg cl tasks cl'"
proof -
  have "DoCallback k r \<in> set tasks" if "DoCallback k r \<in> set tasks0" for k r using that assms(3) by blast
  then show ?thesis using assms(1) unfolding requests_after_loss_def assms(2) by presburger
qed

text \<open>C18: the connection is lost without the application having asked for it, or a connection attempt
  fails. A request that already waits for a connection is not touched, so that a failed attempt does not
  restart its timer; a request that may be sent again stays pending and waits under a new timer of the
  configured duration; every other pending request is removed and its callback is called with
  \<open>CONNECTION_CLOSED\<close>, or \<open>CONNECTION_UNAVAILABLE\<close> for a failed attempt; no request appears.\<close>

theorem client_connection_lost:
  assumes "client_reachable le kMax (cl, stack, log)" and "below_wrap log"
  shows "(\<not> up conn \<longrightarrow> \<not> cl_manualDisconnection cl \<longrightarrow> onConnection up conn cl = (effs, tasks, cl') \<longrightarrow>
      effs = [] \<and> cl_status cl' = kDisconnected \<and> cl_conn cl' = None \<and>
      requests_after_loss CONNECTION_CLOSED ''connect closed'' cl tasks cl') \<and>
    (onConnectionError e cl = (effs, tasks, cl') \<longrightarrow>
      effs = [] \<and> cl_status cl' = kDisconnected \<and> cl_conn cl' = None \<and>
      requests_after_loss CONNECTION_UNAVAILABLE ''connection error'' cl tasks cl')"
proof -
  let ?cl = "cl\<lparr>cl_conn := None, cl_status := kDisconnected\<rparr>"
  have ok: "client_ok kMax ?cl"
    using client_reachable_parts(1)[OF assms(1,2)] client_ok_conn(1)[of kMax cl] by simp
  have swap: "cl\<lparr>cl_status := kDisconnected, cl_conn := None\<rparr> = ?cl" by simp
  have lost: "effs = [] \<and> cl_status cl' = kDisconnected \<and> cl_conn cl' = None \<and> requests_after_loss ec msg cl tasks cl'"
    if run: "failAllDisreconnectRequests ec msg ?cl = (effs, tasks0, cl')" and "set tasks0 \<subseteq> set tasks" for ec msg tasks0
    using failAllDis_after_loss[OF ok run] requests_after_loss_cong[of ec msg ?cl tasks0 cl' cl tasks] that(2) by simp
  show ?thesis
    by (auto simp: onConnection_def onConnectionError_def Let_def swap split: prod.splits dest!: lost)
qed

lemma failed_task_in: "(rid, p) \<in> set pend \<Longrightarrow> DoCallback (pr_callback p) (failed_response rid ec msg) \<in>
     (\<lambda>item. DoCallback (pr_callback (snd item)) (failed_response (fst item) ec msg)) ` set pend"
  by force

text \<open>C36: a disconnection asked for by the application is final. Whatever the state, once \<open>disconnect\<close> has been
  called and the connection is reported down, no request is pending, not even those that could be sent again,
  and each request that was pending has its callback called with \<open>CONNECTION_CLOSED\<close>.\<close>

theorem client_disconnect_final:
  assumes "client_disconnect cl = (effs1, tasks1, cl1)" and "\<not> up conn"
    and "onConnection up conn cl1 = (effs2, tasks2, cl2)"
  shows "cl_pendingRequests cl2 = [] \<and>
    (\<forall>(rid, p) \<in> set (cl_pendingRequests cl).
       DoCallback (pr_callback p) (failed_response rid CONNECTION_CLOSED ''connect closed'') \<in> set (tasks1 @ tasks2))"
  using assms
  by (auto simp: client_disconnect_def onConnection_def failAllPendingRequests_def Let_def fold_cancel_timer
      split: if_splits intro: failed_task_in)

text \<open>The response to a cancelled request may still be on its way. If it arrives before the entry for the
  ignored request expires, one minute after the cancellation, it is dropped: no callback is called for it and the connection is
  not closed, also when the expired entries have been cleared in the meantime.\<close>

theorem client_late_response_dropped:
  assumes "m_find (cl_pendingRequests cl) rid = Some p"
    and "cancelInLoop le up now rid cl = (effs, tasks, cl1)"
    and "takes_response kMax cl r" and "rs_requestId r = rid" and "now' < now + 60000"
  shows "\<exists>cl2. client_onRpcMessage le kMax conn (response_wire r) (clearExpiredIgnoredResponseRequests now' cl1) =
    ([], [], cl2)"
proof -
  let ?cl = "clearExpiredIgnoredResponseRequests now' cl1"
  have cl1: "cl1 = ignore_response now rid (erase_pending rid (cancel_timer (pr_timerId p) cl))"
    using assms(1,2) by (simp add: cancelInLoop_def Let_def)
  then have pend: "m_find (cl_pendingRequests ?cl) rid = None" and max: "takes_response kMax ?cl r"
    using assms(3) by (simp_all add: clearExpiredIgnoredResponseRequests_def block_defs umap_simps takes_response_def client_max_def)
  have "(rid, now + 60000) \<in> set (m_put rid (now + 60000) (cl_ignoredResponseRequests cl))"
    by (rule map_of_SomeD) (simp add: umap_simps)
  then have "(rid, now + 60000) \<in> set (cl_ignoredResponseRequests ?cl)"
    using assms(5) by (simp add: cl1 clearExpiredIgnoredResponseRequests_def block_defs)
  then have "m_find (cl_ignoredResponseRequests ?cl) rid \<noteq> None"
    by (metis m_find_None_iff fst_conv image_eqI)
  then show ?thesis
    unfolding onRpcMessage_response[OF max] assms(4) pend by simp
qed

subsection \<open>Concrete runs\<close>

abbreviation call_of :: "nat \<Rightarrow> nat call_args" where
  "call_of cb \<equiv> \<lparr>ca_requestId = 0, ca_service = ''S'', ca_method = ''m'', ca_payload = ''p'', ca_callback = cb,
     ca_timeout = 100, ca_allowReconnect = True, ca_reconnectTimeout = 50, ca_resendLimit = Some 2\<rparr>"

abbreviation request_of :: "u64 \<Rightarrow> string" where
  "request_of rid \<equiv> request_wire \<lparr>rq_requestId = rid, rq_service = ''S'', rq_method = ''m'', rq_payload = ''p''\<rparr>"

abbreviation answer_to :: "u64 \<Rightarrow> RpcResponse" where
  "answer_to rid \<equiv> RpcResponse_make rid kSuccess NO_ERROR ''x'' []"

lemma length_response_wire_eq:
  "length (response_wire r) = 22 + length (rs_payload r) + length (rs_errorMessage r)"
  by (simp add: response_wire_def)

lemmas client_eval = RpcClient_new_def perform_def client_connect_def onConnection_def client_call_def callInLoop_def
  RpcRequest_encode_eq request_valid_def RpcRequest_OutputMessageLen_def field_lens refuse_call_def
  onRpcMessage_response takes_response_def response_valid_def RpcResponse_make_def length_response_wire_eq outcome_valid_def
  client_max_def failAllDisreconnectRequests_def failAllPendingRequests_def change_phase_def collect_failed_def
  waitingToResend_def resend_one_def fire_timer_def onRequestTimeout_def onReconnectTimeout_def sendCancel_def
  RpcCancel_encode_eq runAfter_def set_pending_def erase_pending_def cancel_timer_def ignore_response_def
  client_disconnect_def setMaxPendingRequests_def failed_response_def cancelInLoop_def client_cancel_def
  clearIgnoredResponseRequests_def below_wrap_def Let_def

text \<open>Two calls, one from another thread; the first is answered, then the connection is lost, comes back and
  the second is sent again.\<close>

abbreviation resend_schedule :: "(nat, nat) client_ev list" where
  "resend_schedule \<equiv> [C_connect, C_up 0, C_task, C_task, C_call (call_of 7), C_remote (call_of 8), C_functor,
     C_message 0 (response_wire (answer_to 1)), C_task, C_return, C_down 0, C_task, C_up 1, C_task, C_task, C_task]"

lemma resend_schedule_run:
  "\<exists>cl :: (nat, nat) client. client_run True 67108864 resend_schedule (RpcClient_new, [], []) =
     Some (cl, [], [TcpConnect, Issued 1 7, Send 0 (request_of 1), Issued 2 8, Send 0 (request_of 2),
       CalledBack 7 (answer_to 1), Send 1 (request_of 2)]) \<and>
     map fst (cl_pendingRequests cl) = [2]"
  by (simp add: client_eval)

theorem client_calls_conserved_witness:
  "\<exists>(cl :: (nat, nat) client) log. client_run True 67108864 resend_schedule (RpcClient_new, [], []) = Some (cl, [], log) \<and>
     below_wrap log \<and> mset (issued log) = {#(1, 7), (2, 8)#} \<and> calls_of effect_call log = {#(1, 7)#} \<and>
     distinct (map fst (issued log)) \<and> mset (issued log) = held_calls cl + calls_of effect_call log"
proof -
  obtain cl :: "(nat, nat) client" and log where
    run: "client_run True 67108864 resend_schedule (RpcClient_new, [], []) = Some (cl, [], log)"
    and log: "log = [TcpConnect, Issued 1 7, Send 0 (request_of 1), Issued 2 8, Send 0 (request_of 2),
       CalledBack 7 (answer_to 1), Send 1 (request_of 2)]"
    using resend_schedule_run by blast
  have facts: "below_wrap log" "mset (issued log) = {#(1, 7), (2, 8)#}" "calls_of effect_call log = {#(1, 7)#}"
    by (simp_all add: log below_wrap_def RpcResponse_make_def)
  from client_calls_conserved[OF client_run_reachable[OF run] facts(1)] run facts show ?thesis by auto
qed

theorem client_log_wellformed_witness:
  "\<exists>(cl :: (nat, nat) client) log. client_run True 67108864 resend_schedule (RpcClient_new, [], []) = Some (cl, [], log) \<and>
     Send 1 (request_of 2) \<in> set log \<and> length (request_of 2) \<le> client_max 67108864 cl"
proof -
  obtain cl :: "(nat, nat) client" and log where
    run: "client_run True 67108864 resend_schedule (RpcClient_new, [], []) = Some (cl, [], log)"
    and log: "log = [TcpConnect, Issued 1 7, Send 0 (request_of 1), Issued 2 8, Send 0 (request_of 2),
       CalledBack 7 (answer_to 1), Send 1 (request_of 2)]"
    using resend_schedule_run by blast
  have facts: "below_wrap log" "Send 1 (request_of 2) \<in> set log" by (simp_all add: log below_wrap_def)
  from client_log_wellformed[OF client_run_reachable[OF run] facts] run facts show ?thesis by blast
qed

text \<open>A limit of one pending request; the second call is refused.\<close>

abbreviation pending_schedule :: "(nat, nat) client_ev list" where
  "pending_schedule \<equiv> [C_limit 1, C_connect, C_up 0, C_task, C_task, C_call (call_of 7), C_call (call_of 8), C_task, C_return]"

abbreviation first_request :: "nat PendingRequest" where
  "first_request \<equiv> \<lparr>pr_serviceName = ''S'', pr_methodName = ''m'', pr_payload = ''p'', pr_callback = 7,
     pr_requestTimeout = 100, pr_allowReconnect = True, pr_phase = kWaitingResponse, pr_remainingResends = 2,
     pr_reconnectTimeout = 50, pr_timerId = Some 1\<rparr>"

lemma pending_schedule_run:
  "\<exists>cl :: (nat, nat) client. client_run True 67108864 pending_schedule (RpcClient_new, [], []) =
     Some (cl, [], [TcpConnect, Issued 1 7, Send 0 (request_of 1), Issued 2 8,
       CalledBack 8 (failed_response 2 RESOURCE_EXHAUSTED ''too many pending requests'')]) \<and>
     cl_maxPendingRequests cl = Some 1 \<and> \<not> cl_manualDisconnection cl \<and>
     cl_pendingRequests cl = [(1, first_request)] \<and> cl_maxMessageSize cl = None"
  by (simp add: client_eval)

lemma pending_schedule_state:
  obtains cl :: "(nat, nat) client" and log where
    "client_run True 67108864 pending_schedule (RpcClient_new, [], []) = Some (cl, [], log)" "below_wrap log"
    "cl_maxPendingRequests cl = Some 1" "\<not> cl_manualDisconnection cl" "cl_pendingRequests cl = [(1, first_request)]"
    "m_find (cl_pendingRequests cl) 1 = Some first_request" "takes_response 67108864 cl (answer_to 1)"
proof -
  let ?log = "[TcpConnect, Issued 1 7, Send 0 (request_of 1), Issued 2 8,
    CalledBack 8 (failed_response 2 RESOURCE_EXHAUSTED ''too many pending requests'')] :: (nat, nat) effect list"
  obtain cl :: "(nat, nat) client" where
    cl: "client_run True 67108864 pending_schedule (RpcClient_new, [], []) = Some (cl, [], ?log)"
      "cl_maxPendingRequests cl = Some 1" "\<not> cl_manualDisconnection cl" "cl_pendingRequests cl = [(1, first_request)]"
      "cl_maxMessageSize cl = None"
    using pending_schedule_run by blast
  moreover have "below_wrap ?log" by (simp add: below_wrap_def)
  moreover have "takes_response 67108864 cl (answer_to 1)" using cl(5) by (simp add: client_eval)
  ultimately show thesis by (intro that[of cl ?log]) (simp_all only: map_of.simps fst_conv snd_conv if_True fun_upd_same not_False_eq_True)
qed

theorem client_pending_bounded_witness:
  "\<exists>(cl :: (nat, nat) client) log. client_run True 67108864 pending_schedule (RpcClient_new, [], []) = Some (cl, [], log) \<and>
     below_wrap log \<and> cl_maxPendingRequests cl = Some 1 \<and> length (cl_pendingRequests cl) \<le> 1"
proof -
  obtain cl :: "(nat, nat) client" and log where
    run: "client_run True 67108864 pending_schedule (RpcClient_new, [], []) = Some (cl, [], log)"
    and facts: "cl_maxPendingRequests cl = Some 1" "below_wrap log"
    by (rule pending_schedule_state)
  from client_pending_bounded[OF client_run_reachable[OF run] facts(2)] run facts show ?thesis by blast
qed

theorem client_timers_match_witness:
  "\<exists>(cl :: (nat, nat) client) log p t. client_run True 67108864 pending_schedule (RpcClient_new, [], []) = Some (cl, [], log) \<and>
     below_wrap log \<and> m_find (cl_pendingRequests cl) 1 = Some p \<and> pr_timerId p = Some t \<and>
     m_find (cl_timers cl) t = Some (OnRequestTimeout 1, 100)"
proof -
  obtain cl :: "(nat, nat) client" and log where
    run: "client_run True 67108864 pending_schedule (RpcClient_new, [], []) = Some (cl, [], log)" and wrap: "below_wrap log"
    and p: "m_find (cl_pendingRequests cl) 1 = Some first_request"
    by (rule pending_schedule_state)
  have "if pr_phase first_request = kWaitingReconnect \<or> pr_requestTimeout first_request > 0
      then \<exists>t. pr_timerId first_request = Some t \<and> m_find (cl_timers cl) t = Some (timer_of 1 first_request)
      else pr_timerId first_request = None"
    using client_timers_match[OF client_run_reachable[OF run] wrap] p by blast
  then obtain t where "pr_timerId first_request = Some t" "m_find (cl_timers cl) t = Some (OnRequestTimeout 1, 100)"
    by (auto simp: timer_of_def)
  with run wrap p show ?thesis by blast
qed

theorem client_destroy_clean_witness:
  "\<exists>(cl :: (nat, nat) client) log. client_run True 67108864 pending_schedule (RpcClient_new, [], []) = Some (cl, [], log) \<and>
     cl_pendingRequests cl \<noteq> [] \<and> cl_pendingRequests (RpcClient_destroy cl) = [] \<and> cl_timers (RpcClient_destroy cl) = []"
proof -
  obtain cl :: "(nat, nat) client" and log where
    run: "client_run True 67108864 pending_schedule (RpcClient_new, [], []) = Some (cl, [], log)" and wrap: "below_wrap log"
    and p: "cl_pendingRequests cl = [(1, first_request)]"
    by (rule pending_schedule_state)
  from client_destroy_clean[OF client_run_reachable[OF run] wrap] run p show ?thesis by auto
qed

theorem client_message_outcome_witness:
  "\<exists>(cl :: (nat, nat) client) p. takes_response 67108864 cl (answer_to 1) \<and> m_find (cl_pendingRequests cl) 1 = Some p \<and>
     client_onRpcMessage True 67108864 0 (response_wire (answer_to 1)) cl =
       ([], [DoCallback 7 (answer_to 1)], erase_pending 1 (cancel_timer (pr_timerId p) cl)) \<and>
     client_onRpcMessage True 67108864 0 [] cl = ([CloseConn 0], [], cl)"
proof -
  obtain cl :: "(nat, nat) client" where
    p: "m_find (cl_pendingRequests cl) 1 = Some first_request" and takes: "takes_response 67108864 cl (answer_to 1)"
    by (rule pending_schedule_state)
  have "[] \<notin> response_wire ` Collect (takes_response 67108864 cl)"
    using length_response_wire_eq by (metis (no_types, lifting) add_is_0 imageE list.size(3) zero_neq_numeral)
  with takes client_message_outcome[of 67108864 cl True 0 "[]"] p show ?thesis
    by (auto simp: RpcResponse_make_def)
qed

theorem client_connection_lost_witness:
  "\<exists>(cl :: (nat, nat) client) log effs tasks cl' p t.
     client_run True 67108864 pending_schedule (RpcClient_new, [], []) = Some (cl, [], log) \<and> below_wrap log \<and>
     onConnection (\<lambda>_. False) 0 cl = (effs, tasks, cl') \<and> m_find (cl_pendingRequests cl) 1 = Some p \<and>
     m_find (cl_pendingRequests cl') 1 = Some (p\<lparr>pr_phase := kWaitingReconnect, pr_timerId := Some t\<rparr>)"
proof -
  let ?p = first_request
  obtain cl :: "(nat, nat) client" and log where
    run: "client_run True 67108864 pending_schedule (RpcClient_new, [], []) = Some (cl, [], log)" and wrap: "below_wrap log"
    and p: "m_find (cl_pendingRequests cl) 1 = Some ?p" and manual: "\<not> cl_manualDisconnection cl"
    by (rule pending_schedule_state)
  obtain effs tasks cl' where down: "onConnection (\<lambda>_. False) 0 cl = (effs, tasks, cl')" by (metis prod_cases3)
  have "requests_after_loss CONNECTION_CLOSED ''connect closed'' cl tasks cl'"
    using client_connection_lost[OF client_run_reachable[OF run] wrap, of "\<lambda>_. False" 0 effs tasks cl' 0] manual down by blast
  then obtain t where "m_find (cl_pendingRequests cl') 1 = Some (?p\<lparr>pr_phase := kWaitingReconnect, pr_timerId := Some t\<rparr>)"
    using p unfolding requests_after_loss_def by fastforce
  with run wrap down p show ?thesis by blast
qed

theorem client_disconnect_final_witness:
  "\<exists>(cl :: (nat, nat) client) effs1 tasks1 cl1 effs2 tasks2 cl2. length (cl_pendingRequests cl) = 1 \<and>
     client_disconnect cl = (effs1, tasks1, cl1) \<and> onConnection (\<lambda>_. False) 0 cl1 = (effs2, tasks2, cl2) \<and>
     cl_pendingRequests cl2 = [] \<and>
     DoCallback 7 (failed_response 1 CONNECTION_CLOSED ''connect closed'') \<in> set (tasks1 @ tasks2)"
proof -
  obtain cl :: "(nat, nat) client" where p: "cl_pendingRequests cl = [(1, first_request)]"
    by (rule pending_schedule_state)
  obtain effs1 tasks1 cl1 where one: "client_disconnect cl = (effs1, tasks1, cl1)" by (metis prod_cases3)
  obtain effs2 tasks2 cl2 where two: "onConnection (\<lambda>_. False) 0 cl1 = (effs2, tasks2, cl2)" by (metis prod_cases3)
  from client_disconnect_final[OF one _ two] p one two show ?thesis by (auto intro!: exI[of _ cl])
qed

theorem client_late_response_dropped_witness:
  "\<exists>(cl :: (nat, nat) client) effs tasks cl1 cl2. cancelInLoop True (\<lambda>_. True) 0 1 cl = (effs, tasks, cl1) \<and>
     tasks = [DoCallback 7 (failed_response 1 REQUEST_CANCELED ''rpc request canceled'')] \<and>
     client_onRpcMessage True 67108864 0 (response_wire (answer_to 1)) (clearExpiredIgnoredResponseRequests 59999 cl1) =
       ([], [], cl2)"
proof -
  obtain cl :: "(nat, nat) client" where
    p: "m_find (cl_pendingRequests cl) 1 = Some first_request" and takes: "takes_response 67108864 cl (answer_to 1)"
    by (rule pending_schedule_state)
  have id: "rs_requestId (answer_to 1) = 1" by (simp add: RpcResponse_make_def)
  obtain effs tasks cl1 where cancel: "cancelInLoop True (\<lambda>_. True) 0 1 cl = (effs, tasks, cl1)" by (metis prod_cases3)
  moreover have "tasks = [DoCallback 7 (failed_response 1 REQUEST_CANCELED ''rpc request canceled'')]"
    using cancel p by (simp add: cancelInLoop_def Let_def)
  ultimately show ?thesis
    using client_late_response_dropped[OF p cancel takes id, of 59999 0] by fastforce
qed

end
