(* ===== verification/Rpc_Client_Resend.thy ===== *)
theory Rpc_Client_Resend
  imports Rpc_Client_Runs
begin

section \<open>How often a request is sent, and what is sent\<close>

text \<open>
  Resending is limited: every retransmission takes one of the attempts a request has left. And it is
  faithful: every frame of a request holds the service, the method and the payload of the call. This theory
  follows one request through the operations (\<open>spends\<close>, \<open>faithful\<close>) and through runs of the client.
\<close>

text \<open>The id of the request a frame holds, and the frames of a log that hold a request.\<close>

definition request_id_of :: "string \<Rightarrow> u64 option" where
  "request_id_of bs = map_option rq_requestId (accepted (RpcRequest_decode False RpcRequest_default bs []))"

fun sends_request :: "u64 \<Rightarrow> ('c, 'k) effect \<Rightarrow> bool" where
  "sends_request rid (Send conn bs) \<longleftrightarrow> request_id_of bs = Some rid"
| "sends_request rid _ \<longleftrightarrow> False"

definition sends_of :: "u64 \<Rightarrow> ('c, 'k) effect list \<Rightarrow> nat" where
  "sends_of rid log = length (filter (sends_request rid) log)"

lemma sends_of_simps [simp]:
  "sends_of rid [] = 0" "sends_of rid (e # log) = (if sends_request rid e then 1 else 0) + sends_of rid log"
  "sends_of rid (log @ log') = sends_of rid log + sends_of rid log'"
  by (simp_all add: sends_of_def)

lemma request_id_of_wire: "request_valid r \<Longrightarrow> request_id_of (request_wire r) = Some (rq_requestId r)"
  unfolding request_id_of_def by (simp add: RpcRequest_decode_wire accepted_def)

lemma request_id_of_cancel: "request_id_of (cancel_wire c) = None"
proof (cases rule: RpcRequest_decode_cases[of False RpcRequest_default "cancel_wire c" "[]"])
  case (fail m)
  then show ?thesis by (simp add: request_id_of_def accepted_def)
next
  case (ok r)
  then show ?thesis
    using head_ok_type[of kRequest "request_wire r" kCancel] head_ok_wire[of kRequest "rq_requestId r"]
      head_ok_wire[of kCancel "cn_requestId c" "[]"]
    by (auto simp: request_wire_def cancel_wire_def)
qed

text \<open>The attempts left for a request, if it is pending; and the ids of the calls in the queue.\<close>

definition allowance :: "('c, 'k) client \<Rightarrow> u64 \<Rightarrow> nat option" where
  "allowance cl rid = map_option (\<lambda>p. unat (pr_remainingResends p)) (m_find (cl_pendingRequests cl) rid)"

definition queued_ids :: "('c, 'k) client \<Rightarrow> u64 set" where
  "queued_ids cl = fst ` set (concat (map functor_call (cl_queue cl)))"

abbreviation left :: "nat option \<Rightarrow> nat" where
  "left n \<equiv> case n of None \<Rightarrow> 0 | Some n \<Rightarrow> n"

text \<open>What the client holds of a request: its service, method and payload, in a queued call or in the
  pending entry. An operation is faithful to it when it makes nothing up: what it sends and what it holds
  afterwards was held before.\<close>

definition call_request :: "'k call_args \<Rightarrow> RpcRequest" where
  "call_request a = \<lparr>rq_requestId = ca_requestId a, rq_service = ca_service a, rq_method = ca_method a,
     rq_payload = ca_payload a\<rparr>"

definition holds_request :: "u64 \<Rightarrow> ('c, 'k) client \<Rightarrow> RpcRequest \<Rightarrow> bool" where
  "holds_request rid cl rq \<longleftrightarrow>
     (\<exists>p. m_find (cl_pendingRequests cl) rid = Some p \<and> rq = pending_request rid p) \<or>
     (\<exists>a. CallFunctor a \<in> set (cl_queue cl) \<and> ca_requestId a = rid \<and> rq = call_request a)"

definition faithful :: "u64 \<Rightarrow> ('c, 'k) client \<Rightarrow> ('c, 'k) effect list \<Rightarrow> ('c, 'k) client \<Rightarrow> bool" where
  "faithful rid cl effs cl' \<longleftrightarrow>
     (\<forall>rq. holds_request rid cl' rq \<longrightarrow> holds_request rid cl rq) \<and>
     (\<forall>conn bs. Send conn bs \<in> set effs \<longrightarrow> request_id_of bs = Some rid \<longrightarrow>
        (\<exists>rq. holds_request rid cl rq \<and> bs = request_wire rq \<and> request_valid rq))"

lemma sends_of_0: "sends_of rid effs = 0 \<Longrightarrow> Send conn bs \<in> set effs \<Longrightarrow> request_id_of bs \<noteq> Some rid"
  by (auto simp: sends_of_def filter_empty_conv)

lemma faithful_more:
  "faithful rid cl effs cl' \<Longrightarrow> (\<And>rq. holds_request rid cl rq \<Longrightarrow> holds_request rid cl0 rq) \<Longrightarrow> faithful rid cl0 effs cl'"
  unfolding faithful_def by meson

lemma faithful_silent:
  assumes "sends_of rid effs = 0" and "cl_queue cl' = cl_queue cl"
    and "\<And>p'. m_find (cl_pendingRequests cl') rid = Some p' \<Longrightarrow>
      \<exists>p. m_find (cl_pendingRequests cl) rid = Some p \<and> pending_request rid p' = pending_request rid p"
  shows "faithful rid cl effs cl'"
  using assms sends_of_0[OF assms(1)] unfolding faithful_def holds_request_def by fastforce

text \<open>An operation spends attempts for what it sends and adds none, is faithful to the request, and does not
  queue the call.\<close>

definition spends :: "u64 \<Rightarrow> ('c, 'k) client \<Rightarrow> ('c, 'k) outcome \<Rightarrow> bool" where
  "spends rid cl r \<longleftrightarrow> (case r of (effs, tasks, cl') \<Rightarrow>
     sends_of rid effs + left (allowance cl' rid) \<le> left (allowance cl rid) \<and> faithful rid cl effs cl' \<and>
     (rid \<in> queued_ids cl' \<longrightarrow> rid \<in> queued_ids cl))"

lemma spends_frame:
  assumes "cl_pendingRequests cl' = cl_pendingRequests cl" "cl_queue cl' = cl_queue cl" "sends_of rid effs = 0"
  shows "spends rid cl (effs, tasks, cl')"
proof -
  have "faithful rid cl effs cl'" using assms by (intro faithful_silent) simp_all
  then show ?thesis using assms by (simp add: spends_def allowance_def queued_ids_def)
qed

lemma spends_none:
  assumes "cl_pendingRequests cl' = []" "cl_queue cl' = cl_queue cl" "sends_of rid effs = 0"
  shows "spends rid cl (effs, tasks, cl')"
proof -
  have "faithful rid cl effs cl'" using assms by (intro faithful_silent) simp_all
  then show ?thesis using assms by (simp add: spends_def allowance_def queued_ids_def)
qed

lemma spends_erase:
  assumes "cl_pendingRequests cl' = m_erase k (cl_pendingRequests cl)" "cl_queue cl' = cl_queue cl" "sends_of rid effs = 0"
  shows "spends rid cl (effs, tasks, cl')"
proof -
  have "faithful rid cl effs cl'" using assms by (intro faithful_silent) (auto simp: umap_simps split: if_splits)
  then show ?thesis using assms by (simp add: spends_def allowance_def queued_ids_def umap_simps)
qed

lemma spends_put:
  assumes "cl_pendingRequests cl' = m_put k p' (cl_pendingRequests cl)" "cl_queue cl' = cl_queue cl"
    and "m_find (cl_pendingRequests cl) k = Some p" "pending_request k p' = pending_request k p"
    and "k = rid \<Longrightarrow> sends_of rid effs + unat (pr_remainingResends p') \<le> unat (pr_remainingResends p)"
    and "\<And>conn bs. Send conn bs \<in> set effs \<Longrightarrow> bs = request_wire (pending_request k p) \<and> request_valid (pending_request k p)"
    and "k \<noteq> rid \<Longrightarrow> sends_of rid effs = 0"
  shows "spends rid cl (effs, tasks, cl')"
proof (cases "k = rid")
  case True
  have "holds_request rid cl' rq \<Longrightarrow> holds_request rid cl rq" for rq
    using assms(1-4) True by (auto simp: holds_request_def umap_simps)
  moreover have "holds_request rid cl (pending_request rid p)"
    using assms(3) True by (simp add: holds_request_def)
  ultimately have "faithful rid cl effs cl'" using assms(6) True unfolding faithful_def by blast
  with assms True show ?thesis by (simp add: spends_def allowance_def queued_ids_def umap_simps)
next
  case False
  then have "faithful rid cl effs cl'" using assms by (intro faithful_silent) (simp_all add: umap_simps)
  with assms False show ?thesis by (simp add: spends_def allowance_def queued_ids_def umap_simps)
qed

lemma sends_sendCancel [simp]: "sends_of rid (sendCancel le up k cl) = 0"
  by (simp add: sendCancel_def RpcCancel_encode_eq request_id_of_cancel split: option.split)

lemma spends_cancelInLoop: "spends rid cl (cancelInLoop le up now k cl)"
proof (cases "m_find (cl_pendingRequests cl) k")
  case None
  then show ?thesis by (simp add: cancelInLoop_def spends_frame)
next
  case (Some p)
  then show ?thesis
    by (auto simp: cancelInLoop_def Let_def block_defs intro!: spends_erase[where k = k])
qed

lemma spends_onRpcMessage: "spends rid cl (client_onRpcMessage le kMax conn msg cl)"
proof (cases "\<exists>r. takes_response kMax cl r \<and> msg = response_wire r")
  case False
  then have "client_onRpcMessage le kMax conn msg cl = ([CloseConn conn], [], cl)"
    by (intro onRpcMessage_malformed) blast
  then show ?thesis by (simp add: spends_frame)
next
  case True
  then obtain r where r: "takes_response kMax cl r" "msg = response_wire r" by blast
  show ?thesis
  proof (cases "m_find (cl_pendingRequests cl) (rs_requestId r)")
    case None
    then show ?thesis unfolding r(2) onRpcMessage_response[OF r(1)] by (simp add: spends_frame)
  next
    case (Some p)
    then show ?thesis
      unfolding r(2) onRpcMessage_response[OF r(1)]
      by (simp add: spends_erase[where k = "rs_requestId r"] block_defs)
  qed
qed

text \<open>Timers: a reconnect timeout takes one attempt without sending.\<close>

lemma spends_fire_timer:
  assumes ok: "client_ok kMax cl"
  shows "spends rid cl (fire_timer le up now t cl)"
proof (cases "m_find (cl_timers cl) t")
  case None
  then show ?thesis by (simp add: fire_timer_def spends_frame)
next
  case (Some e)
  obtain task d where e: "e = (task, d)" by fastforce
  show ?thesis
  proof (cases task)
    case (OnRequestTimeout k)
    with Some e show ?thesis
      by (auto simp: fire_timer_def onRequestTimeout_def Let_def block_defs spends_frame
          intro!: spends_erase[where k = k] split: option.split)
  next
    case (OnReconnectTimeout k)
    have fewer: "unat (pr_remainingResends p - 1) \<le> unat (pr_remainingResends p)"
      if "m_find (cl_pendingRequests cl) k = Some p" "pr_phase p = kWaitingReconnect" for p
      using client_ok_clauses(3)[OF ok that(1)] that(2) by (simp add: entry_fits_def dec_resends)
    have "fire_timer le up now t cl = onReconnectTimeout k (cancel_timer (Some t) cl)"
      using Some e OnReconnectTimeout by (simp add: fire_timer_def)
    moreover have "spends rid cl (onReconnectTimeout k (cancel_timer (Some t) cl))"
    proof (cases "\<exists>p. m_find (cl_pendingRequests cl) k = Some p \<and> pr_phase p = kWaitingReconnect")
      case True
      then obtain p where p: "m_find (cl_pendingRequests cl) k = Some p" "pr_phase p = kWaitingReconnect" by blast
      show ?thesis
      proof (cases "pr_remainingResends p - 1 = 0")
        case True
        with p show ?thesis
          by (simp add: onReconnectTimeout_def Let_def block_defs spends_erase[where k = k])
      next
        case False
        with p fewer[OF p] show ?thesis
          by (auto simp: onReconnectTimeout_def Let_def block_defs pending_request_def
              intro!: spends_put[where k = k and p = p])
      qed
    qed (auto simp: onReconnectTimeout_def cancel_timer_eq spends_frame split: option.split)
    ultimately show ?thesis by simp
  next
    case OnClearExpired
    with Some e show ?thesis
      by (simp add: fire_timer_def clearExpiredIgnoredResponseRequests_def spends_frame)
  qed
qed

text \<open>Failing requests, and the connection callbacks built on it.\<close>

lemma spends_around:
  assumes "spends rid cl' (effs, tasks, new)" and "cl_pendingRequests cl' = cl_pendingRequests cl" "cl_queue cl' = cl_queue cl"
    and "sends_of rid effs' = 0"
  shows "spends rid cl (effs' @ effs, tasks', new)"
proof -
  have "holds_request rid cl' = holds_request rid cl" using assms(2,3) by (simp add: holds_request_def fun_eq_iff)
  then have "faithful rid cl (effs' @ effs) new"
    using assms(1) sends_of_0[OF assms(4)] by (auto simp: spends_def faithful_def)
  then show ?thesis using assms by (simp add: spends_def allowance_def queued_ids_def)
qed

lemma spends_failAll: "spends rid cl (failAllPendingRequests ec msg cl)"
  by (simp add: failAllPendingRequests_def Let_def fold_cancel_timer spends_none)

lemma change_phase_queue: "cl_queue (fold change_phase ids cl) = cl_queue cl"
  by (induction ids arbitrary: cl) (simp_all add: change_phase_def block_defs split: option.split)

lemma collect_failed_queue: "cl_queue (snd (fold collect_failed ids s)) = cl_queue (snd s)"
  by (induction ids arbitrary: s) (simp_all add: collect_failed_def block_defs split: option.split prod.split)

lemma collect_failed_result: "fold collect_failed ids s = (cbs, cl') \<Longrightarrow> cl_queue cl' = cl_queue (snd s)"
  using collect_failed_queue[of ids s] by simp

lemma spends_failAllDis:
  assumes ok: "client_ok kMax cl"
  shows "spends rid cl (failAllDisreconnectRequests ec msg cl)"
proof -
  obtain effs tasks cl' where r: "failAllDisreconnectRequests ec msg cl = (effs, tasks, cl')" by (metis prod_cases3)
  then have "effs = []" by (auto simp: failAllDisreconnectRequests_def Let_def split: prod.splits)
  moreover have "cl_queue cl' = cl_queue cl"
    using r by (auto simp: failAllDisreconnectRequests_def Let_def change_phase_queue
        split: prod.splits dest: collect_failed_result)
  moreover have "left (allowance cl' rid) \<le> left (allowance cl rid) \<and> (\<forall>p'. m_find (cl_pendingRequests cl') rid = Some p' \<longrightarrow>
      (\<exists>p. m_find (cl_pendingRequests cl) rid = Some p \<and> pending_request rid p' = pending_request rid p))"
  proof (cases "m_find (cl_pendingRequests cl) rid")
    case None
    with failAllDis_find_None[OF r] show ?thesis by (simp add: allowance_def)
  next
    case (Some p)
    from failAllDis_find[OF ok r this] Some show ?thesis
      by (fastforce simp: allowance_def pending_request_def split: if_splits)
  qed
  ultimately show ?thesis by (simp add: r spends_def queued_ids_def faithful_silent)
qed

lemma spends_onConnection:
  assumes ok: "client_ok kMax cl"
  shows "spends rid cl (onConnection up conn cl)"
proof (cases "up conn")
  case True
  then show ?thesis by (simp add: onConnection_def spends_frame)
next
  case False
  let ?cl = "cl\<lparr>cl_status := kDisconnected, cl_conn := None\<rparr>"
  let ?r = "if cl_manualDisconnection ?cl then failAllPendingRequests CONNECTION_CLOSED ''connect closed'' ?cl
    else failAllDisreconnectRequests CONNECTION_CLOSED ''connect closed'' ?cl"
  obtain effs tasks new where r: "?r = (effs, tasks, new)" by (metis prod_cases3)
  have "client_ok kMax ?cl" using client_ok_conn(1)[of kMax "cl\<lparr>cl_status := kDisconnected\<rparr>"] ok by simp
  then have "spends rid ?cl ?r" by (simp add: spends_failAll spends_failAllDis)
  then have "spends rid cl ([] @ effs, tasks', new)" for tasks'
    unfolding r by (rule spends_around) simp_all
  then show ?thesis using False r by (simp add: onConnection_def Let_def del: if_split)
qed

lemma spends_onConnectionError:
  assumes ok: "client_ok kMax cl"
  shows "spends rid cl (onConnectionError e cl)"
proof -
  let ?cl = "cl\<lparr>cl_conn := None, cl_status := kDisconnected\<rparr>"
  let ?r = "failAllDisreconnectRequests CONNECTION_UNAVAILABLE ''connection error'' ?cl"
  obtain effs tasks new where r: "?r = (effs, tasks, new)" by (metis prod_cases3)
  have "client_ok kMax ?cl" using client_ok_conn(1)[of kMax cl] ok by simp
  then have "spends rid ?cl ?r" by (rule spends_failAllDis)
  then have "spends rid cl ([] @ effs, tasks', new)" for tasks'
    unfolding r by (rule spends_around) simp_all
  then show ?thesis using r by (simp add: onConnectionError_def Let_def)
qed

lemma spends_connect: "spends rid cl (client_connect cl)"
  by (simp add: client_connect_def spends_frame)

lemma spends_disconnect: "spends rid cl (client_disconnect cl)"
  by (simp add: client_disconnect_def failAllPendingRequests_def Let_def fold_cancel_timer spends_none spends_frame)

lemma spends_setters:
  "setConnectionCallback b cl = Some cl' \<Longrightarrow> spends rid cl ([], [], cl')"
  "setConnectionErrorCallback b cl = Some cl' \<Longrightarrow> spends rid cl ([], [], cl')"
  "setMaxPendingRequests n cl = Some cl' \<Longrightarrow> spends rid cl ([], [], cl')"
  "setDefaultTimeout d cl = Some cl' \<Longrightarrow> spends rid cl ([], [], cl')"
  "setDefaultReconnectTimeout d cl = Some cl' \<Longrightarrow> spends rid cl ([], [], cl')"
  "setDefaultResendLimit w cl = Some cl' \<Longrightarrow> spends rid cl ([], [], cl')"
  "client_setMaxMessageSize kMax n cl = Some cl' \<Longrightarrow> spends rid cl ([], [], cl')"
  "setAllowReconnect b cl = Some cl' \<Longrightarrow> spends rid cl ([], [], cl')"
  "spends rid cl (enableRetry cl)" "spends rid cl (disableRetry cl)"
  by (auto simp: setter_defs enableRetry_def disableRetry_def split: if_splits intro: spends_frame)

text \<open>A retransmission takes one attempt.\<close>

lemma spends_resend_one:
  assumes ok: "client_ok kMax cl"
  shows "spends rid cl (resend_one le up conn item items cl)"
proof (cases "\<exists>p. m_find (cl_pendingRequests cl) item = Some p \<and> pr_phase p = kWaitingReconnect")
  case False
  then show ?thesis
    by (auto simp: resend_one_def split: option.split intro!: spends_frame)
next
  case True
  then obtain p where p: "m_find (cl_pendingRequests cl) item = Some p" "pr_phase p = kWaitingReconnect" by blast
  then have valid: "request_valid (pending_request item p)" and some: "pr_remainingResends p \<noteq> 0"
    using client_ok_clauses(3)[OF ok p(1)] by (simp_all add: entry_fits_def)
  have id: "request_id_of (request_wire (pending_request item p)) = Some item"
    using request_id_of_wire[OF valid] by (simp add: pending_request_def)
  have less: "Suc (unat (pr_remainingResends p - 1)) \<le> unat (pr_remainingResends p)"
    using some by (simp add: dec_resends Suc_le_eq unat_gt_0)
  have enc: "RpcRequest_encode le \<lparr>rq_requestId = item, rq_service = pr_serviceName p,
      rq_method = pr_methodName p, rq_payload = pr_payload p\<rparr> [] [] =
      Some (True, request_wire (pending_request item p), [])"
    using valid by (simp add: RpcRequest_encode_eq pending_request_def)
  show ?thesis
  proof (cases "cl_conn cl = Some conn \<and> cl_status cl = kConnected \<and> up conn")
    case True
    with p id less valid show ?thesis
      by (auto simp: resend_one_def enc Let_def block_defs pending_request_def
          intro!: spends_put[where k = item and p = p])
  qed (auto simp: resend_one_def intro!: spends_frame)
qed

lemma spends_run_task: "client_ok kMax cl \<Longrightarrow> spends rid cl (run_task le up t cl)"
proof (cases t)
  case (ResendLoop conn items)
  assume "client_ok kMax cl"
  with ResendLoop show ?thesis by (cases items) (simp_all add: spends_resend_one spends_frame)
qed (simp_all add: spends_frame clearIgnoredResponseRequests_def)

subsection \<open>A call starts with the attempts it was given\<close>

lemma add_request_frame:
  "m_find (cl_pendingRequests (add_request k p cl)) rid =
     (if rid = k then Some (if pr_requestTimeout p > 0 then p\<lparr>pr_timerId := Some (cl_nextTimer cl)\<rparr> else p)
      else m_find (cl_pendingRequests cl) rid)"
  "cl_queue (add_request k p cl) = cl_queue cl"
  by (auto simp: add_request_def block_defs umap_simps)

lemma callInLoop_sends:
  assumes "callInLoop le kMax up a cl = (effs, tasks, cl')"
  shows "ca_requestId a \<noteq> rid \<Longrightarrow> spends rid cl (effs, tasks, cl')"
    and "cl_queue cl' = cl_queue cl"
    and "m_find (cl_pendingRequests cl) (ca_requestId a) = None \<Longrightarrow>
      sends_of (ca_requestId a) effs + left (allowance cl' (ca_requestId a)) \<le>
        1 + unat (case ca_resendLimit a of None \<Rightarrow> cl_defaultResendLimit cl | Some n \<Rightarrow> n)"
    and "holds_request (ca_requestId a) cl' rq \<Longrightarrow> holds_request (ca_requestId a) cl rq \<or> rq = call_request a"
    and "Send conn bs \<in> set effs \<Longrightarrow> bs = request_wire (call_request a) \<and> request_valid (call_request a)"
proof -
  let ?id = "ca_requestId a" and ?p = "accepted_request a cl"
  have limit: "pr_remainingResends ?p = (case ca_resendLimit a of None \<Rightarrow> cl_defaultResendLimit cl | Some n \<Rightarrow> n)"
    by (simp add: accepted_request_def Let_def)
  have content: "pending_request ?id ?p = call_request a" by (simp add: call_request_def)
  have "(?id \<noteq> rid \<longrightarrow> spends rid cl (effs, tasks, cl')) \<and> cl_queue cl' = cl_queue cl \<and>
    (m_find (cl_pendingRequests cl) ?id = None \<longrightarrow>
      sends_of ?id effs + left (allowance cl' ?id) \<le> 1 + unat (pr_remainingResends ?p)) \<and>
    (holds_request ?id cl' rq \<longrightarrow> holds_request ?id cl rq \<or> rq = call_request a) \<and>
    (Send conn bs \<in> set effs \<longrightarrow> bs = request_wire (call_request a) \<and> request_valid (call_request a))"
  proof (cases "call_accepted kMax up a cl")
    case True
    then obtain conn' where valid: "request_valid (call_request a)"
      and res: "callInLoop le kMax up a cl = ([Send conn' (request_wire (call_request a))], [], add_request ?id ?p cl)"
      unfolding content[symmetric] by (rule callInLoop_accepted)
    have id: "request_id_of (request_wire (call_request a)) = Some ?id"
      using request_id_of_wire[OF valid] by (simp add: call_request_def)
    have "faithful rid cl [Send conn' (request_wire (call_request a))] (add_request ?id ?p cl)" if "?id \<noteq> rid"
      using that id by (intro faithful_silent) (simp_all add: add_request_frame)
    moreover have "holds_request ?id (add_request ?id ?p cl) rq \<Longrightarrow> holds_request ?id cl rq \<or> rq = call_request a"
      using content by (auto simp: holds_request_def add_request_frame pending_request_def split: if_splits)
    moreover have "queued_ids (add_request ?id ?p cl) = queued_ids cl"
      by (simp add: queued_ids_def add_request_frame)
    ultimately show ?thesis
      using assms id valid unfolding res by (auto simp: spends_def allowance_def add_request_frame)
  next
    case False
    then obtain ec msg where "callInLoop le kMax up a cl = refuse_call (ca_callback a) ?id ec msg cl"
      using callInLoop_refused by blast
    then show ?thesis using assms by (auto simp: refuse_call_def spends_frame allowance_def)
  qed
  then show "?id \<noteq> rid \<Longrightarrow> spends rid cl (effs, tasks, cl')" "cl_queue cl' = cl_queue cl"
    "m_find (cl_pendingRequests cl) ?id = None \<Longrightarrow> sends_of ?id effs + left (allowance cl' ?id) \<le>
        1 + unat (case ca_resendLimit a of None \<Rightarrow> cl_defaultResendLimit cl | Some n \<Rightarrow> n)"
    "holds_request ?id cl' rq \<Longrightarrow> holds_request ?id cl rq \<or> rq = call_request a"
    "Send conn bs \<in> set effs \<Longrightarrow> bs = request_wire (call_request a) \<and> request_valid (call_request a)"
    unfolding limit by blast+
qed

lemma queued_ids_Cons:
  "cl_queue cl = f # fs \<Longrightarrow> queued_ids cl = fst ` set (functor_call f) \<union> queued_ids (cl\<lparr>cl_queue := fs\<rparr>)"
  by (auto simp: queued_ids_def)

text \<open>A public call sends nothing for other requests, and for its own request what it was called with.\<close>

lemma client_call_sends:
  assumes call: "client_call le kMax up inLoop a cl = Some (k, effs, tasks, cl')"
  shows "k = cl_nextRequestId cl"
    and "rid \<noteq> k \<Longrightarrow> spends rid cl (effs, tasks, cl')"
    and "queued_ids cl' = (if inLoop then queued_ids cl else insert k (queued_ids cl))"
    and "\<not> inLoop \<Longrightarrow> sends_of rid effs = 0"
    and "m_find (cl_pendingRequests cl) k = None \<Longrightarrow> inLoop \<Longrightarrow> sends_of k effs + left (allowance cl' k) \<le>
        1 + unat (case ca_resendLimit a of None \<Rightarrow> cl_defaultResendLimit cl | Some n \<Rightarrow> n)"
    and "holds_request k cl' rq \<Longrightarrow> holds_request k cl rq \<or> rq = call_request (a\<lparr>ca_requestId := k\<rparr>)"
    and "Send conn bs \<in> set effs \<Longrightarrow>
      bs = request_wire (call_request (a\<lparr>ca_requestId := k\<rparr>)) \<and> request_valid (call_request (a\<lparr>ca_requestId := k\<rparr>))"
proof -
  let ?k = "cl_nextRequestId cl"
  let ?cl = "cl\<lparr>cl_nextRequestId := ?k + 1\<rparr>" and ?a = "a\<lparr>ca_requestId := ?k\<rparr>"
  let ?queued = "?cl\<lparr>cl_queue := cl_queue cl @ [CallFunctor ?a]\<rparr>"
  show k: "k = ?k" using call by (auto simp: client_call_def Let_def split: if_splits prod.splits)
  obtain effs' tasks' new where run: "callInLoop le kMax up ?a ?cl = (effs', tasks', new)" by (metis prod_cases3)
  have out: "effs = Issued ?k (ca_callback a) # (if inLoop then effs' else [])"
    "cl' = (if inLoop then new else ?queued)"
    using call run by (auto simp: client_call_def Let_def split: if_splits)
  note in_loop = callInLoop_sends[OF run]
  have same: "allowance ?cl rid = allowance cl rid" "holds_request rid ?cl = holds_request rid cl" for rid
    by (simp_all add: allowance_def holds_request_def fun_eq_iff)
  have ids: "queued_ids ?cl = queued_ids cl" "queued_ids ?queued = insert ?k (queued_ids cl)"
    by (simp_all add: queued_ids_def)
  show "queued_ids cl' = (if inLoop then queued_ids cl else insert k (queued_ids cl))"
    using in_loop(2) ids by (simp add: out k queued_ids_def)
  show "spends rid cl (effs, tasks, cl')" if rid: "rid \<noteq> k"
  proof (cases inLoop)
    case True
    then show ?thesis
      using in_loop(1)[of rid] rid by (auto simp: out k spends_def same faithful_def ids)
  next
    case False
    have "holds_request rid ?queued rq \<Longrightarrow> holds_request rid cl rq" for rq
      using rid by (auto simp: holds_request_def k)
    then show ?thesis
      using rid False by (simp add: out k spends_def ids faithful_def) (simp add: allowance_def)
  qed
  show "\<not> inLoop \<Longrightarrow> sends_of rid effs = 0" by (simp add: out)
  show "m_find (cl_pendingRequests cl) k = None \<Longrightarrow> inLoop \<Longrightarrow> sends_of k effs + left (allowance cl' k) \<le>
      1 + unat (case ca_resendLimit a of None \<Rightarrow> cl_defaultResendLimit cl | Some n \<Rightarrow> n)"
    using in_loop(3) by (simp add: out k cong: option.case_cong)
  show "holds_request k cl rq \<or> rq = call_request (a\<lparr>ca_requestId := k\<rparr>)" if "holds_request k cl' rq"
  proof (cases inLoop)
    case True
    then show ?thesis using in_loop(4)[of rq] that by (simp add: out k same)
  next
    case False
    then show ?thesis using that by (auto simp: out k holds_request_def)
  qed
  show "Send conn bs \<in> set effs \<Longrightarrow>
      bs = request_wire (call_request (a\<lparr>ca_requestId := k\<rparr>)) \<and> request_valid (call_request (a\<lparr>ca_requestId := k\<rparr>))"
    using in_loop(5)[of conn bs] by (auto simp: out k split: if_splits)
qed

subsection \<open>One step of a run\<close>

lemma queued_idE:
  assumes "rid \<in> queued_ids cl"
  obtains cb where "(rid, cb) \<in># calls_of functor_call (cl_queue cl)"
proof -
  obtain c where "c \<in> set (concat (map functor_call (cl_queue cl)))" "rid = fst c"
    using assms unfolding queued_ids_def by (rule imageE)
  then show thesis by (intro that[of "snd c"]) (simp add: calls_of_def del: set_concat)
qed

lemma queued_id_issued:
  assumes "flow_ok (cl, stack, log)" and "rid \<in> queued_ids cl"
  shows "rid \<in> issued_ids log"
proof -
  obtain cb where "(rid, cb) \<in># calls_of functor_call (cl_queue cl)" using assms(2) by (rule queued_idE)
  then have "(rid, cb) \<in># mset (issued log)"
    using assms(1) by (simp add: flow_ok_def held_calls_def)
  then show ?thesis by force
qed

lemma queued_id_once:
  assumes "ids_ok nxt log" "below_wrap log" "flow_ok (cl, stack, log)" "cl_queue cl = CallFunctor a # fs"
  shows "ca_requestId a \<notin> queued_ids (cl\<lparr>cl_queue := fs\<rparr>)"
proof
  assume "ca_requestId a \<in> queued_ids (cl\<lparr>cl_queue := fs\<rparr>)"
  then obtain cb where "(ca_requestId a, cb) \<in># calls_of functor_call (cl_queue (cl\<lparr>cl_queue := fs\<rparr>))"
    by (rule queued_idE)
  then have "{#(ca_requestId a, ca_callback a)#} + {#(ca_requestId a, cb)#} \<subseteq># held_calls cl"
    unfolding held_calls_def assms(4) by (simp add: subset_mset.add_increasing2)
  then show False by (rule held_once[OF assms(1-3)])
qed

text \<open>What a step may send for a request: either within the attempts it has left, or the step makes the
  call, which was not issued before or was in the queue.\<close>

definition makes_call ::
  "u64 \<Rightarrow> ('c, 'k) client \<Rightarrow> ('c, 'k) effect list \<Rightarrow> ('c, 'k) effect list \<Rightarrow> ('c, 'k) client \<Rightarrow> bool" where
  "makes_call rid cl log effs cl' \<longleftrightarrow>
     (rid \<notin> issued_ids log \<or> rid \<in> queued_ids cl \<and> faithful rid cl effs cl') \<and>
     (sends_of rid effs = 0 \<or> rid \<in> issued_ids (log @ effs) \<and> rid \<notin> queued_ids cl')"

lemma makes_call_call:
  assumes inv: "client_inv kMax (cl, stack, log)" and wrap: "below_wrap (log @ effs)"
    and call: "client_call le kMax up inLoop a cl = Some (k, effs, tasks, cl')"
  shows "spends rid cl (effs, tasks, cl') \<or> makes_call rid cl log effs cl'"
proof -
  obtain effs' where effs: "effs = Issued k (ca_callback a) # effs'"
    using call by (auto simp: client_call_def Let_def split: if_splits prod.splits)
  then have n: "length (issued log) + 1 < 2 ^ 64" and "below_wrap log"
    using wrap by (auto simp: below_wrap_def)
  then have parts: "ids_ok (cl_nextRequestId cl) log" "flow_ok (cl, stack, log)"
    using inv by (auto simp: client_inv_def)
  note sends = client_call_sends[OF call]
  have new: "k \<notin> issued_ids log" using next_id_unissued[OF parts(1) n] sends(1) by simp
  then have "k \<notin> queued_ids cl" using queued_id_issued[OF parts(2)] by blast
  show ?thesis
  proof (cases "rid = k")
    case True
    with new sends(3) sends(4)[of rid] \<open>k \<notin> queued_ids cl\<close> effs show ?thesis
      by (cases inLoop) (simp_all add: makes_call_def)
  next
    case False
    then show ?thesis using sends(2) by blast
  qed
qed

lemma step_api_sends:
  assumes "client_api le kMax cl (effs, tasks, cl')" and "client_inv kMax (cl, stack, log)" "below_wrap (log @ effs)"
  shows "spends rid cl (effs, tasks, cl') \<or> makes_call rid cl log effs cl'"
  using assms(1)
proof (cases rule: client_api.cases)
  case (api_call up a k)
  then show ?thesis using makes_call_call[OF assms(2,3)] by blast
next
  case (api_cancel up now k)
  then show ?thesis using spends_cancelInLoop by (metis client_cancel_def)
next
  case api_connect
  then show ?thesis using spends_connect by metis
next
  case api_disconnect
  then show ?thesis using spends_disconnect by metis
qed (use spends_setters in \<open>metis+\<close>)

lemma step_event_sends:
  assumes "client_event M le kMax cl (effs, tasks, cl')" and inv: "client_inv kMax (cl, stack, log)" and wrap: "below_wrap log"
  shows "spends rid cl (effs, tasks, cl') \<or> makes_call rid cl log effs cl'"
proof -
  have ok: "client_ok kMax cl" and parts: "ids_ok (cl_nextRequestId cl) log" "flow_ok (cl, stack, log)"
    using inv wrap by (simp_all add: client_inv_def)
  from assms(1) show ?thesis
  proof (cases rule: client_event.cases)
    case (ev_functor f fs up now)
    let ?cl = "cl\<lparr>cl_queue := fs\<rparr>"
    have same: "allowance ?cl rid = allowance cl rid" by (simp add: allowance_def)
    have more: "holds_request k ?cl rq \<Longrightarrow> holds_request k cl rq" for k rq
      using ev_functor(2) by (auto simp: holds_request_def)
    have later: "spends rid ?cl (effs, tasks, cl') \<Longrightarrow> spends rid cl (effs, tasks, cl')"
      using queued_ids_Cons[OF ev_functor(2)] faithful_more[OF _ more] by (auto simp: spends_def same)
    show ?thesis
    proof (cases f)
      case (CancelFunctor k)
      with ev_functor have "spends rid ?cl (effs, tasks, cl')" using spends_cancelInLoop[of rid ?cl le up now k] by simp
      then show ?thesis using later by blast
    next
      case (CallFunctor a)
      with ev_functor have run: "callInLoop le kMax up a ?cl = (effs, tasks, cl')" by simp
      note sends = callInLoop_sends[OF run]
      have queue: "queued_ids cl = insert (ca_requestId a) (queued_ids ?cl)"
        using queued_ids_Cons[OF ev_functor(2)] CallFunctor by simp
      show ?thesis
      proof (cases "rid = ca_requestId a")
        case True
        then have unqueued: "rid \<notin> queued_ids cl'"
          using queued_id_once[OF parts(1) wrap parts(2)] ev_functor(2) CallFunctor sends(2)
          by (simp add: queued_ids_def)
        have "holds_request rid cl (call_request a)"
          using ev_functor(2) CallFunctor True by (auto simp: holds_request_def)
        then have "faithful rid cl effs cl'"
          using sends(4,5) more unfolding faithful_def True by blast
        moreover have "rid \<in> queued_ids cl" "rid \<in> issued_ids (log @ effs)"
          using queue True queued_id_issued[OF parts(2), of rid] by auto
        ultimately show ?thesis using unqueued by (simp add: makes_call_def)
      next
        case False
        then have "spends rid ?cl (effs, tasks, cl')" using sends(1) by simp
        then show ?thesis using later by blast
      qed
    qed
  next
    case (ev_connection up conn)
    then show ?thesis using spends_onConnection[OF ok] by simp
  next
    case (ev_error e)
    then show ?thesis using spends_onConnectionError[OF ok] by simp
  next
    case (ev_message conn msg)
    then show ?thesis using spends_onRpcMessage[of rid cl le kMax conn msg] by simp
  next
    case (ev_timer up now t)
    then show ?thesis using spends_fire_timer[OF ok] by simp
  qed
qed

lemma step_remote_sends:
  assumes "client_remote le kMax cl (effs, tasks, cl')" and "client_inv kMax (cl, stack, log)" "below_wrap (log @ effs)"
  shows "spends rid cl (effs, tasks, cl') \<or> makes_call rid cl log effs cl'"
  using assms(1)
proof (cases rule: client_remote.cases)
  case (rm_call up a k)
  then show ?thesis using makes_call_call[OF assms(2,3)] by blast
next
  case (rm_cancel up now k)
  moreover have "faithful rid cl [] (cl\<lparr>cl_queue := cl_queue cl @ [CancelFunctor k]\<rparr>)"
    by (simp add: faithful_def holds_request_def)
  ultimately show ?thesis by (simp add: client_cancel_def spends_def allowance_def queued_ids_def)
qed

lemma step_sends:
  assumes "client_step le kMax (cl, stack, log) (cl', stack', log')" and inv: "client_inv kMax (cl, stack, log)"
    and wrap: "below_wrap log'"
  shows "\<exists>effs. log' = log @ effs \<and> (spends rid cl (effs, [], cl') \<or>
    makes_call rid cl log effs cl')"
proof -
  have tasks: "spends rid cl (effs, tasks, new) = spends rid cl (effs, [], new)" for effs tasks new
    by (simp add: spends_def)
  have early: "below_wrap log" if "log' = log @ effs" for effs using wrap that by (simp add: below_wrap_def)
  from assms(1) show ?thesis
  proof (cases rule: client_step_from.cases)
    case (st_api effs tasks)
    then show ?thesis using step_api_sends[OF _ inv, of le effs tasks cl' rid] wrap tasks by auto
  next
    case (st_event effs)
    then show ?thesis using step_event_sends[OF _ inv early, of "\<lambda>_ _. True" le effs stack' cl' effs rid] tasks by auto
  next
    case (st_remote effs tasks)
    then show ?thesis using step_remote_sends[OF _ inv, of le effs tasks cl' rid] wrap tasks by auto
  next
    case (st_task t up effs tasks rest)
    have "client_ok kMax cl" using inv early[OF st_task(3)] by (simp add: client_inv_def)
    from spends_run_task[OF this, of rid le up t] show ?thesis using st_task tasks by auto
  next
    case st_return
    then show ?thesis by (auto simp: spends_frame)
  qed
qed

subsection \<open>Runs\<close>

lemma step_log: "client_step le kMax (cl, stack, log) (cl', stack', log') \<Longrightarrow> \<exists>effs. log' = log @ effs"
  by (cases rule: client_step_from.cases) auto

lemma step_below_wrap: "client_step le kMax (cl, stack, log) (cl', stack', log') \<Longrightarrow> below_wrap log' \<Longrightarrow> below_wrap log"
  using step_log by (fastforce simp: below_wrap_def)

lemma steps_below_wrap:
  "(client_step le kMax)\<^sup>*\<^sup>* c c' \<Longrightarrow> below_wrap (snd (snd c')) \<Longrightarrow> below_wrap (snd (snd c))"
proof (induction rule: converse_rtranclp_induct)
  case (step c d)
  then show ?case
    using step_below_wrap[of le kMax "fst c" "fst (snd c)" "snd (snd c)" "fst d" "fst (snd d)" "snd (snd d)"] by simp
qed

text \<open>A request that is not issued yet, or still in the queue, has not been sent.\<close>

definition sent_ok :: "('c, 'k) client_config \<Rightarrow> bool" where
  "sent_ok c \<longleftrightarrow> (case c of (cl, stack, log) \<Rightarrow> below_wrap log \<longrightarrow>
     (\<forall>rid. rid \<notin> issued_ids log \<or> rid \<in> queued_ids cl \<longrightarrow> sends_of rid log = 0))"

lemma sent_ok_step:
  assumes step: "client_step le kMax c c'" and inv: "client_inv kMax c" and ok: "sent_ok c"
  shows "sent_ok c'"
proof -
  obtain cl stack log cl' stack' log' where c: "c = (cl, stack, log)" "c' = (cl', stack', log')" by (metis prod_cases3)
  have "sends_of rid log' = 0" if wrap: "below_wrap log'" and rid: "rid \<notin> issued_ids log' \<or> rid \<in> queued_ids cl'" for rid
  proof -
    have early: "below_wrap log" using step_below_wrap step wrap unfolding c by blast
    then have parts: "ids_ok (cl_nextRequestId cl) log" "flow_ok (cl, stack, log)"
      using inv by (simp_all add: c client_inv_def)
    have unsent: "sends_of rid log = 0" if "rid \<notin> issued_ids log \<or> rid \<in> queued_ids cl"
      using ok early that by (simp add: sent_ok_def c)
    obtain effs where log': "log' = log @ effs" and "spends rid cl (effs, [], cl') \<or> makes_call rid cl log effs cl'"
      using step_sends[OF _ _ wrap, of le kMax cl stack log cl' stack' rid] step inv unfolding c by blast
    then show ?thesis
    proof (elim disjE)
      assume spends: "spends rid cl (effs, [], cl')"
      then have before: "rid \<notin> issued_ids log \<or> rid \<in> queued_ids cl"
        using rid by (auto simp: spends_def log')
      then have "m_find (cl_pendingRequests cl) rid = None"
        using pending_id_issued[OF parts(2)] queued_id_fresh[OF parts(1) early parts(2)]
        by (metis not_Some_eq queued_idE)
      then have "sends_of rid effs = 0" using spends by (simp add: spends_def allowance_def)
      then show ?thesis using unsent[OF before] by (simp add: log')
    next
      assume "makes_call rid cl log effs cl'"
      then have "rid \<notin> issued_ids log \<or> rid \<in> queued_ids cl"
        and "sends_of rid effs = 0 \<or> rid \<in> issued_ids log' \<and> rid \<notin> queued_ids cl'"
        by (auto simp: makes_call_def log')
      then show ?thesis using unsent rid by (auto simp: log')
    qed
  qed
  then show ?thesis by (simp add: sent_ok_def c)
qed

interpretation sends: invariant_system client_init "client_step le kMax" "\<lambda>c. client_inv kMax c \<and> sent_ok c" for le kMax
proof
  show "client_inv kMax c \<and> sent_ok c" if "client_init c" for c :: "('a, 'b) client_config"
    using that client_inv_init by (auto simp: client_init_def sent_ok_def)
qed (auto intro: client_inv_step sent_ok_step)

lemma reachable_sent_ok: "client_reachable le kMax c \<Longrightarrow> sent_ok c"
  unfolding client_reachable_def by (metis sends.inv_reachable client_init_def)

text \<open>A request that has been called is sent within its attempts from then on.\<close>

definition within :: "u64 \<Rightarrow> nat \<Rightarrow> ('c, 'k) client_config \<Rightarrow> bool" where
  "within rid n c \<longleftrightarrow> (case c of (cl, stack, log) \<Rightarrow>
     rid \<in> issued_ids log \<and> rid \<notin> queued_ids cl \<and> sends_of rid log + left (allowance cl rid) \<le> n)"

lemma within_step:
  assumes "client_step le kMax (cl, stack, log) (cl', stack', log')" and "client_inv kMax (cl, stack, log)"
    and "below_wrap log'" and "within rid n (cl, stack, log)"
  shows "within rid n (cl', stack', log')"
proof -
  obtain effs where "log' = log @ effs"
    and "spends rid cl (effs, [], cl') \<or> makes_call rid cl log effs cl'"
    using step_sends[OF assms(1-3), of rid] by blast
  then show ?thesis using assms(4) by (auto simp: within_def makes_call_def spends_def)
qed

text \<open>A request that has been called is sent as it was called.\<close>

definition carries :: "u64 \<Rightarrow> RpcRequest \<Rightarrow> ('c, 'k) client_config \<Rightarrow> bool" where
  "carries rid rq c \<longleftrightarrow> (case c of (cl, stack, log) \<Rightarrow>
     rid \<in> issued_ids log \<and> (\<forall>rq'. holds_request rid cl rq' \<longrightarrow> rq' = rq) \<and>
     (\<forall>conn bs. Send conn bs \<in> set log \<longrightarrow> request_id_of bs = Some rid \<longrightarrow> bs = request_wire rq \<and> request_valid rq))"

lemma carries_step:
  assumes "client_step le kMax (cl, stack, log) (cl', stack', log')" and "client_inv kMax (cl, stack, log)"
    and "below_wrap log'" and "carries rid rq (cl, stack, log)"
  shows "carries rid rq (cl', stack', log')"
proof -
  obtain effs where log': "log' = log @ effs"
    and "spends rid cl (effs, [], cl') \<or> makes_call rid cl log effs cl'"
    using step_sends[OF assms(1-3), of rid] by blast
  then have "faithful rid cl effs cl'" using assms(4) by (auto simp: carries_def makes_call_def spends_def)
  then have new: "holds_request rid cl' rq' \<Longrightarrow> rq' = rq"
    "Send conn bs \<in> set effs \<Longrightarrow> request_id_of bs = Some rid \<Longrightarrow> bs = request_wire rq \<and> request_valid rq" for rq' conn bs
    using assms(4) unfolding carries_def faithful_def by auto
  then show ?thesis using assms(4) by (auto simp: carries_def log')
qed

text \<open>What the steps keep, runs keep.\<close>

lemma run_keeps:
  assumes "(client_step le kMax)\<^sup>*\<^sup>* c c'" and "client_inv kMax c" and "below_wrap (snd (snd c'))" and "P c"
    and keep: "\<And>cl stack log cl' stack' log'. client_step le kMax (cl, stack, log) (cl', stack', log') \<Longrightarrow>
      client_inv kMax (cl, stack, log) \<Longrightarrow> below_wrap log' \<Longrightarrow> P (cl, stack, log) \<Longrightarrow> P (cl', stack', log')"
  shows "P c'"
  using assms(1-4)
proof (induction rule: converse_rtranclp_induct)
  case (step c d)
  obtain cl stack log cl' stack' log' where c: "c = (cl, stack, log)" "d = (cl', stack', log')" by (metis prod_cases3)
  have "below_wrap (snd (snd d))" using step.hyps(2) step.prems(2) by (rule steps_below_wrap)
  then show ?case
    using step client_inv_step[OF step.hyps(1)] keep[of cl stack log cl' stack' log'] by (simp add: c)
qed

lemma within_run:
  assumes "(client_step le kMax)\<^sup>*\<^sup>* c c'" and "client_inv kMax c" and "below_wrap (snd (snd c'))" and "within rid n c"
  shows "within rid n c'"
  using assms by (rule run_keeps) (rule within_step)

lemma carries_run:
  assumes "(client_step le kMax)\<^sup>*\<^sup>* c c'" and "client_inv kMax c" and "below_wrap (snd (snd c'))" and "carries rid rq c"
  shows "carries rid rq c'"
  using assms by (rule run_keeps) (rule carries_step)

lemma call_effects:
  "client_call le kMax up inLoop a cl = Some (rid, effs, tasks, cl1) \<Longrightarrow>
     \<exists>effs'. effs = Issued rid (ca_callback a) # effs'"
  by (auto simp: client_call_def Let_def split: if_splits prod.splits)

text \<open>The state right after a public call.\<close>

lemma called:
  assumes "client_reachable le kMax (cl, stack, log)"
    and "client_call le kMax up inLoop a cl = Some (rid, effs, tasks, cl1)" and "below_wrap (log @ effs)"
  shows "client_inv kMax (cl1, tasks @ stack, log @ effs)"
    and "carries rid (call_request (a\<lparr>ca_requestId := rid\<rparr>)) (cl1, tasks @ stack, log @ effs)"
    and "inLoop \<Longrightarrow> within rid (1 + unat (case ca_resendLimit a of None \<Rightarrow> cl_defaultResendLimit cl | Some n \<Rightarrow> n))
      (cl1, tasks @ stack, log @ effs)"
    and "rid \<notin> issued_ids log"
proof -
  have inv: "client_inv kMax (cl, stack, log)" using assms(1) by (rule client_reachable_inv)
  then show "client_inv kMax (cl1, tasks @ stack, log @ effs)" using assms(2) by (rule client_inv_call)
  obtain effs' where effs: "effs = Issued rid (ca_callback a) # effs'" using call_effects[OF assms(2)] by blast
  have n: "length (issued log) + 1 < 2 ^ 64" and wrap: "below_wrap log"
    using assms(3) by (auto simp: below_wrap_def effs)
  note parts = client_reachable_parts[OF assms(1) wrap] and sends = client_call_sends[OF assms(2)]
  show new: "rid \<notin> issued_ids log" using next_id_unissued[OF parts(2) n] sends(1) by simp
  then have unsent: "sends_of rid log = 0" using reachable_sent_ok[OF assms(1)] wrap by (simp add: sent_ok_def)
  have fresh: "m_find (cl_pendingRequests cl) rid = None" "rid \<notin> queued_ids cl"
    using next_id_fresh[OF parts(2,3) n] sends(1) queued_id_issued[OF parts(3), of rid] new by auto
  then have "\<not> holds_request rid cl rq" for rq
    by (force simp: holds_request_def queued_ids_def image_iff)
  then show "carries rid (call_request (a\<lparr>ca_requestId := rid\<rparr>)) (cl1, tasks @ stack, log @ effs)"
    using sends(6,7) sends_of_0[OF unsent] by (auto simp: carries_def effs)
  show "within rid (1 + unat (case ca_resendLimit a of None \<Rightarrow> cl_defaultResendLimit cl | Some n \<Rightarrow> n))
      (cl1, tasks @ stack, log @ effs)" if inLoop
    using sends(5)[OF fresh(1) that] sends(3) fresh(2) that unsent by (simp add: within_def effs)
qed

text \<open>C11: a request is sent at most once for every attempt it was given, plus the first time. However
  the run continues after a call in the thread of the loop, with any number of lost connections, reconnects,
  timeouts and calls of the client from its own callbacks, the frames of this request handed to the
  transport are at most one more than the resend limit of the call, or the default limit when the call names none.\<close>

theorem client_sends_bounded:
  assumes "client_reachable le kMax (cl, stack, log)"
    and "client_call le kMax up True a cl = Some (rid, effs, tasks, cl1)"
    and "(client_step le kMax)\<^sup>*\<^sup>* (cl1, tasks @ stack, log @ effs) (cl', stack', log')" and "below_wrap log'"
  shows "sends_of rid log' \<le> 1 + unat (case ca_resendLimit a of None \<Rightarrow> cl_defaultResendLimit cl | Some n \<Rightarrow> n)"
proof -
  have "below_wrap (log @ effs)" using steps_below_wrap[OF assms(3)] assms(4) by simp
  note now = called[OF assms(1,2) this]
  from within_run[OF assms(3) now(1) _ now(3)] assms(4) show ?thesis by (simp add: within_def)
qed

text \<open>The attempts of a pending request only go down. From any reachable state on, a pending
  request, whether called in the loop or from another thread, is sent at most as many more times as it has
  attempts left, and these stay below the bound set by the attempts it had: a retransmission and a reconnect
  timeout each use one.\<close>

theorem client_resend_bounded:
  assumes "client_reachable le kMax (cl, stack, log)" and "m_find (cl_pendingRequests cl) rid = Some p"
    and "(client_step le kMax)\<^sup>*\<^sup>* (cl, stack, log) (cl', stack', log')" and "below_wrap log'"
  shows "sends_of rid log' +
      (case m_find (cl_pendingRequests cl') rid of None \<Rightarrow> 0 | Some p' \<Rightarrow> unat (pr_remainingResends p'))
    \<le> sends_of rid log + unat (pr_remainingResends p)"
proof -
  have wrap: "below_wrap log" using steps_below_wrap[OF assms(3)] assms(4) by simp
  note parts = client_reachable_parts[OF assms(1) wrap]
  have "rid \<notin> queued_ids cl"
    using queued_id_fresh[OF parts(2) wrap parts(3)] assms(2) by (metis option.distinct(1) queued_idE)
  then have "within rid (sends_of rid log + unat (pr_remainingResends p)) (cl, stack, log)"
    using pending_id_issued[OF parts(3) assms(2)] assms(2) by (simp add: within_def allowance_def)
  from within_run[OF assms(3) client_reachable_inv[OF assms(1)] _ this] assms(4) show ?thesis
    by (simp add: within_def allowance_def split: option.splits)
qed

subsection \<open>A run that uses every attempt\<close>

text \<open>The call of the first request with two attempts; then the connection is lost and comes back twice.\<close>

abbreviation start_schedule :: "(nat, nat) client_ev list" where
  "start_schedule \<equiv> [C_connect, C_up 0, C_task, C_task]"

abbreviation lost_twice :: "(nat, nat) client_ev list" where
  "lost_twice \<equiv> [C_down 0, C_task, C_up 1, C_task, C_task, C_task, C_down 1, C_task, C_up 2, C_task, C_task, C_task]"

lemma lost_twice_run:
  "\<exists>cl cl1 cl2 :: (nat, nat) client. client_run True 67108864 start_schedule (RpcClient_new, [], []) = Some (cl, [], [TcpConnect]) \<and>
     client_call True 67108864 (\<lambda>_. True) True (call_of 7) cl = Some (1, [Issued 1 7, Send 0 (request_of 1)], [], cl1) \<and>
     client_run True 67108864 lost_twice (cl1, [], [TcpConnect, Issued 1 7, Send 0 (request_of 1)]) =
       Some (cl2, [], [TcpConnect, Issued 1 7, Send 0 (request_of 1), Send 1 (request_of 1), Send 2 (request_of 1)]) \<and>
     client_run True 67108864 (start_schedule @ [C_call (call_of 7)]) (RpcClient_new, [], []) =
       Some (cl1, [], [TcpConnect, Issued 1 7, Send 0 (request_of 1)]) \<and>
     m_find (cl_pendingRequests cl1) 1 = Some first_request"
  by (simp add: client_eval)

lemma request_id_of_1: "request_id_of (request_of 1) = Some 1"
  using request_id_of_wire[of "\<lparr>rq_requestId = 1, rq_service = ''S'', rq_method = ''m'', rq_payload = ''p''\<rparr>"]
  by (simp add: request_valid_def)

theorem client_sends_bounded_witness:
  "\<exists>(cl :: (nat, nat) client) cl1 cl2 effs log.
     client_call True 67108864 (\<lambda>_. True) True (call_of 7) cl = Some (1, effs, [], cl1) \<and>
     (client_step True 67108864)\<^sup>*\<^sup>* (cl1, [], [TcpConnect] @ effs) (cl2, [], log) \<and>
     sends_of 1 log = 3 \<and> sends_of 1 log \<le> 1 + unat (2 :: u8)"
proof -
  let ?effs = "[Issued 1 7, Send 0 (request_of 1)] :: (nat, nat) effect list"
  let ?log = "[TcpConnect, Issued 1 7, Send 0 (request_of 1), Send 1 (request_of 1), Send 2 (request_of 1)] :: (nat, nat) effect list"
  obtain cl cl1 cl2 :: "(nat, nat) client" where
    start: "client_run True 67108864 start_schedule (RpcClient_new, [], []) = Some (cl, [], [TcpConnect])"
    and call: "client_call True 67108864 (\<lambda>_. True) True (call_of 7) cl = Some (1, ?effs, [], cl1)"
    and run: "client_run True 67108864 lost_twice (cl1, [], [TcpConnect, Issued 1 7, Send 0 (request_of 1)]) = Some (cl2, [], ?log)"
    using lost_twice_run by blast
  have steps: "(client_step True 67108864)\<^sup>*\<^sup>* (cl1, [] @ [], [TcpConnect] @ ?effs) (cl2, [], ?log)"
    using client_run_steps[OF run] by simp
  have "below_wrap ?log" by (simp add: below_wrap_def)
  from client_sends_bounded[OF client_run_reachable[OF start] call steps this]
  have "sends_of 1 ?log \<le> 1 + unat (2 :: u8)" by simp
  moreover have "sends_of 1 ?log = 3" by (simp add: request_id_of_1)
  ultimately show ?thesis using call steps[unfolded append_Nil] by blast
qed

theorem client_resend_bounded_witness:
  "\<exists>(cl1 :: (nat, nat) client) cl2 log log'. client_reachable True 67108864 (cl1, [], log) \<and>
     m_find (cl_pendingRequests cl1) 1 = Some first_request \<and>
     client_run True 67108864 lost_twice (cl1, [], log) = Some (cl2, [], log') \<and>
     sends_of 1 log = 1 \<and> sends_of 1 log' = 3 \<and>
     (case m_find (cl_pendingRequests cl2) 1 of None \<Rightarrow> 0 | Some p' \<Rightarrow> unat (pr_remainingResends p')) = 0"
proof -
  let ?log = "[TcpConnect, Issued 1 7, Send 0 (request_of 1)] :: (nat, nat) effect list"
  let ?log' = "?log @ [Send 1 (request_of 1), Send 2 (request_of 1)]"
  obtain cl1 cl2 :: "(nat, nat) client" where
    start: "client_run True 67108864 (start_schedule @ [C_call (call_of 7)]) (RpcClient_new, [], []) = Some (cl1, [], ?log)"
    and run: "client_run True 67108864 lost_twice (cl1, [], ?log) = Some (cl2, [], ?log')"
    and p: "m_find (cl_pendingRequests cl1) 1 = Some first_request"
    using lost_twice_run by auto
  have wrap: "below_wrap ?log'" by (simp add: below_wrap_def)
  have sends: "sends_of 1 ?log = 1" "sends_of 1 ?log' = 3" by (simp_all add: request_id_of_1)
  from client_resend_bounded[OF client_run_reachable[OF start] p client_run_steps[OF run] wrap]
  have "(case m_find (cl_pendingRequests cl2) 1 of None \<Rightarrow> 0 | Some p' \<Rightarrow> unat (pr_remainingResends p')) = 0"
    unfolding sends by simp
  with client_run_reachable[OF start] run p sends show ?thesis by blast
qed

end
