(* ===== verification/Rpc_Client_Calls.thy ===== *)
theory Rpc_Client_Calls
  imports Rpc_Client_Resend
begin

section \<open>The outcome of a call\<close>

text \<open>
  \<open>callInLoop\<close> of \<open>RpcClient.cc\<close> refuses a call for one of four reasons, each with its own error code and text;
  here the reason is a function of the state, and both outcomes of a call, refusal and acceptance, are stated in
  full.
\<close>

definition connected_on :: "('c \<Rightarrow> bool) \<Rightarrow> ('c, 'k) client \<Rightarrow> 'c option" where
  "connected_on up cl = (case cl_conn cl of None \<Rightarrow> None
     | Some conn \<Rightarrow> if cl_status cl = kConnected \<and> up conn then Some conn else None)"

definition call_refusal :: "nat \<Rightarrow> ('c \<Rightarrow> bool) \<Rightarrow> 'k call_args \<Rightarrow> ('c, 'k) client \<Rightarrow> (RpcErrorCode \<times> string) option" where
  "call_refusal kMax up a cl =
     (if connected_on up cl = None then Some (CONNECTION_UNAVAILABLE, ''connection not connected'')
      else if RpcRequest_OutputMessageLen (length (ca_service a)) (length (ca_method a)) (length (ca_payload a)) >
        client_max kMax cl then Some (MESSAGE_TOO_LARGE, ''rpc message too large'')
      else if (case cl_maxPendingRequests cl of None \<Rightarrow> False | Some m \<Rightarrow> m \<le> length (cl_pendingRequests cl))
        then Some (RESOURCE_EXHAUSTED, ''too many pending requests'')
      else if \<not> request_valid (call_request a) then Some (INTERNAL_ERROR, ''encode error'')
      else None)"

lemma connected_on_Some: "connected_on up cl = Some conn \<longleftrightarrow> cl_conn cl = Some conn \<and> cl_status cl = kConnected \<and> up conn"
  by (auto simp: connected_on_def split: option.split)

lemma connected_on_None: "connected_on up cl = None \<longleftrightarrow> (\<forall>conn. cl_conn cl = Some conn \<longrightarrow> cl_status cl = kConnected \<longrightarrow> \<not> up conn)"
  by (auto simp: connected_on_def split: option.split)

lemma call_refusal_None: "call_refusal kMax up a cl = None \<longleftrightarrow> call_accepted kMax up a cl"
  by (cases "connected_on up cl")
    (auto simp: call_refusal_def call_accepted_def connected_on_Some connected_on_None call_request_def not_less not_le
      split: option.split)

lemma callInLoop_refusal:
  assumes "call_refusal kMax up a cl = Some (ec, msg)"
  shows "callInLoop le kMax up a cl = refuse_call (ca_callback a) (ca_requestId a) ec msg cl"
proof (cases "connected_on up cl")
  case None
  then show ?thesis using assms
    by (cases "cl_conn cl") (auto simp: call_refusal_def connected_on_None callInLoop_def Let_def split del: if_split)
next
  case (Some conn)
  then have conn: "cl_conn cl = Some conn" "cl_status cl = kConnected" "up conn" by (simp_all add: connected_on_Some)
  let ?len = "RpcRequest_OutputMessageLen (length (ca_service a)) (length (ca_method a)) (length (ca_payload a))"
  have large: "(cl_maxMessageSize cl = None \<and> ?len > kMax \<or> (case cl_maxMessageSize cl of None \<Rightarrow> False | Some m \<Rightarrow> ?len > m)) =
      (client_max kMax cl < ?len)"
    by (simp add: client_max_def split: option.split)
  show ?thesis using assms conn Some unfolding callInLoop_def call_refusal_def
    by (auto simp: large RpcRequest_encode_eq call_request_def Let_def split: if_splits)
qed

text \<open>What an accepted call leaves in the state.\<close>

lemma add_request_timer:
  "cl_timers (add_request k p cl) =
     (if pr_requestTimeout p > 0 then m_put (cl_nextTimer cl) (OnRequestTimeout k, pr_requestTimeout p) (cl_timers cl)
      else cl_timers cl)"
  by (auto simp: add_request_def block_defs)

text \<open>C14: Every call has exactly one of these outcomes. With a negative time limit its assertions fail. Otherwise it
  takes the next id. It is refused, for the reason \<open>call_refusal\<close> names and with the code and text of that reason
  (not connected, then too large, then too many pending requests, then a field too long for its length field):
  nothing is sent, the only thing left to do is the callback with the failure, and the state only moves to the next
  id. Or it is accepted: the wire form of the request is written once on the current connection, no callback is due,
  and exactly one entry is added under the id, with the callback, the time limit, the attempts of the call or the
  default, the default reconnect time for 0, and reconnection only with attempts left; a timer was started exactly
  if there is a time limit. The functor of a call from another thread does the same when the loop runs it.\<close>

theorem client_call_outcome:
  "case client_call le kMax up True a cl of
     None \<Rightarrow> ca_timeout a < 0 \<or> ca_reconnectTimeout a < 0
   | Some (rid, effs, tasks, cl') \<Rightarrow>
       ca_timeout a \<ge> 0 \<and> ca_reconnectTimeout a \<ge> 0 \<and> rid = cl_nextRequestId cl \<and>
       (effs, tasks, cl') = (case run_functor le kMax up now (CallFunctor (a\<lparr>ca_requestId := rid\<rparr>))
           (cl\<lparr>cl_nextRequestId := rid + 1\<rparr>) of (effs, rest) \<Rightarrow> (Issued rid (ca_callback a) # effs, rest)) \<and>
       (case call_refusal kMax up a cl of
          Some (ec, msg) \<Rightarrow> effs = [Issued rid (ca_callback a)] \<and>
            tasks = [DoCallback (ca_callback a) (failed_response rid ec msg)] \<and> cl' = cl\<lparr>cl_nextRequestId := rid + 1\<rparr>
        | None \<Rightarrow> (\<exists>conn p limit.
            connected_on up cl = Some conn \<and> tasks = [] \<and>
            effs = [Issued rid (ca_callback a), Send conn (request_wire (pending_request rid p))] \<and>
            (\<forall>k. m_find (cl_pendingRequests cl') k = (if k = rid then Some p else m_find (cl_pendingRequests cl) k)) \<and>
            limit = (case ca_resendLimit a of None \<Rightarrow> cl_defaultResendLimit cl | Some n \<Rightarrow> n) \<and>
            p = \<lparr>pr_serviceName = ca_service a, pr_methodName = ca_method a, pr_payload = ca_payload a,
              pr_callback = ca_callback a, pr_requestTimeout = ca_timeout a,
              pr_allowReconnect = (ca_allowReconnect a \<and> limit \<noteq> 0), pr_phase = kWaitingResponse,
              pr_remainingResends = limit, pr_reconnectTimeout = (if ca_allowReconnect a \<and> ca_reconnectTimeout a = 0
                then cl_defaultReconnectTimeout cl else ca_reconnectTimeout a),
              pr_timerId = (if ca_timeout a > 0 then Some (cl_nextTimer cl) else None)\<rparr> \<and>
            cl_timers cl' = (if ca_timeout a > 0
              then m_put (cl_nextTimer cl) (OnRequestTimeout rid, ca_timeout a) (cl_timers cl) else cl_timers cl)))"
proof (cases "ca_timeout a \<ge> 0 \<and> ca_reconnectTimeout a \<ge> 0")
  case False
  then show ?thesis by (auto simp: client_call_def)
next
  case True
  let ?rid = "cl_nextRequestId cl"
  let ?cl = "cl\<lparr>cl_nextRequestId := ?rid + 1\<rparr>" and ?a = "a\<lparr>ca_requestId := ?rid\<rparr>"
  obtain effs tasks cl' where run: "callInLoop le kMax up ?a ?cl = (effs, tasks, cl')" by (metis prod_cases3)
  have call: "client_call le kMax up True a cl = Some (?rid, Issued ?rid (ca_callback a) # effs, tasks, cl')"
    using True run by (simp add: client_call_def Let_def)
  have reason: "call_refusal kMax up ?a ?cl = call_refusal kMax up a cl"
    by (simp add: call_refusal_def connected_on_def call_request_def request_valid_def cong: option.case_cong)
  show ?thesis
  proof (cases "call_refusal kMax up a cl")
    case None
    then have "call_accepted kMax up ?a ?cl" using reason call_refusal_None by metis
    then obtain conn where conn: "cl_conn ?cl = Some conn" "cl_status ?cl = kConnected" "up conn"
      and sent: "callInLoop le kMax up ?a ?cl =
        ([Send conn (request_wire (pending_request ?rid (accepted_request ?a ?cl)))], [],
         add_request ?rid (accepted_request ?a ?cl) ?cl)"
      by (rule callInLoop_accepted) simp
    let ?p = "accepted_request ?a ?cl"
    let ?q = "if ca_timeout a > 0 then ?p\<lparr>pr_timerId := Some (cl_nextTimer cl)\<rparr> else ?p"
    have same: "pr_requestTimeout ?p = ca_timeout a" "pending_request ?rid ?q = pending_request ?rid ?p"
      by (simp_all add: accepted_request_def Let_def pending_request_def)
    have out: "effs = [Send conn (request_wire (pending_request ?rid ?q))]" "tasks = []" "cl' = add_request ?rid ?p ?cl"
      using sent run unfolding same by simp_all
    show ?thesis unfolding call
      using True None conn run
      by (auto simp: out connected_on_Some add_request_frame add_request_timer pending_request_def accepted_request_def Let_def
          cong: option.case_cong intro!: exI[of _ ?q])
  next
    case (Some r)
    then obtain ec msg where "call_refusal kMax up ?a ?cl = Some (ec, msg)" using reason by (cases r) simp
    from callInLoop_refusal[OF this, of le] run Some reason this have
      out: "effs = []" "tasks = [DoCallback (ca_callback a) (failed_response ?rid ec msg)]" "cl' = ?cl" "r = (ec, msg)"
      by (auto simp: refuse_call_def)
    show ?thesis unfolding call using True Some run by (simp add: out)
  qed
qed

end
