(* ===== verification/Rpc_Client_Reconnect.thy ===== *)
theory Rpc_Client_Reconnect
  imports Rpc_Client_Runs
begin

section \<open>What a reconnect does\<close>

text \<open>
  \<open>checkReconnect\<close> of \<open>RpcClient.cc\<close> as one function. In \<open>Rpc_Client\<close> its loop is a sequence of tasks, since a callback of the
  application could run between two rounds; here the rounds are composed, it is shown that this is what the
  tasks do, and what the whole loop does to the waiting requests is stated exactly.
\<close>

fun resend_loop :: "bool \<Rightarrow> ('c \<Rightarrow> bool) \<Rightarrow> 'c \<Rightarrow> u64 list \<Rightarrow> ('c, 'k) client \<Rightarrow> ('c, 'k) outcome" where
  "resend_loop le up conn [] cl = ([], [], cl)"
| "resend_loop le up conn (item # items) cl =
     (case resend_one le up conn item items cl of (effs, tasks, cl') \<Rightarrow>
        if tasks = [ResendLoop conn items] then
          (case resend_loop le up conn items cl' of (effs', tasks', cl'') \<Rightarrow> (effs @ effs', tasks', cl''))
        else (effs, tasks, cl'))"

definition checkReconnect :: "bool \<Rightarrow> ('c \<Rightarrow> bool) \<Rightarrow> 'c \<Rightarrow> ('c, 'k) client \<Rightarrow> ('c, 'k) outcome" where
  "checkReconnect le up conn cl =
     (if cl_conn cl = Some conn then resend_loop le up conn (waitingToResend cl) cl else ([], [], cl))"

subsection \<open>The loop and the tasks\<close>

lemma resend_loop_steps:
  "resend_loop le up conn items cl = (effs, tasks, cl') \<Longrightarrow>
     (client_step le kMax)\<^sup>*\<^sup>* (cl, ResendLoop conn items # stack, log) (cl', tasks @ stack, log @ effs)"
proof (induction items arbitrary: cl effs log)
  case Nil
  have "client_step le kMax (cl, ResendLoop conn [] # stack, log) (cl, [] @ stack, log @ [])"
    by (rule st_task[where up = up]) simp_all
  with Nil show ?case by simp
next
  case (Cons item items)
  obtain effs1 tasks1 cl1 where one: "resend_one le up conn item items cl = (effs1, tasks1, cl1)" by (metis prod_cases3)
  have step: "client_step le kMax (cl, ResendLoop conn (item # items) # stack, log) (cl1, tasks1 @ stack, log @ effs1)"
    by (rule st_task[where up = up]) (simp_all add: one)
  show ?case
  proof (cases "tasks1 = [ResendLoop conn items]")
    case True
    obtain effs2 tasks2 cl2 where rest: "resend_loop le up conn items cl1 = (effs2, tasks2, cl2)" by (metis prod_cases3)
    with Cons.prems True one have "effs = effs1 @ effs2" "tasks = tasks2" "cl' = cl2" by auto
    with step True Cons.IH[of cl1 effs2 "log @ effs1"] rest show ?thesis
      by (auto intro: converse_rtranclp_into_rtranclp)
  next
    case False
    with Cons.prems one step show ?thesis by auto
  qed
qed

lemma checkReconnect_steps:
  assumes "checkReconnect le up conn cl = (effs, tasks, cl')"
  shows "(client_step le kMax)\<^sup>*\<^sup>* (cl, CheckReconnect conn # stack, log) (cl', tasks @ stack, log @ effs)"
proof (cases "cl_conn cl = Some conn")
  case True
  have "client_step le kMax (cl, CheckReconnect conn # stack, log) (cl, [ResendLoop conn (waitingToResend cl)] @ stack, log @ [])"
    by (rule st_task[where up = up]) (simp_all add: True)
  with resend_loop_steps[of le up conn "waitingToResend cl" cl effs tasks cl' kMax stack log] assms True show ?thesis
    by (auto simp: checkReconnect_def intro: converse_rtranclp_into_rtranclp)
next
  case False
  have "client_step le kMax (cl, CheckReconnect conn # stack, log) (cl, [] @ stack, log @ [])"
    by (rule st_task[where up = up]) (simp_all add: False)
  with assms False show ?thesis by (auto simp: checkReconnect_def)
qed

lemma resend_loop_down:
  "\<not> (cl_conn cl = Some conn \<and> cl_status cl = kConnected \<and> up conn) \<Longrightarrow> resend_loop le up conn items cl = ([], [], cl)"
  by (cases items) (auto simp: resend_one_def)

subsection \<open>One round\<close>

definition resent :: "'k PendingRequest \<Rightarrow> TimerId option \<Rightarrow> 'k PendingRequest" where
  "resent p t = p\<lparr>pr_remainingResends := pr_remainingResends p - 1, pr_phase := kWaitingResponse, pr_timerId := t\<rparr>"

lemma resent_None:
  "p\<lparr>pr_timerId := None, pr_remainingResends := pr_remainingResends p - 1, pr_phase := kWaitingResponse\<rparr> = resent p None"
  by (cases p) (simp add: resent_def)

lemma resent_sel [simp]:
  "pr_requestTimeout (resent p t) = pr_requestTimeout p" "pr_serviceName (resent p t) = pr_serviceName p"
  "pr_methodName (resent p t) = pr_methodName p" "pr_payload (resent p t) = pr_payload p"
  "pr_phase (resent p t) = kWaitingResponse"
  by (simp_all add: resent_def)

text \<open>Nothing but the requests and the timers differs.\<close>

definition same_but_requests :: "('c, 'k) client \<Rightarrow> ('c, 'k) client \<Rightarrow> bool" where
  "same_but_requests cl cl' \<longleftrightarrow> cl' = cl\<lparr>cl_pendingRequests := cl_pendingRequests cl', cl_timers := cl_timers cl',
     cl_nextTimer := cl_nextTimer cl'\<rparr>"

lemma same_but_requests_refl [simp]: "same_but_requests cl cl"
  by (simp add: same_but_requests_def)

lemma same_but_requests_trans: "same_but_requests cl cl1 \<Longrightarrow> same_but_requests cl1 cl' \<Longrightarrow> same_but_requests cl cl'"
  by (cases cl; cases cl1; cases cl') (simp add: same_but_requests_def)

lemma same_but_requests_sel:
  "same_but_requests cl cl' \<Longrightarrow> cl_conn cl' = cl_conn cl \<and> cl_status cl' = cl_status cl \<and> cl_clearTimerId cl' = cl_clearTimerId cl"
  by (cases cl; cases cl') (simp add: same_but_requests_def)

lemma resend_one_sends:
  assumes here: "cl_conn cl = Some conn" "cl_status cl = kConnected" "up conn"
    and p: "m_find (cl_pendingRequests cl) item = Some p" "pr_phase p = kWaitingReconnect"
    and valid: "request_valid (pending_request item p)"
  obtains t cl' where
    "resend_one le up conn item items cl = ([Send conn (request_wire (pending_request item p))], [ResendLoop conn items], cl')"
    "same_but_requests cl cl'" "cl_nextTimer cl' = cl_nextTimer cl + (if pr_requestTimeout p > 0 then 1 else 0)"
    "\<And>rid. m_find (cl_pendingRequests cl') rid = (if rid = item then Some (resent p t) else m_find (cl_pendingRequests cl) rid)"
proof -
  let ?cl = "cancel_timer (pr_timerId p) cl"
  have enc: "RpcRequest_encode le \<lparr>rq_requestId = item, rq_service = pr_serviceName p,
      rq_method = pr_methodName p, rq_payload = pr_payload p\<rparr> [] [] = Some (True, request_wire (pending_request item p), [])"
    using valid by (simp add: RpcRequest_encode_eq pending_request_def)
  show thesis
  proof (cases "pr_requestTimeout p > 0")
    case True
    obtain t cl' where run: "runAfter (pr_requestTimeout p) (OnRequestTimeout item) ?cl = (t, cl')" by fastforce
    show ?thesis
    proof (rule that)
      show "resend_one le up conn item items cl = ([Send conn (request_wire (pending_request item p))], [ResendLoop conn items],
          set_pending item (resent p (Some t)) cl')"
        using here p True run by (simp add: resend_one_def enc Let_def resent_def)
      show "m_find (cl_pendingRequests (set_pending item (resent p (Some t)) cl')) rid =
          (if rid = item then Some (resent p (Some t)) else m_find (cl_pendingRequests cl) rid)" for rid
        using run by (auto simp: block_defs umap_simps)
    qed (use run True in \<open>auto simp: block_defs same_but_requests_def\<close>)
  next
    case False
    show ?thesis
    proof (rule that)
      show "resend_one le up conn item items cl = ([Send conn (request_wire (pending_request item p))], [ResendLoop conn items],
          set_pending item (resent p None) ?cl)"
        using here p False by (simp add: resend_one_def enc Let_def resent_None)
      show "m_find (cl_pendingRequests (set_pending item (resent p None) ?cl)) rid =
          (if rid = item then Some (resent p None) else m_find (cl_pendingRequests cl) rid)" for rid
        by (auto simp: block_defs umap_simps)
    qed (use False in \<open>auto simp: block_defs same_but_requests_def\<close>)
  qed
qed

text \<open>All rounds, as long as every request on the list waits and is valid.\<close>

lemma resend_loop_sends:
  assumes "cl_conn cl = Some conn" "cl_status cl = kConnected" "up conn" and "distinct (map fst items)"
    and "\<And>rid p. (rid, p) \<in> set items \<Longrightarrow> m_find (cl_pendingRequests cl) rid = Some p \<and> pr_phase p = kWaitingReconnect \<and>
      request_valid (pending_request rid p)"
  shows "\<exists>cl'. resend_loop le up conn (map fst items) cl =
      (map (\<lambda>(rid, p). Send conn (request_wire (pending_request rid p))) items, [], cl') \<and>
    same_but_requests cl cl' \<and> cl_nextTimer cl' = cl_nextTimer cl + length (filter (\<lambda>(rid, p). pr_requestTimeout p > 0) items) \<and>
    (\<forall>rid. rid \<notin> fst ` set items \<longrightarrow> m_find (cl_pendingRequests cl') rid = m_find (cl_pendingRequests cl) rid) \<and>
    (\<forall>(rid, p) \<in> set items. \<exists>t. m_find (cl_pendingRequests cl') rid = Some (resent p t))"
  using assms
proof (induction items arbitrary: cl)
  case (Cons x items)
  obtain item p where x: "x = (item, p)" by fastforce
  have p: "m_find (cl_pendingRequests cl) item = Some p" "pr_phase p = kWaitingReconnect" "request_valid (pending_request item p)"
    using Cons.prems(5)[of item p] x by simp_all
  obtain t cl1 where one: "resend_one le up conn item (map fst items) cl =
      ([Send conn (request_wire (pending_request item p))], [ResendLoop conn (map fst items)], cl1)"
    and same: "same_but_requests cl cl1" "cl_nextTimer cl1 = cl_nextTimer cl + (if pr_requestTimeout p > 0 then 1 else 0)"
    and find: "\<And>rid. m_find (cl_pendingRequests cl1) rid = (if rid = item then Some (resent p t) else m_find (cl_pendingRequests cl) rid)"
    using resend_one_sends[where up = up and conn = conn, OF Cons.prems(1-3) p] by metis
  have new: "item \<notin> fst ` set items" "distinct (map fst items)" using Cons.prems(4) x by auto
  have "m_find (cl_pendingRequests cl1) rid = Some q \<and> pr_phase q = kWaitingReconnect \<and> request_valid (pending_request rid q)"
    if "(rid, q) \<in> set items" for rid q
    using Cons.prems(5)[of rid q] that new(1) find[of rid] by (force simp: x)
  from Cons.IH[OF _ _ Cons.prems(3) new(2) this] Cons.prems(1,2) same_but_requests_sel[OF same(1)]
  obtain cl' where rest: "resend_loop le up conn (map fst items) cl1 =
      (map (\<lambda>(rid, p). Send conn (request_wire (pending_request rid p))) items, [], cl')"
    and frame: "same_but_requests cl1 cl'"
      "cl_nextTimer cl' = cl_nextTimer cl1 + length (filter (\<lambda>(rid, p). pr_requestTimeout p > 0) items)"
    and others: "\<forall>rid. rid \<notin> fst ` set items \<longrightarrow> m_find (cl_pendingRequests cl') rid = m_find (cl_pendingRequests cl1) rid"
    and done': "\<forall>(rid, p) \<in> set items. \<exists>t. m_find (cl_pendingRequests cl') rid = Some (resent p t)"
    by auto
  have "m_find (cl_pendingRequests cl') item = Some (resent p t)" using others new(1) find[of item] by simp
  then show ?case
    using others done' find frame(2) same(2) same_but_requests_trans[OF same(1) frame(1)]
    by (intro exI[of _ cl']) (auto simp: x one rest)
qed simp

text \<open>The timers of the requests in a phase, and what becomes of the timers when the waiting requests are sent again.\<close>

definition timers_in :: "RequestPhase \<Rightarrow> ('c, 'k) client \<Rightarrow> TimerId set" where
  "timers_in ph cl = {i. \<exists>rid p. m_find (cl_pendingRequests cl) rid = Some p \<and> pr_phase p = ph \<and> pr_timerId p = Some i}"

lemma timers_after_resend:
  assumes old: "timers_ok (cl_pendingRequests cl) (cl_timers cl) nxt clr" and new: "timers_ok pend tms nxt' clr"
    and none: "\<And>rid. m_find (cl_pendingRequests cl) rid = None \<Longrightarrow> m_find pend rid = None"
    and keep: "\<And>rid p. m_find (cl_pendingRequests cl) rid = Some p \<Longrightarrow> pr_phase p \<noteq> kWaitingReconnect \<Longrightarrow> m_find pend rid = Some p"
    and again: "\<And>rid p. m_find (cl_pendingRequests cl) rid = Some p \<Longrightarrow> pr_phase p = kWaitingReconnect \<Longrightarrow>
      \<exists>t. m_find pend rid = Some (resent p t)"
  shows "m_find tms i = Some e \<longleftrightarrow>
    m_find (cl_timers cl) i = Some e \<and> i \<notin> timers_in kWaitingReconnect cl \<or>
    (\<exists>rid p. m_find (cl_pendingRequests cl) rid = Some p \<and> pr_phase p = kWaitingReconnect \<and>
      m_find pend rid = Some (resent p (Some i)) \<and> e = (OnRequestTimeout rid, pr_requestTimeout p))"
    (is "?l \<longleftrightarrow> ?r")
proof
  assume l: ?l
  from timers_ok_clauses(6)[OF new l] consider "clr = Some i" | rid p where "m_find pend rid = Some p" "pr_timerId p = Some i"
    by blast
  then show ?r
  proof cases
    case 1
    then have "m_find (cl_timers cl) i = Some e" using timers_ok_clauses(7)[OF old] timers_ok_clauses(7)[OF new] l by simp
    moreover have "i \<notin> timers_in kWaitingReconnect cl" using timers_ok_unique(1)[OF old] 1 by (auto simp: timers_in_def)
    ultimately show ?r by blast
  next
    case (2 rid p)
    have e: "e = timer_of rid p" using timers_ok_clauses(5)[OF new 2] l by simp
    obtain q where q: "m_find (cl_pendingRequests cl) rid = Some q" using none[of rid] 2(1) by (cases "m_find (cl_pendingRequests cl) rid") auto
    show ?r
    proof (cases "pr_phase q = kWaitingReconnect")
      case True
      with again[OF q] 2 obtain t where "p = resent q t" by auto
      then have "p = resent q (Some i)" using 2(2) by (simp add: resent_def)
      with q True 2(1) e show ?r by (auto simp: timer_of_def)
    next
      case False
      then have "p = q" using keep[OF q] 2(1) by simp
      with False q 2(2) have "i \<notin> timers_in kWaitingReconnect cl"
        using timers_ok_unique(2)[OF old q] by (fastforce simp: timers_in_def)
      then show ?r using timers_ok_clauses(5)[OF old q] \<open>p = q\<close> 2(2) e by blast
    qed
  qed
next
  assume ?r
  then show ?l
  proof (elim disjE conjE exE)
    assume i: "m_find (cl_timers cl) i = Some e" "i \<notin> timers_in kWaitingReconnect cl"
    from timers_ok_clauses(6)[OF old i(1)] show ?l
    proof (elim disjE exE conjE)
      assume "clr = Some i"
      then show ?l using timers_ok_clauses(7)[OF old] timers_ok_clauses(7)[OF new] i(1) by simp
    next
      fix rid p assume p: "m_find (cl_pendingRequests cl) rid = Some p" "pr_timerId p = Some i"
      with i(2) have "m_find pend rid = Some p" using keep by (auto simp: timers_in_def)
      then show ?l using timers_ok_clauses(5)[OF new _ p(2)] timers_ok_clauses(5)[OF old p] i(1) by simp
    qed
  next
    fix rid p assume "m_find pend rid = Some (resent p (Some i))" "e = (OnRequestTimeout rid, pr_requestTimeout p)"
    then show ?l using timers_ok_clauses(5)[OF new, of rid "resent p (Some i)" i] by (simp add: resent_def timer_of_def)
  qed
qed

lemma waitingToResend_eq:
  assumes "client_ok kMax cl"
  shows "waitingToResend cl = map fst (filter (\<lambda>(rid, p). pr_phase p = kWaitingReconnect) (cl_pendingRequests cl))"
proof -
  have "pr_allowReconnect p \<and> pr_remainingResends p \<noteq> 0"
    if "(rid, p) \<in> set (cl_pendingRequests cl)" "pr_phase p = kWaitingReconnect" for rid p
    using that client_ok_clauses(3)[OF assms] unfolding m_find_set_iff[OF client_ok_clauses(2)[OF assms], symmetric] by (auto simp: entry_fits_def)
  then show ?thesis unfolding waitingToResend_def by (intro arg_cong[where f = "map fst"] filter_cong) auto
qed

text \<open>C13: A reconnect sends every waiting request again, exactly once, and changes nothing else. Take any reachable
  state in which the new connection was just reported and is up. The \<open>checkReconnect\<close> that follows writes the wire
  form of each request that waited for a connection, each once and unchanged, and these are all it does. Each of them
  then waits for a response with one attempt fewer and, exactly if it has a time limit, with its request timer; the
  other requests are as they were and none is added or dropped. The timers that run are the ones that ran before, without the
  reconnect timers of the waiting requests, and the new request timers, one timer id being used for each. Every other
  field of the client is unchanged: the responses to ignore, the queue, the next id, the status, the connection and all
  settings. This is what the rounds of the loop do one after the other.\<close>

theorem client_reconnect_resends:
  assumes "client_reachable le kMax (cl, CheckReconnect conn # stack, log)" and "below_wrap log"
    and "cl_conn cl = Some conn" and "cl_status cl = kConnected" and "up conn"
  shows "\<exists>effs cl'. checkReconnect le up conn cl = (effs, [], cl') \<and>
    effs = map (\<lambda>(rid, p). Send conn (request_wire (pending_request rid p)))
      (filter (\<lambda>(rid, p). pr_phase p = kWaitingReconnect) (cl_pendingRequests cl)) \<and>
    (client_step le kMax)\<^sup>*\<^sup>* (cl, CheckReconnect conn # stack, log) (cl', stack, log @ effs) \<and>
    (\<forall>rid. case m_find (cl_pendingRequests cl) rid of
       None \<Rightarrow> m_find (cl_pendingRequests cl') rid = None
     | Some p \<Rightarrow>
         if pr_phase p = kWaitingReconnect then
           \<exists>t. m_find (cl_pendingRequests cl') rid = Some (resent p t) \<and>
             unat (pr_remainingResends p) = Suc (unat (pr_remainingResends (resent p t))) \<and>
             (if pr_requestTimeout p > 0
              then \<exists>i. t = Some i \<and> m_find (cl_timers cl') i = Some (OnRequestTimeout rid, pr_requestTimeout p)
              else t = None)
         else m_find (cl_pendingRequests cl') rid = Some p) \<and>
    (\<forall>i e. m_find (cl_timers cl') i = Some e \<longleftrightarrow>
       m_find (cl_timers cl) i = Some e \<and> i \<notin> timers_in kWaitingReconnect cl \<or>
       (\<exists>rid p. m_find (cl_pendingRequests cl) rid = Some p \<and> pr_phase p = kWaitingReconnect \<and>
         m_find (cl_pendingRequests cl') rid = Some (resent p (Some i)) \<and> e = (OnRequestTimeout rid, pr_requestTimeout p))) \<and>
    cl_nextTimer cl' = cl_nextTimer cl + length (filter (\<lambda>(rid, p). pr_requestTimeout p > 0)
      (filter (\<lambda>(rid, p). pr_phase p = kWaitingReconnect) (cl_pendingRequests cl))) \<and>
    cl' = cl\<lparr>cl_pendingRequests := cl_pendingRequests cl', cl_timers := cl_timers cl', cl_nextTimer := cl_nextTimer cl'\<rparr>"
proof -
  let ?items = "filter (\<lambda>(rid, p). pr_phase p = kWaitingReconnect) (cl_pendingRequests cl)"
  let ?effs = "map (\<lambda>(rid, p). Send conn (request_wire (pending_request rid p))) ?items :: ('a, 'b) effect list"
  have ok: "client_ok kMax cl" using assms(1,2) by (rule client_reachable_parts)
  note clauses = client_ok_clauses[OF ok]
  have in_items: "(rid, p) \<in> set ?items \<longleftrightarrow> m_find (cl_pendingRequests cl) rid = Some p \<and> pr_phase p = kWaitingReconnect" for rid p
    unfolding m_find_set_iff[OF clauses(2)] by auto
  have dist: "distinct (map fst ?items)" using clauses(2) by (rule distinct_map_filter)
  have "m_find (cl_pendingRequests cl) rid = Some p \<and> pr_phase p = kWaitingReconnect \<and> request_valid (pending_request rid p)"
    if "(rid, p) \<in> set ?items" for rid p
    using that clauses(3)[of rid p] unfolding in_items entry_fits_def by blast
  from resend_loop_sends[where up = up and conn = conn, OF assms(3-5) dist this] obtain cl' where
    loop: "resend_loop le up conn (map fst ?items) cl = (?effs, [], cl')"
    and frame: "same_but_requests cl cl'"
      "cl_nextTimer cl' = cl_nextTimer cl + length (filter (\<lambda>(rid, p). pr_requestTimeout p > 0) ?items)"
    and others: "\<forall>rid. rid \<notin> fst ` set ?items \<longrightarrow> m_find (cl_pendingRequests cl') rid = m_find (cl_pendingRequests cl) rid"
    and again: "\<forall>(rid, p) \<in> set ?items. \<exists>t. m_find (cl_pendingRequests cl') rid = Some (resent p t)" by blast
  have run: "checkReconnect le up conn cl = (?effs, [], cl')"
    using loop assms(3) by (simp add: checkReconnect_def waitingToResend_eq[OF ok])
  from checkReconnect_steps[OF run] have steps: "(client_step le kMax)\<^sup>*\<^sup>* (cl, CheckReconnect conn # stack, log) (cl', stack, log @ ?effs)"
    by simp
  with assms(1) have "client_reachable le kMax (cl', stack, log @ ?effs)"
    unfolding client_reachable_def by (meson rtranclp_trans)
  moreover have "issued ?effs = []" by (auto simp: issued_def calls_of_def)
  then have "below_wrap (log @ ?effs)" using assms(2) by (simp add: below_wrap_def)
  ultimately have ok': "client_ok kMax cl'" by (rule client_reachable_parts)
  note timers = timers_ok_clauses(4,5)[OF client_ok_clauses(1)[OF ok']]
  have requests: "case m_find (cl_pendingRequests cl) rid of
       None \<Rightarrow> m_find (cl_pendingRequests cl') rid = None
     | Some p \<Rightarrow>
         if pr_phase p = kWaitingReconnect then
           \<exists>t. m_find (cl_pendingRequests cl') rid = Some (resent p t) \<and>
             unat (pr_remainingResends p) = Suc (unat (pr_remainingResends (resent p t))) \<and>
             (if pr_requestTimeout p > 0
              then \<exists>i. t = Some i \<and> m_find (cl_timers cl') i = Some (OnRequestTimeout rid, pr_requestTimeout p)
              else t = None)
         else m_find (cl_pendingRequests cl') rid = Some p" for rid
  proof (cases "\<exists>p. m_find (cl_pendingRequests cl) rid = Some p \<and> pr_phase p = kWaitingReconnect")
    case True
    then obtain p where p: "m_find (cl_pendingRequests cl) rid = Some p" "pr_phase p = kWaitingReconnect" by blast
    with again in_items obtain t where t: "m_find (cl_pendingRequests cl') rid = Some (resent p t)" by blast
    have "pr_remainingResends p \<noteq> 0" using clauses(3)[OF p(1)] p(2) by (simp add: entry_fits_def)
    then have "unat (pr_remainingResends p) = Suc (unat (pr_remainingResends (resent p t)))"
      by (simp add: resent_def dec_resends unat_gt_0)
    moreover have "t \<noteq> None \<longleftrightarrow> pr_requestTimeout p > 0" using timers(1)[OF t] by (simp add: resent_def armed_def)
    moreover have "m_find (cl_timers cl') i = Some (OnRequestTimeout rid, pr_requestTimeout p)" if "t = Some i" for i
      using timers(2)[OF t, of i] that by (simp add: resent_def timer_of_def)
    ultimately show ?thesis using p t by auto
  next
    case False
    then have "rid \<notin> fst ` set ?items" using in_items by force
    with others False show ?thesis by (auto split: option.split)
  qed
  have "cl_clearTimerId cl' = cl_clearTimerId cl" using same_but_requests_sel[OF frame(1)] by simp
  then have ok_timers: "timers_ok (cl_pendingRequests cl') (cl_timers cl') (cl_nextTimer cl') (cl_clearTimerId cl)"
    using client_ok_clauses(1)[OF ok'] by simp
  have "m_find (cl_timers cl') i = Some e \<longleftrightarrow>
       m_find (cl_timers cl) i = Some e \<and> i \<notin> timers_in kWaitingReconnect cl \<or>
       (\<exists>rid p. m_find (cl_pendingRequests cl) rid = Some p \<and> pr_phase p = kWaitingReconnect \<and>
         m_find (cl_pendingRequests cl') rid = Some (resent p (Some i)) \<and> e = (OnRequestTimeout rid, pr_requestTimeout p))" for i e
    by (rule timers_after_resend[OF client_ok_clauses(1)[OF ok] ok_timers])
      (use requests in \<open>fastforce split: option.splits if_splits\<close>)+
  with run steps requests frame(2) show ?thesis using frame(1)[unfolded same_but_requests_def] by blast
qed

text \<open>The first of the requests of \<open>lost_twice\<close>, at the moment the second connection comes up.\<close>

abbreviation lost_once :: "(nat, nat) client_ev list" where
  "lost_once \<equiv> [C_connect, C_up 0, C_task, C_task, C_call (call_of 7), C_down 0, C_task, C_up 1]"

abbreviation waiting_request :: "nat PendingRequest" where
  "waiting_request \<equiv> first_request\<lparr>pr_phase := kWaitingReconnect, pr_timerId := Some 2\<rparr>"

lemma lost_once_run:
  "\<exists>cl :: (nat, nat) client. client_run True 67108864 lost_once (RpcClient_new, [], []) =
     Some (cl, [CheckReconnect 1], [TcpConnect, Issued 1 7, Send 0 (request_of 1)]) \<and>
     cl_pendingRequests cl = [(1, waiting_request)] \<and> cl_conn cl = Some 1 \<and> cl_status cl = kConnected"
  by (simp add: client_eval)

theorem client_reconnect_resends_witness:
  "\<exists>cl cl' :: (nat, nat) client. client_run True 67108864 lost_once (RpcClient_new, [], []) =
     Some (cl, [CheckReconnect 1], [TcpConnect, Issued 1 7, Send 0 (request_of 1)]) \<and>
     checkReconnect True (\<lambda>_. True) 1 cl = ([Send 1 (request_of 1)], [], cl') \<and>
     (\<exists>i. m_find (cl_pendingRequests cl') 1 = Some (resent waiting_request (Some i)) \<and>
       m_find (cl_timers cl') i = Some (OnRequestTimeout 1, 100))"
proof -
  let ?log = "[TcpConnect, Issued 1 7, Send 0 (request_of 1)] :: (nat, nat) effect list"
  obtain cl :: "(nat, nat) client" where
    run: "client_run True 67108864 lost_once (RpcClient_new, [], []) = Some (cl, [CheckReconnect 1], ?log)"
    and pend: "cl_pendingRequests cl = [(1, waiting_request)]"
    and here: "cl_conn cl = Some 1" "cl_status cl = kConnected" using lost_once_run by blast
  have "below_wrap ?log" by (simp add: below_wrap_def)
  from client_reconnect_resends[where up = "\<lambda>_. True", OF client_run_reachable[OF run] this here TrueI]
  obtain effs cl' where again: "checkReconnect True (\<lambda>_. True) 1 cl = (effs, [], cl')"
    "effs = map (\<lambda>(rid, p). Send 1 (request_wire (pending_request rid p)))
      (filter (\<lambda>(rid, p). pr_phase p = kWaitingReconnect) (cl_pendingRequests cl))"
    "case m_find (cl_pendingRequests cl) 1 of
       None \<Rightarrow> m_find (cl_pendingRequests cl') 1 = None
     | Some p \<Rightarrow>
         if pr_phase p = kWaitingReconnect then
           \<exists>t. m_find (cl_pendingRequests cl') 1 = Some (resent p t) \<and>
             unat (pr_remainingResends p) = Suc (unat (pr_remainingResends (resent p t))) \<and>
             (if pr_requestTimeout p > 0
              then \<exists>i. t = Some i \<and> m_find (cl_timers cl') i = Some (OnRequestTimeout 1, pr_requestTimeout p)
              else t = None)
         else m_find (cl_pendingRequests cl') 1 = Some p" by blast
  then have "effs = [Send 1 (request_of 1)]"
    "\<exists>i. m_find (cl_pendingRequests cl') 1 = Some (resent waiting_request (Some i)) \<and>
       m_find (cl_timers cl') i = Some (OnRequestTimeout 1, 100)"
    by (auto simp: pend pending_request_def)
  with run again(1) show ?thesis by blast
qed

end
