(* ===== verification/Rpc_Client_Completion.thy ===== *)
theory Rpc_Client_Completion
  imports Rpc_Client_Runs
begin

section \<open>Every call can be brought to its end\<close>

text \<open>
  The client never gets stuck with a call: from every reachable state a run without any new call leads to a state in
  which nothing is queued, pending or about to be called, and every call ever made has had its callback. The run does what is
  on the call stack, then what other threads have queued, then disconnects.
\<close>

subsection \<open>The call stack can always be emptied\<close>

text \<open>A task leaves behind fewer \<open>CheckReconnect\<close> tasks, or as many and less weight.\<close>

fun task_weight :: "('c, 'k) task \<Rightarrow> nat \<times> nat" where
  "task_weight (CheckReconnect conn) = (1, 0)"
| "task_weight (ResendLoop conn items) = (0, 1 + 3 * length items)"
| "task_weight ClearIgnored = (0, 1)"
| "task_weight InUserCode = (0, 1)"
| "task_weight _ = (0, 2)"

definition stack_weight :: "('c, 'k) task list \<Rightarrow> nat \<times> nat" where
  "stack_weight stack = (sum_list (map (fst \<circ> task_weight) stack), sum_list (map (snd \<circ> task_weight) stack))"

lemma resend_one_tasks:
  assumes "resend_one le up conn item items cl = (effs, tasks, cl')"
  shows "tasks \<in> {[], [ResendLoop conn items]} \<or> (\<exists>cb r. tasks = [DoCallback cb r, ResendLoop conn items])"
  using assms
  by (auto simp: resend_one_def RpcRequest_encode_eq Let_def split: if_splits option.splits)

lemma run_task_decreases:
  assumes "run_task le up t cl = (effs, tasks, cl')" "t \<noteq> InUserCode"
  shows "(stack_weight (tasks @ stack), stack_weight (t # stack)) \<in> less_than <*lex*> less_than"
proof (cases t)
  case (ResendLoop conn items)
  show ?thesis
  proof (cases items)
    case Nil
    with assms ResendLoop show ?thesis by (auto simp: stack_weight_def)
  next
    case (Cons item rest)
    with assms ResendLoop have "resend_one le up conn item rest cl = (effs, tasks, cl')" by simp
    from resend_one_tasks[OF this] show ?thesis by (auto simp: stack_weight_def ResendLoop Cons)
  qed
qed (use assms in \<open>auto simp: stack_weight_def split: if_splits\<close>)

text \<open>What a task leaves alone: no call is made, nothing is queued, and no request appears where there was none.\<close>

definition calls_nothing :: "('c, 'k) client \<Rightarrow> ('c, 'k) outcome \<Rightarrow> bool" where
  "calls_nothing cl r \<longleftrightarrow> (case r of (effs, tasks, cl') \<Rightarrow> issued effs = [] \<and> cl_queue cl' = cl_queue cl \<and>
     cl_hasConnectAttempted cl' = cl_hasConnectAttempted cl \<and> (cl_pendingRequests cl = [] \<longrightarrow> cl_pendingRequests cl' = []))"

lemma calls_nothing_resend: "calls_nothing cl (resend_one le up conn item items cl)"
  by (auto simp: calls_nothing_def resend_one_def RpcRequest_encode_eq block_defs Let_def split: option.split)

lemma calls_nothing_task: "calls_nothing cl (run_task le up t cl)"
proof (cases t)
  case (ResendLoop conn items)
  then show ?thesis by (cases items) (simp_all add: calls_nothing_resend, simp add: calls_nothing_def)
qed (simp_all add: calls_nothing_def clearIgnoredResponseRequests_def)

subsection \<open>The stages of the run\<close>

definition can_reach :: "bool \<Rightarrow> nat \<Rightarrow> ('c, 'k) client_config \<Rightarrow> (('c, 'k) client \<Rightarrow> bool) \<Rightarrow> bool" where
  "can_reach le kMax c P \<longleftrightarrow> (\<exists>cl' effs. (client_step le kMax)\<^sup>*\<^sup>* c (cl', [], snd (snd c) @ effs) \<and> issued effs = [] \<and> P cl')"

lemma can_reachI:
  "(client_step le kMax)\<^sup>*\<^sup>* (cl, stack, log) (cl', [], log @ effs) \<Longrightarrow> issued effs = [] \<Longrightarrow> P cl' \<Longrightarrow>
     can_reach le kMax (cl, stack, log) P"
  unfolding can_reach_def snd_conv by blast

lemma can_reachE:
  assumes "can_reach le kMax (cl, stack, log) P"
  obtains cl' effs where "(client_step le kMax)\<^sup>*\<^sup>* (cl, stack, log) (cl', [], log @ effs)" "issued effs = []" "P cl'"
  using assms unfolding can_reach_def snd_conv by blast

lemma can_reach_now: "P cl \<Longrightarrow> can_reach le kMax (cl, [], log) P"
  by (rule can_reachI[where effs = "[]"]) simp_all

lemma can_reach_mono: "can_reach le kMax (cl, stack, log) P \<Longrightarrow> (\<And>cl'. P cl' \<Longrightarrow> Q cl') \<Longrightarrow> can_reach le kMax (cl, stack, log) Q"
  by (erule can_reachE) (rule can_reachI)

lemma can_reach_steps:
  assumes "(client_step le kMax)\<^sup>*\<^sup>* (cl, stack, log) (cl1, stack1, log @ effs1)" and "issued effs1 = []"
    and "can_reach le kMax (cl1, stack1, log @ effs1) P"
  shows "can_reach le kMax (cl, stack, log) P"
  using assms(3)
proof (rule can_reachE)
  fix cl' effs
  assume "(client_step le kMax)\<^sup>*\<^sup>* (cl1, stack1, log @ effs1) (cl', [], (log @ effs1) @ effs)" "issued effs = []" "P cl'"
  with assms(2) rtranclp_trans[OF assms(1) this(1)] show ?thesis
    by (intro can_reachI[where effs = "effs1 @ effs" and cl' = cl']) simp_all
qed

lemma can_reach_step:
  assumes "client_step le kMax (cl, stack, log) (cl1, stack1, log @ effs1)" and "issued effs1 = []"
    and "can_reach le kMax (cl1, stack1, log @ effs1) P"
  shows "can_reach le kMax (cl, stack, log) P"
  by (rule can_reach_steps[OF _ assms(2,3)]) (rule r_into_rtranclp[of "client_step le kMax", OF assms(1)])

lemma can_reach_then:
  assumes "can_reach le kMax (cl, stack, log) P" and "\<And>cl1 log1. P cl1 \<Longrightarrow> can_reach le kMax (cl1, [], log1) Q"
  shows "can_reach le kMax (cl, stack, log) Q"
  using assms(1) by (rule can_reachE) (rule can_reach_steps[OF _ _ assms(2)])

text \<open>First the call stack.\<close>

definition as_before :: "('c, 'k) client \<Rightarrow> ('c, 'k) client \<Rightarrow> bool" where
  "as_before cl cl' \<longleftrightarrow> cl_queue cl' = cl_queue cl \<and> (cl_pendingRequests cl = [] \<longrightarrow> cl_pendingRequests cl' = [])"

lemma stack_drains: "can_reach le kMax (cl, stack, log) (as_before cl)"
proof (induction "stack_weight stack" arbitrary: cl stack log
    rule: wf_induct_rule[OF wf_lex_prod[OF wf_less_than wf_less_than]])
  case 1
  show ?case
  proof (cases stack)
    case Nil
    then show ?thesis by (simp add: can_reach_now as_before_def)
  next
    case (Cons t rest)
    show ?thesis
    proof (cases "t = InUserCode")
      case True
      have "(stack_weight ([] @ rest), stack_weight stack) \<in> less_than <*lex*> less_than"
        by (simp add: Cons True stack_weight_def)
      then have later: "can_reach le kMax (cl, [] @ rest, log @ []) (as_before cl)" by (rule "1")
      have "client_step le kMax (cl, t # rest, log) (cl, [] @ rest, log @ [])"
        unfolding True by (simp add: st_return)
      from can_reach_step[OF this _ later] show ?thesis by (simp add: Cons)
    next
      case False
      obtain effs1 tasks cl1 where t: "run_task le (\<lambda>_. True) t cl = (effs1, tasks, cl1)" by (metis prod_cases3)
      have same: "issued effs1 = []" "cl_queue cl1 = cl_queue cl" "cl_pendingRequests cl = [] \<longrightarrow> cl_pendingRequests cl1 = []"
        using calls_nothing_task[of cl le "\<lambda>_. True" t] by (simp_all add: t calls_nothing_def)
      have "can_reach le kMax (cl1, tasks @ rest, log @ effs1) (as_before cl1)"
        using run_task_decreases[OF t False, of rest] by (intro "1") (simp add: Cons)
      then have "can_reach le kMax (cl1, tasks @ rest, log @ effs1) (as_before cl)"
        by (rule can_reach_mono) (use same in \<open>simp add: as_before_def\<close>)
      from can_reach_step[OF st_task[OF False t] same(1) this] show ?thesis unfolding Cons .
    qed
  qed
qed

text \<open>Then the functors of other threads.\<close>

lemma functor_calls_nothing:
  assumes "run_functor le kMax up now f cl = (effs, tasks, cl')"
  shows "issued effs = []" and "cl_queue cl' = cl_queue cl"
proof -
  have "issued effs = [] \<and> cl_queue cl' = cl_queue cl"
  proof (cases f)
    case (CallFunctor a)
    show ?thesis
    proof (cases "call_accepted kMax up a cl")
      case True
      from callInLoop_accepted[OF this] obtain conn bs p where
        "callInLoop le kMax up a cl = ([Send conn bs], [], add_request (ca_requestId a) p cl)" by blast
      then show ?thesis using assms CallFunctor by (auto simp: add_request_def block_defs)
    next
      case False
      from callInLoop_refused[OF this, of le] assms CallFunctor show ?thesis by (auto simp: refuse_call_def)
    qed
  next
    case (CancelFunctor rid)
    then show ?thesis
      using assms by (auto simp: cancelInLoop_def sendCancel_def RpcCancel_encode_eq block_defs Let_def split: option.splits if_splits)
  qed
  then show "issued effs = []" "cl_queue cl' = cl_queue cl" by simp_all
qed

lemma queue_drains: "can_reach le kMax (cl, [], log) (\<lambda>cl'. cl_queue cl' = [])"
proof (induction "cl_queue cl" arbitrary: cl log)
  case Nil
  then show ?case by (simp add: can_reach_now)
next
  case (Cons f fs)
  obtain effs tasks cl1 where f: "run_functor le kMax (\<lambda>_. True) 0 f (cl\<lparr>cl_queue := fs\<rparr>) = (effs, tasks, cl1)"
    by (metis prod_cases3)
  have "client_step le kMax (cl, [], log) (cl1, tasks, log @ effs)"
    using ev_functor[OF Cons.hyps(2)[symmetric], of "\<lambda>_ _. True" le kMax "\<lambda>_. True" 0] by (intro st_event) (simp add: f)
  moreover have "can_reach le kMax (cl1, tasks, log @ effs) (\<lambda>cl'. cl_queue cl' = [])"
  proof (rule can_reach_then[OF stack_drains])
    fix cl2 log2 assume "as_before cl1 cl2"
    then have "fs = cl_queue cl2" using functor_calls_nothing(2)[OF f] by (simp add: as_before_def)
    then show "can_reach le kMax (cl2, [], log2) (\<lambda>cl'. cl_queue cl' = [])" by (rule Cons.hyps(1))
  qed
  ultimately show ?case
    using can_reach_step[OF _ functor_calls_nothing(1)[OF f], of le kMax cl "[]" log cl1 tasks] by blast
qed

text \<open>At last a disconnect, after which the connection is reported down, if there is one.\<close>

lemma fold_cancel_pending [simp]:
  "cl_pendingRequests (fold (\<lambda>item. cancel_timer (pr_timerId (snd item))) items cl) = cl_pendingRequests cl"
  "cl_queue (fold (\<lambda>item. cancel_timer (pr_timerId (snd item))) items cl) = cl_queue cl"
  by (induction items arbitrary: cl) (simp_all add: cancel_timer_eq)

lemma failAll_clears:
  "failAllPendingRequests ec msg cl = (effs, tasks, cl') \<Longrightarrow> effs = [] \<and> cl_pendingRequests cl' = [] \<and> cl_queue cl' = cl_queue cl"
  by (auto simp: failAllPendingRequests_def Let_def)

lemma stack_drains_idle:
  assumes "cl_queue cl = []" and "cl_pendingRequests cl = []"
  shows "can_reach le kMax (cl, stack, log) (\<lambda>cl'. cl_queue cl' = [] \<and> cl_pendingRequests cl' = [])"
  by (rule can_reach_mono[OF stack_drains]) (use assms in \<open>simp add: as_before_def\<close>)

lemma pending_drains:
  fixes cl :: "('c, 'k) client"
  assumes queue: "cl_queue cl = []" and attempted: "cl_pendingRequests cl \<noteq> [] \<Longrightarrow> cl_hasConnectAttempted cl"
  shows "can_reach le kMax (cl, [], log) (\<lambda>cl'. cl_queue cl' = [] \<and> cl_pendingRequests cl' = [])"
proof (cases "cl_pendingRequests cl = []")
  case True
  with queue show ?thesis by (intro can_reach_now) simp
next
  case False
  obtain effs tasks cl1 where dis: "client_disconnect cl = (effs, tasks, cl1)" by (metis prod_cases3)
  have step: "client_step le kMax (cl, [], log) (cl1, tasks @ [], log @ effs)"
    using api_disconnect[of le kMax cl] by (intro st_api) (simp_all add: dis)
  show ?thesis
  proof (cases "cl_status cl = kConnected")
    case True
    then have out: "effs = [TcpDisconnect]" "tasks = []"
      "cl1 = cl\<lparr>cl_manualDisconnection := True, cl_status := kDisconnecting\<rparr>"
      using dis by (simp_all add: client_disconnect_def Let_def)
    obtain effs2 tasks2 cl2 where down: "onConnection (\<lambda>_. False) (the (cl_conn cl)) cl1 = (effs2, tasks2, cl2)" by (metis prod_cases3)
    have clear: "issued effs2 = []" "cl_queue cl2 = []" "cl_pendingRequests cl2 = []"
      using down queue by (auto simp: onConnection_def out Let_def dest: failAll_clears split: prod.splits)
    have "client_step le kMax (cl1, [], log @ effs) (cl2, tasks2, (log @ effs) @ effs2)"
    proof (rule st_event)
      have "cl_hasConnectAttempted cl1" using attempted[OF False] by (simp add: out(3))
      from ev_connection[OF this, of "\<lambda>_ _. True" le kMax "\<lambda>_. False" "the (cl_conn cl)"]
      show "client_event (\<lambda>_ _. True) le kMax cl1 (effs2, tasks2, cl2)" unfolding down .
    qed
    from can_reach_step[OF this clear(1) stack_drains_idle[OF clear(2,3)]] step show ?thesis
      unfolding out(2) append_Nil by (intro can_reach_step[OF step[unfolded out(2) append_Nil]]) (simp_all add: out(1))
  next
    case no: False
    then have "issued effs = []" "cl_queue cl1 = []" "cl_pendingRequests cl1 = []"
      using dis queue by (auto simp: client_disconnect_def Let_def dest: failAll_clears split: if_splits prod.splits)
    then show ?thesis using can_reach_step[OF step] stack_drains_idle by blast
  qed
qed



end
