(* ===== verification/Rpc_System.thy ===== *)
theory Rpc_System
  imports Rpc_Client_Resend Rpc_Server_Answers
begin

section \<open>A client, a server and the network between them\<close>

text \<open>
  The composition of \<open>RpcClient\<close> and \<open>RpcServer\<close>: a client in any run, a server in any run that also serves
  other, arbitrary peers, and the connections between them. A connection keeps the order of the frames in
  each direction and delivers each at most once; when it is lost, the frames under way are gone. Client and server may run
  on hosts of different byte order.
\<close>

subsection \<open>The responses the client makes up itself\<close>

definition local_failure :: "RpcResponse \<Rightarrow> bool" where
  "local_failure r \<longleftrightarrow> (\<exists>ec msg. r = failed_response (rs_requestId r) ec msg)"

lemma local_failed [simp]: "local_failure (failed_response rid ec msg)"
  unfolding local_failure_def by auto

text \<open>Effects without a callback and without a new call, and an operation that has only such effects and will call back
  with failures of its own only.\<close>

definition silent_effects :: "('c, 'k) effect list \<Rightarrow> bool" where
  "silent_effects effs \<longleftrightarrow> calls_of effect_call effs = {#} \<and> issued effs = []"

lemma silent_simps [simp]:
  "silent_effects []" "silent_effects (log @ effs) \<longleftrightarrow> silent_effects log \<and> silent_effects effs"
  "silent_effects (Send conn bs # effs) = silent_effects effs" "silent_effects (CloseConn conn # effs) = silent_effects effs"
  "silent_effects (Broken # effs) = silent_effects effs" "silent_effects (TcpDisconnect # effs) = silent_effects effs"
  "silent_effects (TcpConnect # effs) = silent_effects effs" "silent_effects (TcpRetry b # effs) = silent_effects effs"
  "silent_effects (ConnectionReported conn # effs) = silent_effects effs" "silent_effects (ErrorReported e # effs) = silent_effects effs"
  "\<not> silent_effects (CalledBack cb r # effs)" "\<not> silent_effects (Issued rid cb # effs)"
  by (auto simp: silent_effects_def calls_of_def)

lemma silent_no_callback: "silent_effects effs \<Longrightarrow> CalledBack cb r \<notin> set effs"
  by (auto simp: silent_effects_def calls_of_def)

definition own_failures :: "('c, 'k) outcome \<Rightarrow> bool" where
  "own_failures o' \<longleftrightarrow> (case o' of (effs, tasks, cl) \<Rightarrow>
     silent_effects effs \<and> (\<forall>cb r. DoCallback cb r \<in> set tasks \<longrightarrow> local_failure r))"

lemma own_failAll: "own_failures (failAllPendingRequests ec msg cl)"
  by (auto simp: own_failures_def failAllPendingRequests_def Let_def)

lemma own_failAllDis: "own_failures (failAllDisreconnectRequests ec msg cl)"
  by (auto simp: own_failures_def failAllDisreconnectRequests_def Let_def split: prod.splits)

lemma own_callInLoop: "own_failures (callInLoop le kMax up a cl)"
proof (cases "call_accepted kMax up a cl")
  case True
  then show ?thesis by (rule callInLoop_accepted[where le = le]) (simp add: own_failures_def)
next
  case False
  from callInLoop_refused[OF this, of le] show ?thesis by (auto simp: own_failures_def refuse_call_def)
qed

lemma own_call:
  "client_call le kMax up inLoop a cl = Some (rid, effs, tasks, cl') \<Longrightarrow>
     \<exists>effs'. effs = Issued rid (ca_callback a) # effs' \<and> own_failures (effs', tasks, cl')"
  using own_callInLoop[of le kMax up "a\<lparr>ca_requestId := cl_nextRequestId cl\<rparr>" "cl\<lparr>cl_nextRequestId := cl_nextRequestId cl + 1\<rparr>"]
  by (auto simp: client_call_def own_failures_def Let_def split: if_splits prod.splits)

lemma own_sendCancel [simp]: "silent_effects (sendCancel le up rid cl)"
  by (simp add: sendCancel_def RpcCancel_encode_eq split: option.split)

lemma own_cancelInLoop: "own_failures (cancelInLoop le up now rid cl)"
  by (auto simp: own_failures_def cancelInLoop_def Let_def own_sendCancel split: option.split)

lemma own_fire_timer: "own_failures (fire_timer le up now t cl)"
  by (auto simp: own_failures_def fire_timer_def onRequestTimeout_def onReconnectTimeout_def Let_def own_sendCancel
      split: option.split timer_task.split prod.split)

lemma own_onConnection: "own_failures (onConnection up conn cl)"
  using own_failAll[of CONNECTION_CLOSED "''connect closed''" "cl\<lparr>cl_status := kDisconnected, cl_conn := None\<rparr>"]
    own_failAllDis[of CONNECTION_CLOSED "''connect closed''" "cl\<lparr>cl_status := kDisconnected, cl_conn := None\<rparr>"]
  by (auto simp: onConnection_def own_failures_def Let_def split: prod.splits if_splits)

lemma own_onConnectionError: "own_failures (onConnectionError e cl)"
  using own_failAllDis[of CONNECTION_UNAVAILABLE "''connection error''" "cl\<lparr>cl_conn := None, cl_status := kDisconnected\<rparr>"]
  by (auto simp: onConnectionError_def own_failures_def Let_def split: prod.splits if_splits)

lemma own_disconnect: "own_failures (client_disconnect cl)"
  by (auto simp: own_failures_def client_disconnect_def failAllPendingRequests_def Let_def)

text \<open>A public operation has these effects too, after the new id when it is a call.\<close>

definition own_or_call :: "('c, 'k) outcome \<Rightarrow> bool" where
  "own_or_call o' \<longleftrightarrow> (case o' of (effs, tasks, cl) \<Rightarrow>
     own_failures o' \<or> (\<exists>rid cb effs'. effs = Issued rid cb # effs' \<and> own_failures (effs', tasks, cl)))"

lemma own_or_call_call: "client_call le kMax up inLoop a cl = Some (rid, o') \<Longrightarrow> own_or_call o'"
  by (cases o') (auto simp: own_or_call_def dest: own_call)

lemma own_or_call_own: "own_failures o' \<Longrightarrow> own_or_call o'"
  by (simp add: own_or_call_def split: prod.split)

lemma own_setter [simp]: "own_failures ([], [], cl)" "own_failures (client_connect cl)"
  "own_failures (enableRetry cl)" "own_failures (disableRetry cl)"
  by (simp_all add: own_failures_def client_connect_def enableRetry_def disableRetry_def)

lemma own_api: "client_api le kMax cl o' \<Longrightarrow> own_or_call o'"
proof (induction rule: client_api.induct)
  case (api_call up a cl rid r)
  then show ?case by (rule own_or_call_call)
qed (simp_all add: own_or_call_own client_cancel_def own_cancelInLoop own_disconnect)

lemma own_remote: "client_remote le kMax cl o' \<Longrightarrow> own_or_call o'"
proof (induction rule: client_remote.induct)
  case (rm_call up a cl rid r)
  then show ?case by (rule own_or_call_call)
qed (simp add: client_cancel_def own_failures_def own_or_call_own)

lemma own_event: "client_event (\<lambda>_ _. False) le kMax cl o' \<Longrightarrow> own_failures o'"
proof (induction rule: client_event.induct)
  case (ev_functor cl f fs up now)
  then show ?case by (cases f) (simp_all add: own_callInLoop own_cancelInLoop)
qed (simp_all add: own_onConnection own_onConnectionError own_fire_timer)

text \<open>The responses that are about to be handed to a callback, or have been.\<close>

definition responses :: "('c, 'k) client_config \<Rightarrow> RpcResponse set" where
  "responses c = (case c of (cl, stack, log) \<Rightarrow>
     {r. \<exists>cb. DoCallback cb r \<in> set stack \<or> CalledBack cb r \<in> set log})"

lemma responses_own:
  "own_or_call (effs, tasks, cl') \<Longrightarrow>
     responses (cl', tasks @ stack, log @ effs) \<subseteq> responses (cl, stack, log) \<union> Collect local_failure"
  by (auto simp: own_or_call_def own_failures_def responses_def dest: silent_no_callback)

lemma responses_task:
  assumes "run_task le up t cl = (effs, tasks, cl')"
  shows "responses (cl', tasks @ stack, log @ effs) \<subseteq> responses (cl, t # stack, log) \<union> Collect local_failure"
proof (cases t)
  case (DoCallback cb r)
  with assms show ?thesis by (auto simp: responses_def)
next
  case (ResendLoop conn items)
  have "own_failures (effs, tasks, cl')"
    using assms ResendLoop
    by (cases items) (auto simp: own_failures_def resend_one_def Let_def split: if_splits option.splits prod.splits)
  from responses_own[OF own_or_call_own[OF this]] ResendLoop show ?thesis by (fastforce simp: responses_def)
qed (use assms in \<open>auto simp: responses_def split: if_splits\<close>)

lemma responses_step:
  "client_step_from (\<lambda>_ _. False) le kMax c c' \<Longrightarrow> responses c' \<subseteq> responses c \<union> Collect local_failure"
proof (induction rule: client_step_from.induct)
  case (st_event cl effs tasks cl' log)
  from responses_own[OF own_or_call_own[OF own_event[OF st_event]], of "[]"] show ?case by simp
next
  case (st_return cl stack log)
  show ?case by (auto simp: responses_def)
qed (erule responses_own[OF own_api] responses_own[OF own_remote] responses_task)+

lemma responses_message:
  assumes "client_onRpcMessage le kMax conn msg cl = (effs, tasks, cl')"
  shows "responses (cl', tasks, log @ effs) \<subseteq> responses (cl, [], log) \<union> {r. response_valid r \<and> msg = response_wire r}"
proof (cases "\<exists>r. takes_response kMax cl r \<and> msg = response_wire r")
  case False
  then have "client_onRpcMessage le kMax conn msg cl = ([CloseConn conn], [], cl)"
    by (intro onRpcMessage_malformed) blast
  with assms show ?thesis by (auto simp: responses_def)
next
  case True
  then obtain r where r: "takes_response kMax cl r" "msg = response_wire r" by blast
  with assms onRpcMessage_response[OF r(1), of le conn] show ?thesis
    by (auto simp: responses_def takes_response_def split: option.splits if_splits)
qed

subsection \<open>The system\<close>

text \<open>The server's connections: those of the client, named as the client names them, and all others.\<close>

datatype ('c, 'd) peer = Ours 'c | Other 'd

text \<open>The frames under way in each direction, in the order they were sent, and the frames of the client that
  the server has received.\<close>

record ('c, 'd, 'k, 'h, 'w) system =
  sy_client :: "('c, 'k) client_config"
  sy_server :: "(('c, 'd) peer, 'h, 'w) server_config"
  sy_toServer :: "('c \<times> string) list"
  sy_toClient :: "('c \<times> string) list"
  sy_received :: "('c \<times> string) list"

fun sent_frame :: "('c, 'k) effect \<Rightarrow> ('c \<times> string) list" where
  "sent_frame (Send conn bs) = [(conn, bs)]"
| "sent_frame _ = []"

fun reply_frame :: "nat option \<times> ('c, 'd) peer action \<Rightarrow> ('c \<times> string) list" where
  "reply_frame (src, SendFrame (Ours conn) bs) = [(conn, bs)]"
| "reply_frame _ = []"

definition sent_frames :: "('c, 'k) effect list \<Rightarrow> ('c \<times> string) list" where
  "sent_frames effs = concat (map sent_frame effs)"

definition reply_frames :: "('c, 'd) peer action_log \<Rightarrow> ('c \<times> string) list" where
  "reply_frames log = concat (map reply_frame log)"

text \<open>Client and server with what they have just done handed to the network.\<close>

definition client_now :: "('c, 'k) client_config \<Rightarrow> ('c, 'k) effect list \<Rightarrow> ('c, 'd, 'k, 'h, 'w) system \<Rightarrow> ('c, 'd, 'k, 'h, 'w) system" where
  "client_now c effs y = y\<lparr>sy_client := c, sy_toServer := sy_toServer y @ sent_frames effs\<rparr>"

definition server_now ::
  "(('c, 'd) peer, 'h, 'w) server_config \<Rightarrow> ('c, 'd) peer action_log \<Rightarrow> ('c, 'd, 'k, 'h, 'w) system \<Rightarrow> ('c, 'd, 'k, 'h, 'w) system" where
  "server_now c acts y = y\<lparr>sy_server := c, sy_toClient := sy_toClient y @ reply_frames acts\<rparr>"

text \<open>The steps: what the client does by itself, the client receives the first frame of a connection, the same for
  the server, another peer sends the server any message, and a connection loses the frames under way. \<open>lc\<close> and \<open>ls\<close>
  are the byte orders, \<open>R\<close> what the asynchronous handlers may reply.\<close>

inductive system_step ::
  "bool \<Rightarrow> bool \<Rightarrow> nat \<Rightarrow> ('h \<Rightarrow> string \<Rightarrow> RpcResult \<Rightarrow> bool) \<Rightarrow>
     ('c, 'd, 'k, 'h, 'w) system \<Rightarrow> ('c, 'd, 'k, 'h, 'w) system \<Rightarrow> bool" for lc ls kMax R where
  sy_client_moves: "sy_client y = (cl, stack, log) \<Longrightarrow>
    client_step_from (\<lambda>_ _. False) lc kMax (cl, stack, log) (cl', stack', log @ effs) \<Longrightarrow>
    system_step lc ls kMax R y (client_now (cl', stack', log @ effs) effs y)"
| sy_client_receives: "sy_client y = (cl, [], log) \<Longrightarrow>
    sy_toClient y = fs @ (conn, bs) # fs' \<Longrightarrow> conn \<notin> fst ` set fs \<Longrightarrow>
    client_onRpcMessage lc kMax conn bs cl = (effs, tasks, cl') \<Longrightarrow>
    system_step lc ls kMax R y (client_now (cl', tasks, log @ effs) effs (y\<lparr>sy_toClient := fs @ fs'\<rparr>))"
| sy_server_moves: "sy_server y = (s, log) \<Longrightarrow>
    server_step_from (\<lambda>_ _. False) R ls kMax (s, log) (s', log @ acts) \<Longrightarrow>
    system_step lc ls kMax R y (server_now (s', log @ acts) acts y)"
| sy_server_receives: "sy_server y = (s, log) \<Longrightarrow> sv_status s \<noteq> kNotStarted \<Longrightarrow>
    sy_toServer y = fs @ (conn, bs) # fs' \<Longrightarrow> conn \<notin> fst ` set fs \<Longrightarrow>
    server_onRpcMessage ls kMax up (Ours conn) bs s = (acts, s') \<Longrightarrow>
    system_step lc ls kMax R y (server_now (s', log @ map (Pair None) acts) (map (Pair None) acts)
      (y\<lparr>sy_toServer := fs @ fs', sy_received := sy_received y @ [(conn, bs)]\<rparr>))"
| sy_server_other: "sy_server y = (s, log) \<Longrightarrow> sv_status s \<noteq> kNotStarted \<Longrightarrow>
    server_onRpcMessage ls kMax up (Other d) msg s = (acts, s') \<Longrightarrow>
    system_step lc ls kMax R y (server_now (s', log @ map (Pair None) acts) (map (Pair None) acts) y)"
| sy_lost: "system_step lc ls kMax R y
    (y\<lparr>sy_toServer := filter (\<lambda>f. fst f \<noteq> conn) (sy_toServer y),
       sy_toClient := filter (\<lambda>f. fst f \<noteq> conn) (sy_toClient y)\<rparr>)"

definition system_new :: "'w \<Rightarrow> ('c, 'd, 'k, 'h, 'w) system" where
  "system_new w = \<lparr>sy_client = (RpcClient_new, [], []), sy_server = (RpcServer_new w, []), sy_toServer = [],
     sy_toClient = [], sy_received = []\<rparr>"

definition system_init :: "('c, 'd, 'k, 'h, 'w) system \<Rightarrow> bool" where
  "system_init y \<longleftrightarrow> (\<exists>w. y = system_new w)"

definition system_reachable ::
  "bool \<Rightarrow> bool \<Rightarrow> nat \<Rightarrow> ('h \<Rightarrow> string \<Rightarrow> RpcResult \<Rightarrow> bool) \<Rightarrow> ('c, 'd, 'k, 'h, 'w) system \<Rightarrow> bool" where
  "system_reachable lc ls kMax R y \<longleftrightarrow> (\<exists>w. (system_step lc ls kMax R)\<^sup>*\<^sup>* (system_new w) y)"

lemma now_sel [simp]:
  "sy_client (client_now c effs y) = c" "sy_server (client_now c effs y) = sy_server y"
  "sy_toServer (client_now c effs y) = sy_toServer y @ sent_frames effs" "sy_toClient (client_now c effs y) = sy_toClient y"
  "sy_received (client_now c effs y) = sy_received y"
  "sy_server (server_now sc acts y) = sc" "sy_client (server_now sc acts y) = sy_client y"
  "sy_toClient (server_now sc acts y) = sy_toClient y @ reply_frames acts" "sy_toServer (server_now sc acts y) = sy_toServer y"
  "sy_received (server_now sc acts y) = sy_received y"
  by (simp_all add: client_now_def server_now_def)

lemma frames_simps [simp]:
  "sent_frames [] = []" "sent_frames (log @ effs) = sent_frames log @ sent_frames effs"
  "sent_frames (e # effs) = sent_frame e @ sent_frames effs"
  "reply_frames [] = []" "reply_frames (slog @ acts) = reply_frames slog @ reply_frames acts"
  "reply_frames (a # acts) = reply_frame a @ reply_frames acts"
  by (simp_all add: sent_frames_def reply_frames_def)

subsection \<open>Client and server in the system\<close>

text \<open>In the system, client and server only do what they can do by themselves, so everything shown of their runs
  holds here.\<close>

lemma system_step_client: "system_step lc ls kMax R y y' \<Longrightarrow> (client_step lc kMax)\<^sup>*\<^sup>* (sy_client y) (sy_client y')"
proof (induction rule: system_step.induct)
  case (sy_client_moves y cl stack log cl' stack' effs)
  then show ?case using client_step_from_step by fastforce
next
  case (sy_client_receives y cl log fs conn bs fs' effs tasks cl')
  have "client_event (\<lambda>_ _. True) lc kMax cl (effs, tasks, cl')"
    unfolding sy_client_receives(4)[symmetric] by (rule ev_message) simp
  with st_event[OF this, of log] sy_client_receives(1) show ?case by simp
qed simp_all

lemma system_step_server: "system_step lc ls kMax R y y' \<Longrightarrow> (server_step ls kMax)\<^sup>*\<^sup>* (sy_server y) (sy_server y')"
proof (induction rule: system_step.induct)
  case (sy_server_moves y s log s' acts)
  then show ?case using server_step_from_step by fastforce
next
  case (sy_server_receives y s log fs conn bs fs' up acts s')
  with sv_message[OF sy_server_receives(2,5), of "\<lambda>_ _. True"] show ?case by fastforce
next
  case (sy_server_other y s log up d msg acts s')
  with sv_message[OF sy_server_other(2,3), of "\<lambda>_ _. True"] show ?case by fastforce
qed simp_all

lemma system_steps_client: "(system_step lc ls kMax R)\<^sup>*\<^sup>* y y' \<Longrightarrow> (client_step lc kMax)\<^sup>*\<^sup>* (sy_client y) (sy_client y')"
  by (induction rule: rtranclp_induct) (auto dest: system_step_client)

lemma system_steps_server: "(system_step lc ls kMax R)\<^sup>*\<^sup>* y y' \<Longrightarrow> (server_step ls kMax)\<^sup>*\<^sup>* (sy_server y) (sy_server y')"
  by (induction rule: rtranclp_induct) (auto dest: system_step_server)

subsection \<open>The invariant of the system\<close>

text \<open>The server has received the request on the connection; of other peers anything may have come.\<close>

definition received_on :: "('c, 'd, 'k, 'h, 'w) system \<Rightarrow> ('c, 'd) peer \<Rightarrow> RpcRequest \<Rightarrow> bool" where
  "received_on y p rq \<longleftrightarrow> request_valid rq \<and>
     (case p of Ours conn \<Rightarrow> (conn, request_wire rq) \<in> set (sy_received y) | Other _ \<Rightarrow> True)"

text \<open>A response that the client made up itself, or that answers a request the server has received from it.\<close>

definition explained ::
  "('h \<Rightarrow> string \<Rightarrow> RpcResult \<Rightarrow> bool) \<Rightarrow> nat \<Rightarrow> ('c, 'd, 'k, 'h, 'w) system \<Rightarrow> RpcResponse \<Rightarrow> bool" where
  "explained R kMax y r \<longleftrightarrow> local_failure r \<or>
     (\<exists>conn rq. received_on y (Ours conn) rq \<and> answers R kMax (fst (sy_server y)) rq r)"

definition wires_ok :: "('c, 'd, 'k, 'h, 'w) system \<Rightarrow> bool" where
  "wires_ok y \<longleftrightarrow>
     mset (sy_received y) + mset (sy_toServer y) \<subseteq># mset (sent_frames (snd (snd (sy_client y)))) \<and>
     set (sy_toClient y) \<subseteq> set (reply_frames (snd (sy_server y)))"

definition system_inv :: "('h \<Rightarrow> string \<Rightarrow> RpcResult \<Rightarrow> bool) \<Rightarrow> nat \<Rightarrow> ('c, 'd, 'k, 'h, 'w) system \<Rightarrow> bool" where
  "system_inv R kMax y \<longleftrightarrow> server_inv kMax (sy_server y) \<and> wires_ok y \<and>
     answered (received_on y) R kMax (sy_server y) \<and>
     (sv_status (fst (sy_server y)) = kNotStarted \<longrightarrow> sy_received y = []) \<and>
     (\<forall>r \<in> responses (sy_client y). explained R kMax y r)"

lemma system_inv_init: "system_init y \<Longrightarrow> system_inv R kMax y"
  using server_inv_init[of "(RpcServer_new w, [])" kMax for w]
  by (auto simp: system_init_def system_inv_def system_new_def server_init_def wires_ok_def answered_def responses_def
      RpcServer_new_def)

lemma reply_frames_in: "(conn, bs) \<in> set (reply_frames log) \<longleftrightarrow> SendFrame (Ours conn) bs \<in> snd ` set log"
proof (induction log)
  case (Cons e log)
  have "(conn, bs) \<in> set (reply_frame e) \<longleftrightarrow> SendFrame (Ours conn) bs = snd e"
    by (cases e rule: reply_frame.cases) auto
  with Cons show ?case by auto
qed simp

lemma explained_frame:
  assumes "sy_server y' = sy_server y" and "sy_received y' = sy_received y"
  shows "explained R kMax y' = explained R kMax y" and "received_on y' = received_on y"
  using assms by (simp_all add: explained_def received_on_def fun_eq_iff split: peer.split)

text \<open>A frame that reaches the client is an answer of the server.\<close>

lemma frame_explained:
  assumes inv: "system_inv R kMax y" and frame: "(conn, bs) \<in> set (sy_toClient y)"
    and r: "response_valid r" "bs = response_wire r"
  shows "explained R kMax y r"
proof -
  obtain s log where s: "sy_server y = (s, log)" by fastforce
  from inv have ans: "answered (received_on y) R kMax (s, log)" and "set (sy_toClient y) \<subseteq> set (reply_frames log)"
    by (simp_all add: system_inv_def wires_ok_def s)
  then have "(conn, bs) \<in> set (reply_frames log)" using frame by blast
  then have "SendFrame (Ours conn) bs \<in> snd ` set log" by (rule reply_frames_in[THEN iffD1])
  from answered_parts(3)[OF ans this] obtain rq r' where "received_on y (Ours conn) rq" "bs = response_wire r'" "response_valid r'" "answers R kMax s rq r'"
    unfolding frame_from_def by blast
  moreover from this r have "r' = r" by (metis response_codec.enc_inj)
  ultimately show ?thesis unfolding explained_def s fst_conv by blast
qed

lemma system_inv_client:
  assumes inv: "system_inv R kMax y" and y: "sy_client y = (cl, stack, log)"
    and y0: "sy_client y0 = sy_client y" "sy_server y0 = sy_server y" "sy_toServer y0 = sy_toServer y"
      "sy_received y0 = sy_received y" "set (sy_toClient y0) \<subseteq> set (sy_toClient y)"
    and new: "\<And>r. r \<in> responses (cl', stack', log @ effs) \<Longrightarrow> r \<in> responses (cl, stack, log) \<or> explained R kMax y r"
  shows "system_inv R kMax (client_now (cl', stack', log @ effs) effs y0)"
proof -
  let ?y = "client_now (cl', stack', log @ effs) effs y0"
  have same: "explained R kMax ?y = explained R kMax y" "received_on ?y = received_on y"
    by (rule explained_frame; use y0 in simp)+
  have "wires_ok ?y"
    using inv y y0 by (auto simp: system_inv_def wires_ok_def add.assoc[symmetric] intro: subset_mset.add_mono)
  with inv y y0 new show ?thesis unfolding system_inv_def same by auto
qed

text \<open>The server: its old answers stay answers, because its tables are fixed once it has received anything.\<close>

lemma explained_mono:
  assumes "explained R kMax y r" and "set (sy_received y) \<subseteq> set (sy_received y')"
    and "sy_received y \<noteq> [] \<Longrightarrow> same_tables (fst (sy_server y)) (fst (sy_server y'))"
  shows "explained R kMax y' r"
proof (cases "local_failure r")
  case False
  then obtain conn rq where rq: "received_on y (Ours conn) rq" "answers R kMax (fst (sy_server y)) rq r"
    using assms(1) by (auto simp: explained_def)
  then have "sy_received y \<noteq> []" by (auto simp: received_on_def)
  from answers_cong(2)[OF assms(3)[OF this]] rq assms(2) show ?thesis
    by (auto simp: explained_def received_on_def)
qed (simp add: explained_def)

lemma system_inv_server:
  assumes inv: "system_inv R kMax y" and y: "sy_server y = (s, log)"
    and step: "server_step ls kMax (s, log) (s', log @ acts)"
    and y0: "sy_client y0 = sy_client y" "sy_server y0 = sy_server y" "sy_toClient y0 = sy_toClient y"
      "set (sy_received y) \<subseteq> set (sy_received y0)"
      "mset (sy_received y0) + mset (sy_toServer y0) \<subseteq># mset (sy_received y) + mset (sy_toServer y)"
    and started: "sy_received y0 \<noteq> sy_received y \<Longrightarrow> sv_status s \<noteq> kNotStarted"
    and ans: "answered (received_on y0) R kMax (s', log @ acts)"
  shows "system_inv R kMax (server_now (s', log @ acts) acts y0)"
proof -
  let ?y = "server_now (s', log @ acts) acts y0"
  have tables: "same_tables s s' \<and> sv_status s' \<noteq> kNotStarted" if "sv_status s \<noteq> kNotStarted"
    using step_tables[OF step that] .
  have none: "sv_status s = kNotStarted \<longrightarrow> sy_received y = []" using inv by (simp add: system_inv_def y)
  have recv: "received_on ?y = received_on y0" by (simp add: received_on_def fun_eq_iff split: peer.split)
  have "server_inv kMax (s', log @ acts)"
    using server_inv_step[OF step] inv by (simp add: system_inv_def y)
  moreover have "wires_ok ?y"
    using inv y y0(1,3) subset_mset.trans[OF y0(5)] by (auto simp: system_inv_def wires_ok_def)
  moreover have "sv_status s' = kNotStarted \<longrightarrow> sy_received ?y = []"
  proof
    assume "sv_status s' = kNotStarted"
    then have "sv_status s = kNotStarted" using tables by blast
    with none started show "sy_received ?y = []" by fastforce
  qed
  moreover have "explained R kMax ?y r" if "explained R kMax y r" for r
    by (rule explained_mono[OF that]) (use y y0 tables none in auto)
  then have "\<forall>r \<in> responses (sy_client ?y). explained R kMax ?y r"
    using inv y0(1) by (simp add: system_inv_def)
  ultimately show ?thesis using ans unfolding system_inv_def recv by simp
qed

lemma system_inv_step:
  assumes "system_step lc ls kMax R y y'" and inv: "system_inv R kMax y"
  shows "system_inv R kMax y'"
  using assms(1)
proof (cases rule: system_step.cases)
  case (sy_client_moves cl stack log cl' stack' effs)
  have "r \<in> responses (cl, stack, log) \<or> explained R kMax y r" if "r \<in> responses (cl', stack', log @ effs)" for r
    using responses_step[OF sy_client_moves(3)] that by (auto simp: explained_def)
  then show ?thesis unfolding sy_client_moves(1) by (intro system_inv_client[OF inv sy_client_moves(2)]) simp_all
next
  case (sy_client_receives cl log fs conn bs fs' effs tasks cl')
  have "r \<in> responses (cl, [], log) \<or> explained R kMax y r" if "r \<in> responses (cl', tasks, log @ effs)" for r
    using responses_message[OF sy_client_receives(5), of log] that frame_explained[OF inv, of conn bs r] sy_client_receives(3)
    by auto
  then show ?thesis unfolding sy_client_receives(1)
    by (intro system_inv_client[OF inv sy_client_receives(2)]) (auto simp: sy_client_receives(3))
next
  case (sy_server_moves s log s' acts)
  have async: "async_inv kMax (s, log)" and ans: "answered (received_on y) R kMax (s, log)"
    using inv by (simp_all add: system_inv_def server_inv_def sy_server_moves(2))
  have "answered (received_on y) R kMax (s', log @ acts)"
    by (rule answered_step[OF sy_server_moves(3) async ans]) simp
  then show ?thesis unfolding sy_server_moves(1)
    by (intro system_inv_server[OF inv sy_server_moves(2) server_step_from_step[OF sy_server_moves(3)]]) simp_all
next
  case (sy_server_receives s log fs conn bs fs' up acts s')
  let ?y = "y\<lparr>sy_toServer := fs @ fs', sy_received := sy_received y @ [(conn, bs)]\<rparr>"
  have "received_on y p rq \<Longrightarrow> received_on ?y p rq" for p rq by (auto simp: received_on_def split: peer.splits)
  with inv have ans: "answered (received_on ?y) R kMax (s, log)"
    by (auto simp: system_inv_def sy_server_receives(2) intro: answered_mono)
  have "answered (received_on ?y) R kMax (s', log @ map (Pair None) acts)"
    by (rule answered_message[OF ans sy_server_receives(6)]) (simp add: received_on_def)
  moreover have "server_step ls kMax (s, log) (s', log @ map (Pair None) acts)"
    using sy_server_receives(3,6) by (rule sv_message) simp
  ultimately show ?thesis unfolding sy_server_receives(1)
    by (intro system_inv_server[OF inv sy_server_receives(2)]) (auto simp: sy_server_receives(3,4))
next
  case (sy_server_other s log up d msg acts s')
  have ans: "answered (received_on y) R kMax (s, log)" using inv by (simp add: system_inv_def sy_server_other(2))
  have "answered (received_on y) R kMax (s', log @ map (Pair None) acts)"
    by (rule answered_message[OF ans sy_server_other(4)]) (simp add: received_on_def)
  moreover have "server_step ls kMax (s, log) (s', log @ map (Pair None) acts)"
    using sy_server_other(3,4) by (rule sv_message) simp
  ultimately show ?thesis unfolding sy_server_other(1)
    by (intro system_inv_server[OF inv sy_server_other(2)]) simp_all
next
  case (sy_lost conn)
  have same: "explained R kMax y' = explained R kMax y" "received_on y' = received_on y"
    unfolding sy_lost by (rule explained_frame; simp)+
  from inv have wires: "wires_ok y" by (simp add: system_inv_def)
  have "mset (sy_toServer y') \<subseteq># mset (sy_toServer y)" by (simp add: sy_lost)
  from subset_mset.order_trans[OF subset_mset.add_left_mono[OF this]] wires have "wires_ok y'"
    by (auto simp: wires_ok_def sy_lost)
  then show ?thesis using inv unfolding system_inv_def same by (simp add: sy_lost)
qed

interpretation system: invariant_system system_init "system_step lc ls kMax R" "system_inv R kMax" for lc ls kMax R
  by unfold_locales (auto intro: system_inv_init system_inv_step)

lemma system_reachable_inv: "system_reachable lc ls kMax R y \<Longrightarrow> system_inv R kMax y"
  unfolding system_reachable_def by (metis system.inv_reachable system_init_def)

lemma system_reachable_client: "system_reachable lc ls kMax R y \<Longrightarrow> client_reachable lc kMax (sy_client y)"
  using system_steps_client unfolding system_reachable_def client_reachable_def
  by (fastforce simp: system_new_def dest: system_steps_client)

subsection \<open>What a call gets\<close>

text \<open>The callback of an id that was issued is the one it was issued with.\<close>

lemma issued_callback:
  assumes "client_inv kMax (cl, stack, log)" and "below_wrap log"
    and "(rid, cb) \<in> set (issued log)" and "CalledBack cb' r \<in> set log" and "rs_requestId r = rid"
  shows "cb' = cb"
proof -
  have parts: "ids_ok (cl_nextRequestId cl) log" "flow_ok (cl, stack, log)"
    using assms(1,2) by (simp_all add: client_inv_def)
  have "(rid, cb') \<in># calls_of effect_call log" using assms(4,5) by (force simp: calls_of_def)
  then have "(rid, cb') \<in># mset (issued log)" using parts(2) by (simp add: flow_ok_def)
  then have "(rid, cb') \<in> set (issued log)" by simp
  with assms(3) ids_distinct[OF parts(1) assms(2)] show ?thesis by (metis eq_key_imp_eq_value)
qed

text \<open>The system after a call of the client: the invariants, and that the request is sent as called.\<close>

lemma system_called:
  assumes reach: "system_reachable lc ls kMax R y" and y: "sy_client y = (cl, stack, log)"
    and call: "client_call lc kMax up inLoop a cl = Some (rid, effs, tasks, cl1)"
    and run: "(system_step lc ls kMax R)\<^sup>*\<^sup>* (client_now (cl1, tasks @ stack, log @ effs) effs y) y'"
    and y': "sy_client y' = (cl', stack', log')" and wrap: "below_wrap log'"
  shows "system_inv R kMax y'" and "client_inv kMax (cl', stack', log')"
    and "carries rid (call_request (a\<lparr>ca_requestId := rid\<rparr>)) (cl', stack', log')"
    and "inLoop \<Longrightarrow> within rid (1 + unat (case ca_resendLimit a of None \<Rightarrow> cl_defaultResendLimit cl | Some n \<Rightarrow> n))
      (cl', stack', log')"
    and "(rid, ca_callback a) \<in> set (issued log')"
proof -
  let ?c = "(cl1, tasks @ stack, log @ effs)"
  have steps: "(client_step lc kMax)\<^sup>*\<^sup>* ?c (cl', stack', log')"
    using system_steps_client[OF run] y' by simp
  have early: "below_wrap (log @ effs)" using steps_below_wrap[OF steps] wrap by simp
  have "client_reachable lc kMax (cl, stack, log)" using system_reachable_client[OF reach] y by simp
  note now = called[OF this call early]
  have wrap': "below_wrap (snd (snd (cl', stack', log')))" using wrap by simp
  show "client_inv kMax (cl', stack', log')" using now(1) by (rule client.inv_steps[OF steps])
  show "carries rid (call_request (a\<lparr>ca_requestId := rid\<rparr>)) (cl', stack', log')"
    by (rule carries_run[OF steps now(1) wrap' now(2)])
  show "within rid (1 + unat (case ca_resendLimit a of None \<Rightarrow> cl_defaultResendLimit cl | Some n \<Rightarrow> n))
      (cl', stack', log')" if inLoop
    by (rule within_run[OF steps now(1) wrap' now(3)[OF that]])
  show "(rid, ca_callback a) \<in> set (issued log')"
  proof (rule run_keeps[OF steps now(1) wrap', where P = "\<lambda>(cl, stack, log). (rid, ca_callback a) \<in> set (issued log)", simplified])
    show "(rid, ca_callback a) \<in> set (issued log) \<or> (rid, ca_callback a) \<in> set (issued effs)"
      using call_effects[OF call] by auto
  qed (use step_log in fastforce)
  have "system_inv R kMax (client_now ?c effs y)"
  proof (rule system_inv_client[OF system_reachable_inv[OF reach] y])
    show "r \<in> responses (cl, stack, log) \<or> explained R kMax y r" if "r \<in> responses ?c" for r
      using responses_own[OF own_or_call_call[OF call], of stack log cl] that by (auto simp: explained_def)
  qed simp_all
  then show "system_inv R kMax y'" by (rule system.inv_steps[OF run])
qed

lemma sent_frames_in: "(conn, bs) \<in> set (sent_frames log) \<longleftrightarrow> Send conn bs \<in> set log"
proof (induction log)
  case (Cons e log)
  then show ?case by (cases e) auto
qed simp

lemma received_sub:
  assumes "system_inv R kMax y" and "sy_client y = (cl, stack, log)"
  shows "mset (sy_received y) \<subseteq># mset (sent_frames log)"
  using assms subset_mset.order_trans[OF mset_subset_eq_add_left] by (auto simp: system_inv_def wires_ok_def)

text \<open>A response with the id of a request that is sent as called is an answer to it.\<close>

lemma answer_to_call:
  assumes inv: "system_inv R kMax y" and y: "sy_client y = (cl, stack, log)" and carries: "carries rid rq (cl, stack, log)"
    and r: "CalledBack cb r \<in> set log" "rs_requestId r = rid"
  shows "local_failure r \<or> answers R kMax (fst (sy_server y)) rq r"
proof -
  have "explained R kMax y r" using inv y r(1) by (auto simp: system_inv_def responses_def)
  then show ?thesis
  proof (unfold explained_def, elim disjE exE conjE)
    fix conn rq' assume rq': "received_on y (Ours conn) rq'" "answers R kMax (fst (sy_server y)) rq' r"
    have "rq_requestId rq' = rid" using answers_id[OF rq'(2)] r(2) by simp
    moreover have valid: "request_valid rq'" using rq'(1) by (simp add: received_on_def)
    ultimately have id: "request_id_of (request_wire rq') = Some rid" using request_id_of_wire by simp
    have "(conn, request_wire rq') \<in> set (sent_frames log)"
      using received_sub[OF inv y] rq'(1) mset_subset_eqD by (fastforce simp: received_on_def)
    then have "Send conn (request_wire rq') \<in> set log" by (rule sent_frames_in[THEN iffD1])
    with carries id have "request_wire rq' = request_wire rq" "request_valid rq"
      unfolding carries_def prod.case by blast+
    with valid have "rq' = rq" by (metis request_codec.enc_inj)
    with rq'(2) show ?thesis by simp
  qed simp
qed

text \<open>C2: a callback of the client gets what the server says, or a failure of the client itself. However client,
  server, other peers, handlers and the network go on after a call, from any state they can
  reach: when a callback is made with the id of the call, it is the callback of that call, and
  the response is either a failure the client made up itself, or an answer of the server to
  exactly the request that was called: the checked result of the handler registered for its service and method on
  its payload, or a failure of the server. So no answer ever reaches the callback of another request, and
  none is made up or changed on the way, whatever the other peers of the server do.\<close>

theorem system_answers_authentic:
  assumes "system_reachable lc ls kMax R y" and "sy_client y = (cl, stack, log)"
    and "client_call lc kMax up inLoop a cl = Some (rid, effs, tasks, cl1)"
    and "(system_step lc ls kMax R)\<^sup>*\<^sup>* (client_now (cl1, tasks @ stack, log @ effs) effs y) y'"
    and "sy_client y' = (cl', stack', log')" and "below_wrap log'"
    and "CalledBack cb r \<in> set log'" and "rs_requestId r = rid"
  shows "cb = ca_callback a \<and> (local_failure r \<or>
    answers R kMax (fst (sy_server y')) (call_request (a\<lparr>ca_requestId := rid\<rparr>)) r)"
proof
  note now = system_called[OF assms(1-6)]
  show "cb = ca_callback a" by (rule issued_callback[OF now(2) assms(6) now(5) assms(7,8)])
  show "local_failure r \<or> answers R kMax (fst (sy_server y')) (call_request (a\<lparr>ca_requestId := rid\<rparr>)) r"
    using now(1) assms(5) now(3) assms(7,8) by (rule answer_to_call)
qed

lemma sent_frames_of: "length (filter (\<lambda>f. request_id_of (snd f) = Some rid) (sent_frames log)) = sends_of rid log"
proof (induction log)
  case (Cons e log)
  then show ?case by (cases e) simp_all
qed simp

lemma received_le:
  assumes "system_inv R kMax y" and "sy_client y = (cl, stack, log)"
  shows "length (filter P (sy_received y)) \<le> length (filter P (sent_frames log))"
  using size_mset_mono[OF multiset_filter_mono[OF received_sub[OF assms], of P]] by (simp flip: mset_filter)

text \<open>C12: a request reaches the server at most once for every attempt it was given, plus the first time. After a
  call in the thread of the loop the frames of this request that the server ever receives are, over all
  connections of the client, at most one more than the resend limit of the call, or the default limit
  when the call names none; so its handler is run for this call at most that often.\<close>

theorem system_executions_bounded:
  assumes "system_reachable lc ls kMax R y" and "sy_client y = (cl, stack, log)"
    and "client_call lc kMax up True a cl = Some (rid, effs, tasks, cl1)"
    and "(system_step lc ls kMax R)\<^sup>*\<^sup>* (client_now (cl1, tasks @ stack, log @ effs) effs y) y'"
    and "sy_client y' = (cl', stack', log')" and "below_wrap log'"
  shows "length (filter (\<lambda>f. request_id_of (snd f) = Some rid) (sy_received y')) \<le>
    1 + unat (case ca_resendLimit a of None \<Rightarrow> cl_defaultResendLimit cl | Some n \<Rightarrow> n)"
proof -
  note now = system_called[OF assms(1-6)]
  from received_le[OF now(1) assms(5)] have "length (filter (\<lambda>f. request_id_of (snd f) = Some rid) (sy_received y')) \<le> sends_of rid log'"
    unfolding sent_frames_of[symmetric] .
  also have "\<dots> \<le> 1 + unat (case ca_resendLimit a of None \<Rightarrow> cl_defaultResendLimit cl | Some n \<Rightarrow> n)"
    using now(4) by (simp add: within_def)
  finally show ?thesis .
qed

subsection \<open>Executing a schedule of the system\<close>

text \<open>The first frame of a connection, and the frames without it.\<close>

fun take_frame :: "'c \<Rightarrow> ('c \<times> string) list \<Rightarrow> (string \<times> ('c \<times> string) list) option" where
  "take_frame conn [] = None"
| "take_frame conn (f # fs) =
     (if fst f = conn then Some (snd f, fs) else map_option (apsnd ((#) f)) (take_frame conn fs))"

lemma take_frame_split:
  "take_frame conn fs = Some (bs, rest) \<Longrightarrow> \<exists>us vs. fs = us @ (conn, bs) # vs \<and> rest = us @ vs \<and> conn \<notin> fst ` set us"
proof (induction fs arbitrary: rest)
  case (Cons f fs)
  show ?case
  proof (cases "fst f = conn")
    case True
    with Cons.prems show ?thesis by (intro exI[of _ "[]"] exI[of _ fs]) auto
  next
    case False
    with Cons.prems obtain rest' where "take_frame conn fs = Some (bs, rest')" and rest: "rest = f # rest'" by auto
    then obtain us vs where "fs = us @ (conn, bs) # vs" "rest' = us @ vs" "conn \<notin> fst ` set us" using Cons.IH by blast
    with False rest show ?thesis by (intro exI[of _ "f # us"] exI[of _ vs]) auto
  qed
qed simp

datatype ('c, 'd, 'k, 'h) system_ev =
  Y_client "('c, 'k) client_ev" | Y_server "(('c, 'd) peer, 'h) server_event" | Y_toServer 'c | Y_toClient 'c | Y_lost 'c

fun client_alone :: "('c, 'k) client_ev \<Rightarrow> bool" where
  "client_alone (C_message conn msg) = False"
| "client_alone _ = True"

fun server_alone :: "('h \<Rightarrow> string \<Rightarrow> RpcResult \<Rightarrow> bool) \<Rightarrow> ('c, 'h, 'w) server \<Rightarrow> ('c, 'h) server_event \<Rightarrow> bool" where
  "server_alone R s (E_message conn msg) = False"
| "server_alone R s (E_reply i res) = R (ac_handler (sv_calls s ! i)) (ac_payload (sv_calls s ! i)) res"
| "server_alone R s _ = True"

fun system_exec ::
  "bool \<Rightarrow> bool \<Rightarrow> nat \<Rightarrow> ('h \<Rightarrow> string \<Rightarrow> RpcResult \<Rightarrow> bool) \<Rightarrow> ('c, 'd, 'k, 'h) system_ev \<Rightarrow>
     ('c, 'd, 'k, 'h, 'w) system \<Rightarrow> ('c, 'd, 'k, 'h, 'w) system option" where
  "system_exec lc ls kMax R (Y_client e) y =
     (if client_alone e
      then map_option (\<lambda>c. client_now c (drop (length (snd (snd (sy_client y)))) (snd (snd c))) y) (client_exec lc kMax e (sy_client y))
      else None)"
| "system_exec lc ls kMax R (Y_server e) y =
     (if server_alone R (fst (sy_server y)) e
      then map_option (\<lambda>c. server_now c (drop (length (snd (sy_server y))) (snd c)) y) (server_exec ls kMax e (sy_server y))
      else None)"
| "system_exec lc ls kMax R (Y_toServer conn) y =
     (if sv_status (fst (sy_server y)) = kNotStarted then None
      else map_option (\<lambda>(bs, fs).
        case server_onRpcMessage ls kMax (\<lambda>_. True) (Ours conn) bs (fst (sy_server y)) of (acts, s') \<Rightarrow>
          server_now (s', snd (sy_server y) @ map (Pair None) acts) (map (Pair None) acts)
            (y\<lparr>sy_toServer := fs, sy_received := sy_received y @ [(conn, bs)]\<rparr>))
        (take_frame conn (sy_toServer y)))"
| "system_exec lc ls kMax R (Y_toClient conn) y =
     (if fst (snd (sy_client y)) \<noteq> [] then None
      else map_option (\<lambda>(bs, fs).
        case client_onRpcMessage lc kMax conn bs (fst (sy_client y)) of (effs, tasks, cl') \<Rightarrow>
          client_now (cl', tasks, snd (snd (sy_client y)) @ effs) effs (y\<lparr>sy_toClient := fs\<rparr>))
        (take_frame conn (sy_toClient y)))"
| "system_exec lc ls kMax R (Y_lost conn) y =
     Some (y\<lparr>sy_toServer := filter (\<lambda>f. fst f \<noteq> conn) (sy_toServer y),
       sy_toClient := filter (\<lambda>f. fst f \<noteq> conn) (sy_toClient y)\<rparr>)"

lemma server_step_log: "server_step_from M R le kMax (s, log) (s', log') \<Longrightarrow> \<exists>acts. log' = log @ acts"
  by (erule server_step_from.cases) auto

lemma system_exec_step:
  assumes "system_exec lc ls kMax R e y = Some y'"
  shows "system_step lc ls kMax R y y'"
proof -
  obtain cl stack log where c: "sy_client y = (cl, stack, log)" by (metis prod_cases3)
  obtain s slog where s: "sy_server y = (s, slog)" by fastforce
  show ?thesis
  proof (cases e)
    case (Y_client ce)
    with assms c obtain cl' stack' log' where exec: "client_alone ce" "client_exec lc kMax ce (cl, stack, log) = Some (cl', stack', log')"
      and y': "y' = client_now (cl', stack', log') (drop (length log) log') y"
      by (auto split: if_splits)
    have "(\<lambda>conn msg. ce = C_message conn msg) = (\<lambda>_ _. False)" using exec(1) by (cases ce) (auto simp: fun_eq_iff)
    with client_exec_step_from[OF exec(2)]
    have step: "client_step_from (\<lambda>_ _. False) lc kMax (cl, stack, log) (cl', stack', log')" by simp
    then obtain effs where "log' = log @ effs" using step_log client_step_from_step by blast
    with sy_client_moves[OF c, of lc kMax cl' stack' effs] step y' show ?thesis by simp
  next
    case (Y_server se)
    with assms s obtain s' slog' where exec: "server_alone R s se" "server_exec ls kMax se (s, slog) = Some (s', slog')"
      and y': "y' = server_now (s', slog') (drop (length slog) slog') y"
      by (auto split: if_splits)
    have step: "server_step_from (\<lambda>_ _. False) R ls kMax (s, slog) (s', slog')"
      using server_exec_step_from[OF exec(2)] by (rule server_step_from_mono) (use exec(1) in auto)
    then obtain acts where "slog' = slog @ acts" using server_step_log by blast
    with sy_server_moves[OF s, of R ls kMax s' acts] step y' show ?thesis by simp
  next
    case (Y_toServer conn)
    with assms s obtain bs fs where frame: "take_frame conn (sy_toServer y) = Some (bs, fs)" by (auto split: if_splits)
    obtain acts s' where "server_onRpcMessage ls kMax (\<lambda>_. True) (Ours conn) bs s = (acts, s')" by fastforce
    moreover from this have "sv_status s \<noteq> kNotStarted"
      "y' = server_now (s', slog @ map (Pair None) acts) (map (Pair None) acts)
        (y\<lparr>sy_toServer := fs, sy_received := sy_received y @ [(conn, bs)]\<rparr>)"
      using assms s frame Y_toServer by (auto split: if_splits)
    ultimately show ?thesis using take_frame_split[OF frame] sy_server_receives[OF s] by blast
  next
    case (Y_toClient conn)
    with assms c obtain bs fs where frame: "take_frame conn (sy_toClient y) = Some (bs, fs)" by (auto split: if_splits)
    obtain effs tasks cl' where "client_onRpcMessage lc kMax conn bs cl = (effs, tasks, cl')" by (metis prod_cases3)
    moreover from this have "stack = []" "y' = client_now (cl', tasks, log @ effs) effs (y\<lparr>sy_toClient := fs\<rparr>)"
      using assms c frame Y_toClient by (auto split: if_splits)
    ultimately show ?thesis using take_frame_split[OF frame] sy_client_receives[of y cl log] c by blast
  next
    case (Y_lost conn)
    with assms sy_lost show ?thesis by auto
  qed
qed

fun system_run ::
  "bool \<Rightarrow> bool \<Rightarrow> nat \<Rightarrow> ('h \<Rightarrow> string \<Rightarrow> RpcResult \<Rightarrow> bool) \<Rightarrow> ('c, 'd, 'k, 'h) system_ev list \<Rightarrow>
     ('c, 'd, 'k, 'h, 'w) system \<Rightarrow> ('c, 'd, 'k, 'h, 'w) system option" where
  "system_run lc ls kMax R [] y = Some y"
| "system_run lc ls kMax R (e # es) y = Option.bind (system_exec lc ls kMax R e y) (system_run lc ls kMax R es)"

lemma system_run_steps: "system_run lc ls kMax R es y = Some y' \<Longrightarrow> (system_step lc ls kMax R)\<^sup>*\<^sup>* y y'"
proof (induction es arbitrary: y)
  case (Cons e es)
  then obtain z where "system_exec lc ls kMax R e y = Some z" "system_run lc ls kMax R es z = Some y'"
    by (auto split: Option.bind_splits)
  then show ?case by (intro converse_rtranclp_into_rtranclp[OF system_exec_step Cons.IH])
qed simp

lemma system_run_reachable: "system_run lc ls kMax R es (system_new w) = Some y \<Longrightarrow> system_reachable lc ls kMax R y"
  unfolding system_reachable_def using system_run_steps by blast

subsection \<open>A call through the system\<close>

text \<open>The handler echoes the payload. The client is connected and calls; the server answers.\<close>

abbreviation echo_reply :: "nat \<Rightarrow> string \<Rightarrow> RpcResult \<Rightarrow> bool" where
  "echo_reply h payload res \<equiv> res = reply_with payload"

abbreviation ready_schedule :: "(nat, nat, nat, nat) system_ev list" where
  "ready_schedule \<equiv> [Y_server (E_async ''S'' ''m'' 0), Y_server (E_start 0), Y_client C_connect, Y_client (C_up 0),
     Y_client C_task, Y_client C_task]"

abbreviation answer_schedule :: "(nat, nat, nat, nat) system_ev list" where
  "answer_schedule \<equiv> [Y_toServer 0, Y_server (E_reply 0 (reply_with ''p'')), Y_server E_queued, Y_toClient 0, Y_client C_task]"

lemmas system_eval = system_new_def client_now_def server_now_def sent_frames_def reply_frames_def

lemma echo_through_system:
  "\<exists>(y :: (nat, nat, nat, nat, unit) system) cl cl1 y' cl'.
     system_run True False 67108864 echo_reply ready_schedule (system_new ()) = Some y \<and>
     sy_client y = (cl, [], [TcpConnect]) \<and>
     client_call True 67108864 (\<lambda>_. True) True (call_of 7) cl = Some (1, [Issued 1 7, Send 0 (request_of 1)], [], cl1) \<and>
     system_run True False 67108864 echo_reply answer_schedule
       (client_now (cl1, [], [TcpConnect, Issued 1 7, Send 0 (request_of 1)]) [Issued 1 7, Send 0 (request_of 1)] y) = Some y' \<and>
     sy_client y' = (cl', [InUserCode],
       [TcpConnect, Issued 1 7, Send 0 (request_of 1), CalledBack 7 (RpcResponse_make 1 kSuccess NO_ERROR ''p'' [])]) \<and>
     sy_received y' = [(0, request_of 1)]"
  by (simp add: system_eval client_eval server_eval)

lemma success_not_local: "\<not> local_failure (RpcResponse_make rid kSuccess ec payload err)"
  by (simp add: local_failure_def failed_response_def RpcResponse_make_def)

theorem system_answers_authentic_witness:
  "\<exists>(y :: (nat, nat, nat, nat, unit) system) cl cl1 y'.
     system_reachable True False 67108864 echo_reply y \<and> sy_client y = (cl, [], [TcpConnect]) \<and>
     client_call True 67108864 (\<lambda>_. True) True (call_of 7) cl = Some (1, [Issued 1 7, Send 0 (request_of 1)], [], cl1) \<and>
     (system_step True False 67108864 echo_reply)\<^sup>*\<^sup>*
       (client_now (cl1, [], [TcpConnect, Issued 1 7, Send 0 (request_of 1)]) [Issued 1 7, Send 0 (request_of 1)] y) y' \<and>
     CalledBack 7 (RpcResponse_make 1 kSuccess NO_ERROR ''p'' []) \<in> set (snd (snd (sy_client y'))) \<and>
     answers echo_reply 67108864 (fst (sy_server y')) (call_request ((call_of 7)\<lparr>ca_requestId := 1\<rparr>))
       (RpcResponse_make 1 kSuccess NO_ERROR ''p'' [])"
proof -
  let ?r = "RpcResponse_make 1 kSuccess NO_ERROR ''p'' []" and ?effs = "[Issued 1 7, Send 0 (request_of 1)] :: (nat, nat) effect list"
  obtain y y' :: "(nat, nat, nat, nat, unit) system" and cl cl1 cl' where
    y: "system_run True False 67108864 echo_reply ready_schedule (system_new ()) = Some y" "sy_client y = (cl, [], [TcpConnect])"
    and call: "client_call True 67108864 (\<lambda>_. True) True (call_of 7) cl = Some (1, ?effs, [], cl1)"
    and run: "system_run True False 67108864 echo_reply answer_schedule (client_now (cl1, [], [TcpConnect] @ ?effs) ?effs y) = Some y'"
    and y': "sy_client y' = (cl', [InUserCode], [TcpConnect] @ ?effs @ [CalledBack 7 ?r])"
    using echo_through_system by auto
  have steps: "(system_step True False 67108864 echo_reply)\<^sup>*\<^sup>*
      (client_now (cl1, [] @ [], [TcpConnect] @ ?effs) ?effs y) y'"
    using system_run_steps[OF run] by simp
  have wrap: "below_wrap ([TcpConnect] @ ?effs @ [CalledBack 7 ?r])" by (simp add: below_wrap_def)
  have "local_failure ?r \<or> answers echo_reply 67108864 (fst (sy_server y')) (call_request ((call_of 7)\<lparr>ca_requestId := 1\<rparr>)) ?r"
    using system_answers_authentic[OF system_run_reachable[OF y(1)] y(2) call steps y' wrap, of 7 ?r]
    by (simp add: RpcResponse_make_def)
  then have "answers echo_reply 67108864 (fst (sy_server y')) (call_request ((call_of 7)\<lparr>ca_requestId := 1\<rparr>)) ?r"
    using success_not_local by blast
  moreover have "CalledBack 7 ?r \<in> set (snd (snd (sy_client y')))" by (simp add: y')
  ultimately show ?thesis using system_run_reachable[OF y(1)] y(2) call steps[unfolded append_Nil append_Cons] by blast
qed

theorem system_executions_bounded_witness:
  "\<exists>(y :: (nat, nat, nat, nat, unit) system) cl cl1 y'.
     system_reachable True False 67108864 echo_reply y \<and> sy_client y = (cl, [], [TcpConnect]) \<and>
     client_call True 67108864 (\<lambda>_. True) True (call_of 7) cl = Some (1, [Issued 1 7, Send 0 (request_of 1)], [], cl1) \<and>
     (system_step True False 67108864 echo_reply)\<^sup>*\<^sup>*
       (client_now (cl1, [], [TcpConnect, Issued 1 7, Send 0 (request_of 1)]) [Issued 1 7, Send 0 (request_of 1)] y) y' \<and>
     sy_received y' = [(0, request_of 1)] \<and>
     length (filter (\<lambda>f. request_id_of (snd f) = Some 1) (sy_received y')) \<le> 1 + unat (2 :: u8)"
proof -
  let ?r = "RpcResponse_make 1 kSuccess NO_ERROR ''p'' []" and ?effs = "[Issued 1 7, Send 0 (request_of 1)] :: (nat, nat) effect list"
  obtain y y' :: "(nat, nat, nat, nat, unit) system" and cl cl1 cl' where
    y: "system_run True False 67108864 echo_reply ready_schedule (system_new ()) = Some y" "sy_client y = (cl, [], [TcpConnect])"
    and call: "client_call True 67108864 (\<lambda>_. True) True (call_of 7) cl = Some (1, ?effs, [], cl1)"
    and run: "system_run True False 67108864 echo_reply answer_schedule (client_now (cl1, [], [TcpConnect] @ ?effs) ?effs y) = Some y'"
    and y': "sy_client y' = (cl', [InUserCode], [TcpConnect] @ ?effs @ [CalledBack 7 ?r])" "sy_received y' = [(0, request_of 1)]"
    using echo_through_system by auto
  have steps: "(system_step True False 67108864 echo_reply)\<^sup>*\<^sup>*
      (client_now (cl1, [] @ [], [TcpConnect] @ ?effs) ?effs y) y'"
    using system_run_steps[OF run] by simp
  have wrap: "below_wrap ([TcpConnect] @ ?effs @ [CalledBack 7 ?r])" by (simp add: below_wrap_def)
  have "length (filter (\<lambda>f. request_id_of (snd f) = Some 1) (sy_received y')) \<le> 1 + unat (2 :: u8)"
    using system_executions_bounded[OF system_run_reachable[OF y(1)] y(2) call steps y'(1) wrap] by simp
  with system_run_reachable[OF y(1)] y(2) call y'(2) steps[unfolded append_Nil append_Cons] show ?thesis by blast
qed

end
