(* ===== verification/Calculator_Protocol.thy ===== *)
theory Calculator_Protocol
  imports Rpc_Message
begin

section \<open>The payloads of the calculator (CalculatorProtocol.h, CalculatorProtocol.cc)\<close>

text \<open>
  The class that encodes the operands and the result of an addition. An \<open>int32_t\<close> is a 32-bit word that
  is read with \<^const>\<open>sint\<close>. The source has its own copies of the byte-order helpers of
  \<open>RpcMessage.cc\<close>; they are modelled separately and shown to agree. As in \<open>Rpc_Message\<close>, the byte
  order of the host is the parameter \<open>le\<close> and \<^const>\<open>None\<close> is an access outside a buffer.
\<close>

type_synonym i32 = "32 word"

subsection \<open>Byte order\<close>

definition calc_isLittleEnd :: "bool \<Rightarrow> bool" where
  "calc_isLittleEnd le \<longleftrightarrow> hd (mem_bytes le (1 :: u64)) = CHR 0x01"

text \<open>The loop writes \<open>netValPoint[i]\<close> and moves the source pointer one down, from one past the end.\<close>

function calc_hton_loop :: "nat \<Rightarrow> nat \<Rightarrow> string \<Rightarrow> string \<Rightarrow> string" where
  "calc_hton_loop i hostValPoint host net =
     (if i < length host
      then let hostValPoint = hostValPoint - 1
           in calc_hton_loop (i + 1) hostValPoint host (net[i := host ! hostValPoint])
      else net)"
  by pat_completeness auto
termination
  by (relation "measure (\<lambda>(i, p, host, net). length host - i)") auto

declare calc_hton_loop.simps [simp del]

definition calc_hton :: "bool \<Rightarrow> 'a::len word \<Rightarrow> 'a word" where
  "calc_hton le t =
     (let netValue = t in
      if calc_isLittleEnd le
      then load_word le (calc_hton_loop 0 (size_of TYPE('a word)) (mem_bytes le t) (mem_bytes le netValue))
      else netValue)"

subsection \<open>The class\<close>

record CalculatorProtocol =
  cp_a :: i32
  cp_b :: i32
  cp_result :: i32

definition CalculatorProtocol_make :: "i32 \<Rightarrow> i32 \<Rightarrow> CalculatorProtocol" where
  "CalculatorProtocol_make a b = \<lparr>cp_a = a, cp_b = b, cp_result = 0\<rparr>"

definition CalculatorProtocol_default :: CalculatorProtocol where
  "CalculatorProtocol_default = CalculatorProtocol_make 0 0"

definition setA :: "i32 \<Rightarrow> CalculatorProtocol \<Rightarrow> CalculatorProtocol" where
  "setA a p = p\<lparr>cp_a := a\<rparr>"

definition setB :: "i32 \<Rightarrow> CalculatorProtocol \<Rightarrow> CalculatorProtocol" where
  "setB b p = p\<lparr>cp_b := b\<rparr>"

definition setResult :: "i32 \<Rightarrow> CalculatorProtocol \<Rightarrow> CalculatorProtocol" where
  "setResult r p = p\<lparr>cp_result := r\<rparr>"

definition getA :: "CalculatorProtocol \<Rightarrow> i32" where "getA p = cp_a p"

definition getB :: "CalculatorProtocol \<Rightarrow> i32" where "getB p = cp_b p"

definition getResult :: "CalculatorProtocol \<Rightarrow> i32" where "getResult p = cp_result p"

lemmas accessor_defs = setA_def setB_def setResult_def getA_def getB_def getResult_def

definition requestEncode :: "bool \<Rightarrow> CalculatorProtocol \<Rightarrow> string option" where
  "requestEncode le p =
     (let msg = resize [] 8; aNet = cp_a p; bNet = cp_b p;
          (aNet, bNet) = (if calc_isLittleEnd le then (calc_hton le aNet, calc_hton le bNet) else (aNet, bNet))
      in do {
        (msg, _) \<leftarrow> put_bytes (mem_bytes le aNet) (msg, 0);
        (msg, _) \<leftarrow> put_bytes (mem_bytes le bNet) (msg, size_of TYPE(i32));
        Some msg
      })"

definition requestDecode ::
  "bool \<Rightarrow> CalculatorProtocol \<Rightarrow> string \<Rightarrow> string \<Rightarrow> (bool \<times> CalculatorProtocol \<times> string) option" where
  "requestDecode le this msg errorMessage =
     (let errorMessage = [] in
      if length msg \<noteq> 8 then Some (False, this, errorMessage @ ''invalid add request'')
      else do {
        aNet \<leftarrow> read_word le msg 0;
        bNet \<leftarrow> read_word le msg (size_of TYPE(i32));
        let (aNet, bNet) = (if calc_isLittleEnd le then (calc_hton le aNet, calc_hton le bNet) else (aNet, bNet));
        Some (True, this\<lparr>cp_a := aNet, cp_b := bNet\<rparr>, errorMessage)
      })"

definition resultEncode :: "bool \<Rightarrow> CalculatorProtocol \<Rightarrow> string option" where
  "resultEncode le p =
     (let msg = resize [] 4; resultNet = cp_result p;
          resultNet = (if calc_isLittleEnd le then calc_hton le resultNet else resultNet)
      in do { (msg, _) \<leftarrow> put_bytes (mem_bytes le resultNet) (msg, 0); Some msg })"

definition resultDecode ::
  "bool \<Rightarrow> CalculatorProtocol \<Rightarrow> string \<Rightarrow> string \<Rightarrow> (bool \<times> CalculatorProtocol \<times> string) option" where
  "resultDecode le this msg errorMessage =
     (let errorMessage = [] in
      if length msg \<noteq> 4 then Some (False, this, errorMessage @ ''invalid result response'')
      else do {
        resultNet \<leftarrow> read_word le msg 0;
        let resultNet = (if calc_isLittleEnd le then calc_hton le resultNet else resultNet);
        Some (True, this\<lparr>cp_result := resultNet\<rparr>, errorMessage)
      })"

subsection \<open>The helpers agree with those of the message layer\<close>

lemma calc_isLittleEnd_iff [simp]: "calc_isLittleEnd le = le"
  unfolding calc_isLittleEnd_def by (rule isLittleEnd_iff[unfolded isLittleEnd_def])

lemma calc_hton_loop_eq: "calc_hton_loop i p host net = hton_loop i p host net"
proof (induction i p host net rule: calc_hton_loop.induct)
  case (1 i p host net)
  then show ?case
    by (subst calc_hton_loop.simps, subst hton_loop.simps) (simp add: Let_def)
qed

lemma calc_hton_eq: "calc_hton le t = hton le t"
  by (simp add: calc_hton_def hton_def calc_hton_loop_eq Let_def)

text \<open>The digits of a number to the base 256, the most significant one first: network order, by arithmetic alone.\<close>

definition big_endian :: "nat \<Rightarrow> int \<Rightarrow> int list" where
  "big_endian n k = map (\<lambda>i. k div 256 ^ (n - 1 - i) mod 256) [0..<n]"

lemma net_bytes_digits: "map of_char (net_bytes (t :: 'a::len word)) = big_endian (LENGTH('a) div 8) (uint t)"
proof (rule nth_equalityI)
  fix i assume "i < length (map of_char (net_bytes t) :: int list)"
  then have i: "i < LENGTH('a) div 8" by simp
  then have "net_bytes t ! i = char_of (drop_bit (8 * (LENGTH('a) div 8 - 1 - i)) (uint t))"
    by (simp add: mem_bytes_def Let_def rev_nth)
  moreover have "drop_bit (8 * m) (uint t) = uint t div 256 ^ m" for m
    by (simp add: drop_bit_eq_div power_mult)
  ultimately have "of_char (net_bytes t ! i) = uint t div 256 ^ (LENGTH('a) div 8 - 1 - i) mod 256"
    by (simp only: of_char_of)
  with i show "map of_char (net_bytes t) ! i = big_endian (LENGTH('a) div 8) (uint t) ! i"
    by (simp add: big_endian_def)
qed (simp add: big_endian_def)

text \<open>C37: the conversions to network order of \<open>CalculatorProtocol.cc\<close> and \<open>RpcMessage.cc\<close>, loops over the bytes of
  the object in memory, agree with arithmetic, on hosts of either byte order and for every width of whole bytes: the bytes of
  the converted integer in memory are the digits of the integer to the base 256, the most significant one
  first; an integer that was read from such digits and is converted has the value of these digits; and converting
  twice gives the integer back.\<close>

theorem hton_network_order:
  fixes t :: "'a::len word"
  assumes "8 dvd LENGTH('a)"
  shows "map of_char (mem_bytes le (calc_hton le t)) = big_endian (LENGTH('a) div 8) (uint t) \<and>
    map of_char (mem_bytes le (hton le t)) = big_endian (LENGTH('a) div 8) (uint t) \<and>
    (\<forall>bs. LENGTH('a) = 8 * length bs \<longrightarrow>
       big_endian (length bs) (uint (calc_hton le (load_word le bs :: 'a word))) = map of_char bs \<and>
       big_endian (length bs) (uint (ntoh le (load_word le bs :: 'a word))) = map of_char bs) \<and>
    calc_hton le (calc_hton le t) = t \<and> ntoh le (hton le t) = t"
proof -
  have read: "big_endian (length bs) (uint (ntoh le (load_word le bs :: 'a word))) = map of_char bs"
    if "LENGTH('a) = 8 * length bs" for bs
    using net_bytes_digits[of "load_word False bs :: 'a word"] that
    by (simp add: ntoh_load_word[OF that] mem_load_word[OF that])
  have "ntoh le (hton le t) = t" using assms by (rule ntoh_hton)
  with read assms show ?thesis
    by (simp add: calc_hton_eq mem_bytes_hton net_bytes_digits ntoh_def)
qed

theorem hton_network_order_witness:
  "map of_char (mem_bytes True (calc_hton True (16909060 :: i32))) = [1, 2, 3, 4 :: int] \<and>
   mem_bytes True (16909060 :: i32) = rev (mem_bytes True (calc_hton True (16909060 :: i32))) \<and>
   calc_hton True (calc_hton True (16909060 :: i32)) = 16909060"
proof -
  have digits: "big_endian (LENGTH(32) div 8) (uint (16909060 :: i32)) = [1, 2, 3, 4]"
    by (simp add: big_endian_def upt_rec)
  have "8 dvd LENGTH(32)" by simp
  note order = hton_network_order[OF this, of True "16909060 :: i32", unfolded digits]
  then show ?thesis by (simp add: calc_hton_eq mem_bytes_hton rev_mem_bytes)
qed

subsection \<open>The payloads\<close>

definition operands_wire :: "i32 \<times> i32 \<Rightarrow> string" where
  "operands_wire ops = net_bytes (fst ops) @ net_bytes (snd ops)"

lemma length_operands_wire [simp]: "length (operands_wire ops) = 8"
  by (simp add: operands_wire_def)

lemma hton_if [simp]: "(if le then hton le t else t) = hton le t"
  by (simp add: hton_eq)

lemma requestEncode_eq: "requestEncode le p = Some (operands_wire (cp_a p, cp_b p))"
proof -
  have "put_bytes (net_bytes (cp_a p)) ([] @ resize [] 8, 0) =
      Some (([] @ net_bytes (cp_a p)) @ drop 4 (resize [] 8), 4)"
    by (subst put_bytes_append) simp_all
  moreover have "put_bytes (net_bytes (cp_b p)) (net_bytes (cp_a p) @ drop 4 (resize [] 8), 4) =
      Some ((net_bytes (cp_a p) @ net_bytes (cp_b p)) @ drop 4 (drop 4 (resize [] 8)), 8)"
    by (subst put_bytes_append) simp_all
  ultimately show ?thesis
    by (cases le) (simp_all add: requestEncode_def calc_hton_eq mem_bytes_hton size_of_def operands_wire_def)
qed

lemma resultEncode_eq: "resultEncode le p = Some (net_bytes (cp_result p))"
proof -
  have "put_bytes (net_bytes (cp_result p)) ([] @ resize [] 4, 0) =
      Some (([] @ net_bytes (cp_result p)) @ drop 4 (resize [] 4), 4)"
    by (subst put_bytes_append) simp_all
  then show ?thesis
    by (cases le) (simp_all add: resultEncode_def calc_hton_eq mem_bytes_hton)
qed

lemma requestDecode_eq:
  "requestDecode le this msg e =
     (if length msg = 8 then Some (True, this\<lparr>cp_a := net_read msg 0, cp_b := net_read msg 4\<rparr>, [])
      else Some (False, this, ''invalid add request''))"
  by (cases le) (simp_all add: requestDecode_def calc_hton_eq read_word_net size_of_def ntoh_hton[unfolded ntoh_def] hton_eq[of False])

lemma resultDecode_eq:
  "resultDecode le this msg e =
     (if length msg = 4 then Some (True, this\<lparr>cp_result := net_read msg 0\<rparr>, [])
      else Some (False, this, ''invalid result response''))"
  by (cases le) (simp_all add: resultDecode_def calc_hton_eq read_word_net ntoh_hton[unfolded ntoh_def] hton_eq[of False])

text \<open>Both payloads are wire formats in which every string of the right length is the encoding of exactly
  one value.\<close>

lemma operands_wire_read:
  assumes "length msg = 8"
  shows "operands_wire (net_read msg 0, net_read msg 4) = msg"
proof -
  have "drop 0 msg = net_bytes (net_read msg 0 :: i32) @ drop (0 + LENGTH(32) div 8) msg"
    using assms by (intro drop_net_read) simp_all
  moreover have "drop 4 msg = net_bytes (net_read msg 4 :: i32) @ drop (4 + LENGTH(32) div 8) msg"
    using assms by (intro drop_net_read) simp_all
  ultimately show ?thesis using assms by (simp add: operands_wire_def)
qed

lemma net_read_operands:
  "net_read (operands_wire ops) 0 = fst ops" "net_read (operands_wire ops) 4 = snd ops"
  using net_read_append[of 0 "[]" "fst ops" "net_bytes (snd ops)"]
    net_read_append[of 4 "net_bytes (fst ops)" "snd ops" "[]"]
  by (simp_all add: operands_wire_def)

lemma net_bytes_read: "length msg = 4 \<Longrightarrow> net_bytes (net_read msg 0 :: i32) = msg"
  using net_bytes_net_read[where 'a = 32, of 0 msg] by simp

lemma net_read_bytes [simp]: "net_read (net_bytes (w :: i32)) 0 = w"
  using net_read_append[of 0 "[]" w "[]"] by simp

definition decoded_operands :: "bool \<Rightarrow> string \<Rightarrow> (i32 \<times> i32) option" where
  "decoded_operands le msg =
     map_option (\<lambda>p. (getA p, getB p)) (accepted (requestDecode le CalculatorProtocol_default msg []))"

definition decoded_result :: "bool \<Rightarrow> string \<Rightarrow> i32 option" where
  "decoded_result le msg = map_option getResult (accepted (resultDecode le CalculatorProtocol_default msg []))"

interpretation operands_codec: wire_codec "\<lambda>_. True" operands_wire "decoded_operands le" for le
proof unfold_locales
  show "decoded_operands le (operands_wire ops) = Some ops" for ops
    by (simp add: decoded_operands_def requestDecode_eq accepted_def net_read_operands accessor_defs)
  show "True \<and> operands_wire ops = bs" if "decoded_operands le bs = Some ops" for bs ops
    using that operands_wire_read[of bs]
    by (auto simp: decoded_operands_def requestDecode_eq accepted_def accessor_defs split: if_splits)
qed

interpretation result_codec: wire_codec "\<lambda>_. True" "net_bytes :: i32 \<Rightarrow> string" "decoded_result le" for le
proof unfold_locales
  show "decoded_result le (net_bytes w) = Some w" for w
    by (simp add: decoded_result_def resultDecode_eq accepted_def accessor_defs)
  show "True \<and> net_bytes w = bs" if "decoded_result le bs = Some w" for bs w
    using that net_bytes_read[of bs]
    by (auto simp: decoded_result_def resultDecode_eq accepted_def accessor_defs split: if_splits)
qed

subsection \<open>Properties\<close>

text \<open>The operands of an addition encoded on one host are decoded to themselves on any other, the result
  likewise; encoding and decoding stay inside their buffers; the decoders accept exactly the strings of 8 and 4
  bytes, and each of these is the encoding of the value they return.\<close>

theorem calculator_round_trip:
  "(\<exists>bs. requestEncode le p = Some bs \<and>
      requestDecode le' q bs e = Some (True, q\<lparr>cp_a := cp_a p, cp_b := cp_b p\<rparr>, [])) \<and>
   (\<exists>bs. resultEncode le p = Some bs \<and>
      resultDecode le' q bs e = Some (True, q\<lparr>cp_result := cp_result p\<rparr>, [])) \<and>
   (if length msg = 8
    then \<exists>q'. requestDecode le' q msg e = Some (True, q', []) \<and> requestEncode le q' = Some msg
    else requestDecode le' q msg e = Some (False, q, ''invalid add request'')) \<and>
   (if length msg = 4
    then \<exists>q'. resultDecode le' q msg e = Some (True, q', []) \<and> resultEncode le q' = Some msg
    else resultDecode le' q msg e = Some (False, q, ''invalid result response''))"
  by (simp add: requestEncode_eq requestDecode_eq resultEncode_eq resultDecode_eq net_read_operands
      operands_wire_read net_bytes_read)

end
