(* ===== verification/Calculator_Service.thy ===== *)
theory Calculator_Service
  imports Rpc_Server Calculator_Protocol
begin

section \<open>The calculator service (CalculatorService.cc)\<close>

text \<open>
  The handler of \<open>Calculator.Add\<close> and its registration. The sum is computed with 64 bits, checked against
  the range of \<open>int32_t\<close>, and narrowed. The handler throws nothing; \<^const>\<open>None\<close> as its result would be
  an access outside a buffer, which \<open>add_handler_exact\<close> excludes.
\<close>

abbreviation INT32_MAX :: int where "INT32_MAX \<equiv> 2147483647"

abbreviation INT32_MIN :: int where "INT32_MIN \<equiv> -2147483648"

definition add_result :: "bool \<Rightarrow> string \<Rightarrow> RpcResult option" where
  "add_result le payload = do {
     (res, calculatorAdd, errorMessage) \<leftarrow> requestDecode le CalculatorProtocol_default payload [];
     if \<not> res \<or> errorMessage \<noteq> [] then Some (RpcResult_of_result kUnsuccess [] ''invalid add request'')
     else
       let result = (scast (getA calculatorAdd) :: 64 word) + scast (getB calculatorAdd) in
       if sint result > INT32_MAX \<or> sint result < INT32_MIN
       then Some (RpcResult_of_result kUnsuccess [] ''integer overflow'')
       else do {
         let calculatorAdd = setResult (ucast result) calculatorAdd;
         msg \<leftarrow> resultEncode le calculatorAdd;
         Some (RpcResult_of_result kSuccess msg [])
       }
   }"

definition add_handler :: "bool \<Rightarrow> 'w RpcHandler" where
  "add_handler le payload w = (add_result le payload, w)"

definition registerCalculatorService :: "bool \<Rightarrow> ('c, 'h, 'w) server \<Rightarrow> (bool \<times> ('c, 'h, 'w) server) option" where
  "registerCalculatorService le s = registerMethod ''Calculator'' ''Add'' (Some (add_handler le)) s"

subsection \<open>The sum\<close>

text \<open>The 64-bit sum of two 32-bit integers does not wrap, and narrowing a sum in range keeps it.\<close>

lemma sint_range32: "INT32_MIN \<le> sint (a :: i32)" "sint (a :: i32) \<le> INT32_MAX"
  using sint_ge[of a] sint_lt[of a] by simp_all

lemma sint_sum:
  fixes a b :: i32
  assumes "INT32_MIN \<le> sint a + sint b" "sint a + sint b \<le> INT32_MAX"
  shows "sint (a + b) = sint a + sint b"
proof -
  have "signed_take_bit 31 (sint a + sint b) = sint a + sint b"
    using assms by (intro signed_take_bit_int_eq_self) simp_all
  moreover have "sint (word_of_int (sint a + sint b) :: i32) = signed_take_bit 31 (sint a + sint b)"
    by (simp only: signed_of_int) simp
  ultimately show ?thesis by simp
qed

lemma wide_sum: "sint ((scast a :: 64 word) + scast b) = sint a + sint b" for a b :: i32
proof -
  have "signed_take_bit 63 (sint a + sint b) = sint a + sint b"
    using sint_range32[of a] sint_range32[of b] by (intro signed_take_bit_int_eq_self) simp_all
  moreover have "sint (word_of_int (sint a + sint b) :: 64 word) = signed_take_bit 63 (sint a + sint b)"
    by (simp only: signed_of_int) simp
  ultimately show ?thesis by simp
qed

lemma narrow_sum: "(ucast ((scast a :: 64 word) + scast b) :: i32) = a + b"
proof -
  have "(ucast (word_of_int (sint a + sint b) :: 64 word) :: i32) = word_of_int (sint a + sint b)"
    by (rule ucast_down_wi) (simp add: is_down)
  then show ?thesis by simp
qed

subsection \<open>Properties\<close>

text \<open>The answer to a payload: what the service computes, on the integers.\<close>

definition add_spec :: "(i32 \<times> i32) option \<Rightarrow> RpcResult" where
  "add_spec operands =
     (case operands of
        None \<Rightarrow> RpcResult_make kUnsuccess BUSINESS_ERROR [] ''invalid add request''
      | Some (a, b) \<Rightarrow>
          if INT32_MIN \<le> sint a + sint b \<and> sint a + sint b \<le> INT32_MAX
          then RpcResult_make kSuccess NO_ERROR (net_bytes (a + b)) []
          else RpcResult_make kUnsuccess BUSINESS_ERROR [] ''integer overflow'')"

lemma RpcResult_of_result_simps:
  "RpcResult_of_result kSuccess p e = RpcResult_make kSuccess NO_ERROR p e"
  "RpcResult_of_result kUnsuccess p e = RpcResult_make kUnsuccess BUSINESS_ERROR p e"
  by (simp_all add: RpcResult_of_result_def RpcResult_make_def)

lemma add_result_eq: "add_result le payload = Some (add_spec (decoded_operands le payload))"
proof (cases "length payload = 8")
  case True
  let ?a = "net_read payload 0 :: i32" and ?b = "net_read payload 4 :: i32"
  have ops: "decoded_operands le payload = Some (?a, ?b)"
    using True by (simp add: decoded_operands_def requestDecode_eq accepted_def accessor_defs)
  have "add_result le payload =
      (if sint ?a + sint ?b > INT32_MAX \<or> sint ?a + sint ?b < INT32_MIN
       then Some (RpcResult_of_result kUnsuccess [] ''integer overflow'')
       else Some (RpcResult_of_result kSuccess (net_bytes (?a + ?b)) []))"
    using True by (simp add: add_result_def requestDecode_eq accessor_defs wide_sum narrow_sum resultEncode_eq Let_def)
  then show ?thesis
    unfolding ops add_spec_def by (simp add: RpcResult_of_result_simps not_less)
next
  case False
  then show ?thesis
    by (simp add: add_result_def requestDecode_eq decoded_operands_def accepted_def add_spec_def RpcResult_of_result_simps)
qed

text \<open>C23: the handler of \<open>Add\<close>, on any payload: the payload of two operands whose mathematical sum is an
  \<open>int32_t\<close> is answered with success and a payload that decodes, on any host, to exactly that sum; a sum outside the
  range with \<open>BUSINESS_ERROR\<close> and "integer overflow"; a payload that does not hold two operands with
  "invalid add request". It never reads or writes outside a buffer.\<close>

theorem add_handler_exact:
  "case decoded_operands le payload of
     None \<Rightarrow> add_handler le payload w =
       (Some (RpcResult_make kUnsuccess BUSINESS_ERROR [] ''invalid add request''), w)
   | Some (a, b) \<Rightarrow>
       if INT32_MIN \<le> sint a + sint b \<and> sint a + sint b \<le> INT32_MAX
       then \<exists>bs sum. add_handler le payload w = (Some (RpcResult_make kSuccess NO_ERROR bs []), w) \<and>
         decoded_result le' bs = Some sum \<and> sint sum = sint a + sint b
       else add_handler le payload w = (Some (RpcResult_make kUnsuccess BUSINESS_ERROR [] ''integer overflow''), w)"
proof (cases "decoded_operands le payload")
  case (Some ops)
  obtain a b where "ops = (a, b)" by fastforce
  then show ?thesis
    using Some result_codec.dec_enc[of le' "a + b"] sint_sum[of a b]
    by (auto simp: add_handler_def add_result_eq add_spec_def)
qed (simp add: add_handler_def add_result_eq add_spec_def)

text \<open>The results of the handler follow the rules for results, and the service is registered once.\<close>

lemma add_spec_checked: "checked_result (Some (add_spec ops)) = add_spec ops"
  by (auto simp: checked_result_def invalidRpcResult_def add_spec_def word_le_nat_alt split: option.split)

lemma registerCalculatorService_table:
  assumes "registerCalculatorService le s = Some (True, s')"
  shows "table_find ''Calculator'' ''Add'' (sv_syncHandlers s') = Some (add_handler le)"
    and "sv_world s' = sv_world s" and "sv_maxMessageSize s' = sv_maxMessageSize s"
proof -
  let ?t = "table_insert ''Calculator'' ''Add'' (add_handler le) (sv_syncHandlers s)"
  have free: "table_find ''Calculator'' ''Add'' (sv_syncHandlers s) = None" and s': "s' = s\<lparr>sv_syncHandlers := snd ?t\<rparr>"
    using assms
    by (auto simp: registerCalculatorService_def registerMethod_def registered_simps split: if_splits prod.splits)
  then show "table_find ''Calculator'' ''Add'' (sv_syncHandlers s') = Some (add_handler le)"
    and "sv_world s' = sv_world s" and "sv_maxMessageSize s' = sv_maxMessageSize s"
    using table_find_insert(2)[OF free] by simp_all
qed

end
