(* ===== verification/Calculator_Client.thy ===== *)
theory Calculator_Client
  imports Rpc_Client Calculator_Protocol
begin

section \<open>The calculator client (CalculatorClient.h, CalculatorClient.cc)\<close>

text \<open>
  The typed client around \<open>RpcClient\<close>, its only member. An application callback for additions is a value of
  type \<open>'a\<close>; the function \<open>wrapAddCallback\<close> returns for it is the value \<open>WrapAdd\<close>, and
  \<open>wrapped_argument\<close> is the \<open>AddResult\<close> that function passes on when it is called with a response.
  Everything else delegates to the client. Callbacks are never empty, so \<open>assert(callback)\<close> holds.
\<close>

record AddResult =
  ar_status :: ResponseResult
  ar_errorCode :: RpcErrorCode
  ar_value :: i32
  ar_errorMessage :: string

datatype 'a rpc_callback = WrapAdd 'a

type_synonym ('c, 'a) calculator_client = "('c, 'a rpc_callback) client"

definition CalculatorClient_new :: "('c, 'a) calculator_client" where
  "CalculatorClient_new = RpcClient_new"

definition wrapAddCallback :: "'a \<Rightarrow> 'a rpc_callback" where
  "wrapAddCallback callback = WrapAdd callback"

definition wrapped_argument :: "bool \<Rightarrow> RpcResponse \<Rightarrow> AddResult option" where
  "wrapped_argument le response =
     (if rs_responseResult response = kSuccess then do {
        (result, calculatorAdd, errorMessage) \<leftarrow> resultDecode le CalculatorProtocol_default (rs_payload response) [];
        if \<not> result \<or> errorMessage \<noteq> []
        then Some \<lparr>ar_status = kUnsuccess, ar_errorCode = INTERNAL_ERROR, ar_value = 0, ar_errorMessage = errorMessage\<rparr>
        else Some \<lparr>ar_status = kSuccess, ar_errorCode = NO_ERROR, ar_value = getResult calculatorAdd, ar_errorMessage = []\<rparr>
      }
      else Some \<lparr>ar_status = kUnsuccess, ar_errorCode = rs_errorCode response, ar_value = 0,
                 ar_errorMessage = rs_errorMessage response\<rparr>)"

text \<open>The two overloads of \<open>add\<close>; \<^const>\<open>None\<close> is a failed assertion or an access outside a buffer.\<close>

definition calculator_add ::
  "bool \<Rightarrow> nat \<Rightarrow> ('c \<Rightarrow> bool) \<Rightarrow> bool \<Rightarrow> i32 \<Rightarrow> i32 \<Rightarrow> 'a \<Rightarrow> ('c, 'a) calculator_client \<Rightarrow>
     (u64 \<times> ('c, 'a rpc_callback) outcome) option" where
  "calculator_add le kMax up inLoop a b callback cl = do {
     let protocol = CalculatorProtocol_make a b;
     payload \<leftarrow> requestEncode le protocol;
     client_call4 le kMax up inLoop ''Calculator'' ''Add'' payload (wrapAddCallback callback) cl
   }"

definition calculator_add_timeout ::
  "bool \<Rightarrow> nat \<Rightarrow> ('c \<Rightarrow> bool) \<Rightarrow> bool \<Rightarrow> i32 \<Rightarrow> i32 \<Rightarrow> 'a \<Rightarrow> milliseconds \<Rightarrow> ('c, 'a) calculator_client \<Rightarrow>
     (u64 \<times> ('c, 'a rpc_callback) outcome) option" where
  "calculator_add_timeout le kMax up inLoop a b callback timeout cl = do {
     let protocol = CalculatorProtocol_make a b;
     payload \<leftarrow> requestEncode le protocol;
     client_call5 le kMax up inLoop ''Calculator'' ''Add'' payload (wrapAddCallback callback) timeout cl
   }"

definition calculator_setDefaultTimeout ::
  "milliseconds \<Rightarrow> ('c, 'a) calculator_client \<Rightarrow> ('c, 'a) calculator_client option" where
  "calculator_setDefaultTimeout timeout cl = setDefaultTimeout timeout cl"

definition calculator_cancel ::
  "bool \<Rightarrow> ('c \<Rightarrow> bool) \<Rightarrow> milliseconds \<Rightarrow> bool \<Rightarrow> u64 \<Rightarrow> ('c, 'a) calculator_client \<Rightarrow>
     ('c, 'a rpc_callback) outcome" where
  "calculator_cancel le up now inLoop requestId cl = client_cancel le up now inLoop requestId cl"

definition calculator_connect :: "('c, 'a) calculator_client \<Rightarrow> ('c, 'a rpc_callback) outcome" where
  "calculator_connect cl = client_connect cl"

definition calculator_setConnectionCallback ::
  "bool \<Rightarrow> ('c, 'a) calculator_client \<Rightarrow> ('c, 'a) calculator_client option" where
  "calculator_setConnectionCallback callback cl = setConnectionCallback callback cl"

definition calculator_setConnectionErrorCallback ::
  "bool \<Rightarrow> ('c, 'a) calculator_client \<Rightarrow> ('c, 'a) calculator_client option" where
  "calculator_setConnectionErrorCallback callback cl = setConnectionErrorCallback callback cl"

definition calculator_disconnect :: "('c, 'a) calculator_client \<Rightarrow> ('c, 'a rpc_callback) outcome" where
  "calculator_disconnect cl = client_disconnect cl"

subsection \<open>The result of an addition\<close>

text \<open>A callback always gets a consistent result, and the error text the service or the client gave.\<close>

lemma wrapped_argument_eq:
  "wrapped_argument le response =
     (if rs_responseResult response = kSuccess then
        case decoded_result le (rs_payload response) of
          Some v \<Rightarrow> Some \<lparr>ar_status = kSuccess, ar_errorCode = NO_ERROR, ar_value = v, ar_errorMessage = []\<rparr>
        | None \<Rightarrow> Some \<lparr>ar_status = kUnsuccess, ar_errorCode = INTERNAL_ERROR, ar_value = 0,
                        ar_errorMessage = ''invalid result response''\<rparr>
      else Some \<lparr>ar_status = kUnsuccess, ar_errorCode = rs_errorCode response, ar_value = 0,
                 ar_errorMessage = rs_errorMessage response\<rparr>)"
  by (simp add: wrapped_argument_def decoded_result_def resultDecode_eq accepted_def)

text \<open>C38: whatever response a call of \<open>add\<close> ends with, the application's callback gets one result, which is
  either a success with no error code and no error text, and then the response carried exactly this value, or a
  failure with the value 0; for a response the client accepts or makes up, a failure has a defined error code.\<close>

theorem add_callback_consistent:
  assumes "response_valid response"
  shows "\<exists>result. wrapped_argument le response = Some result \<and>
    (if ar_status result = kSuccess
     then ar_errorCode result = NO_ERROR \<and> ar_errorMessage result = [] \<and>
       rs_responseResult response = kSuccess \<and> rs_payload response = net_bytes (ar_value result)
     else ar_status result = kUnsuccess \<and> ar_value result = 0 \<and>
       ar_errorCode result \<noteq> NO_ERROR \<and> ar_errorCode result < ERROR_CODE_CNT)"
  using assms result_codec.dec_sound[of le "rs_payload response"]
  by (auto simp: wrapped_argument_eq response_valid_def outcome_valid_def word_less_nat_alt split: option.split)

theorem add_callback_consistent_witness:
  "\<exists>result. wrapped_argument True (RpcResponse_make 3 kUnsuccess BUSINESS_ERROR [] ''integer overflow'') = Some result \<and>
     ar_status result = kUnsuccess \<and> ar_value result = 0 \<and> ar_errorCode result \<noteq> NO_ERROR"
proof -
  let ?r = "RpcResponse_make 3 kUnsuccess BUSINESS_ERROR [] ''integer overflow''"
  have "response_valid ?r"
    by (simp add: response_valid_def outcome_valid_def RpcResponse_make_def word_less_nat_alt)
  from add_callback_consistent[OF this, of True] show ?thesis
    by (auto simp: RpcResponse_make_def split: if_splits)
qed

end
