(* ===== verification/Example_Programs.thy ===== *)
theory Example_Programs
  imports Rpc_System
begin

section \<open>Applications that run in the callbacks of a client\<close>

text \<open>
  The programs under \<open>src/examples\<close> have one shape: \<open>main\<close> registers callbacks and connects, everything else happens
  in the callback for connections, in the callbacks of calls and in the callback for connection errors. A \<open>program\<close> is
  these callbacks, as functions that return the commands the callback gives to the library; \<open>program_step\<close> runs a
  program in the system of \<open>Rpc_System\<close>. Its runs are runs of the system, so
  what was shown of the system holds of every program.
\<close>

subsection \<open>Programs\<close>

text \<open>A callback of a call is named by the place of the call (\<open>'k\<close>), and \<open>pg_site\<close> gives the service, the method and the
  payload of that place.\<close>

datatype 'k command = App_call 'k | App_disconnect | App_stop | App_quit | App_abort

record ('k, 'a) program =
  pg_site :: "'k \<Rightarrow> string \<times> string \<times> string"
  pg_onConnection :: "bool \<Rightarrow> 'a \<Rightarrow> 'k command list \<times> 'a"
  pg_onResponse :: "'k \<Rightarrow> RpcResponse \<Rightarrow> 'a \<Rightarrow> 'k command list \<times> 'a"
  pg_onError :: "int \<Rightarrow> 'a \<Rightarrow> 'k command list \<times> 'a"

text \<open>A running program: the system, the commands that the callbacks on the call stack have still to give, the
  variables of the application, and the commands given so far.\<close>

record ('c, 'd, 'k, 'h, 'w, 'a) running =
  rn_system :: "('c, 'd, 'k, 'h, 'w) system"
  rn_code :: "'k command list list"
  rn_app :: 'a
  rn_done :: "'k command list"

text \<open>What the application does in the callback that a task is; \<open>up\<close> is what \<open>conn->connected()\<close> returns there.\<close>

fun run_callback :: "('k, 'a) program \<Rightarrow> bool \<Rightarrow> ('c, 'k) task \<Rightarrow> 'a \<Rightarrow> 'k command list list \<times> 'a" where
  "run_callback P up (DoCallback k response) app = apfst (\<lambda>cs. [cs]) (pg_onResponse P k response app)"
| "run_callback P up (DoConnectionCallback conn) app = apfst (\<lambda>cs. [cs]) (pg_onConnection P up app)"
| "run_callback P up (DoErrorCallback e) app = apfst (\<lambda>cs. [cs]) (pg_onError P e app)"
| "run_callback P up _ app = ([], app)"

text \<open>The steps: the server, the network and other peers; a frame or another event for the client; the next task of
  the client, with the application's callback if it is one; the next command of the callback that is running; and its
  return. After \<open>App_abort\<close> the program does nothing more.\<close>

inductive program_step ::
  "('k, 'a) program \<Rightarrow> bool \<Rightarrow> bool \<Rightarrow> nat \<Rightarrow> ('h \<Rightarrow> string \<Rightarrow> RpcResult \<Rightarrow> bool) \<Rightarrow>
     ('c, 'd, 'k, 'h, 'w, 'a) running \<Rightarrow> ('c, 'd, 'k, 'h, 'w, 'a) running \<Rightarrow> bool" for P lc ls kMax R where
  pg_world: "system_step lc ls kMax R (rn_system x) y \<Longrightarrow> sy_client y = sy_client (rn_system x) \<Longrightarrow>
    program_step P lc ls kMax R x (x\<lparr>rn_system := y\<rparr>)"
| pg_frame: "sy_client (rn_system x) = (cl, [], log) \<Longrightarrow>
    sy_toClient (rn_system x) = fs @ (conn, bs) # fs' \<Longrightarrow> conn \<notin> fst ` set fs \<Longrightarrow>
    client_onRpcMessage lc kMax conn bs cl = (effs, tasks, cl') \<Longrightarrow>
    program_step P lc ls kMax R x
      (x\<lparr>rn_system := client_now (cl', tasks, log @ effs) effs ((rn_system x)\<lparr>sy_toClient := fs @ fs'\<rparr>)\<rparr>)"
| pg_event: "sy_client (rn_system x) = (cl, [], log) \<Longrightarrow>
    client_event (\<lambda>_ _. False) lc kMax cl (effs, tasks, cl') \<Longrightarrow>
    program_step P lc ls kMax R x (x\<lparr>rn_system := client_now (cl', tasks, log @ effs) effs (rn_system x)\<rparr>)"
| pg_task: "sy_client (rn_system x) = (cl, t # stack, log) \<Longrightarrow> t \<noteq> InUserCode \<Longrightarrow>
    run_task lc up t cl = (effs, tasks, cl') \<Longrightarrow> run_callback P b t (rn_app x) = (code, app) \<Longrightarrow>
    program_step P lc ls kMax R x (x\<lparr>rn_system := client_now (cl', tasks @ stack, log @ effs) effs (rn_system x),
      rn_code := code @ rn_code x, rn_app := app\<rparr>)"
| pg_call: "sy_client (rn_system x) = (cl, InUserCode # stack, log) \<Longrightarrow>
    rn_code x = (App_call k # cs) # code \<Longrightarrow> pg_site P k = (service, meth, payload) \<Longrightarrow>
    client_call4 lc kMax up True service meth payload k cl = Some (rid, effs, tasks, cl') \<Longrightarrow>
    program_step P lc ls kMax R x
      (x\<lparr>rn_system := client_now (cl', tasks @ InUserCode # stack, log @ effs) effs (rn_system x),
         rn_code := cs # code, rn_done := rn_done x @ [App_call k]\<rparr>)"
| pg_disconnect: "sy_client (rn_system x) = (cl, InUserCode # stack, log) \<Longrightarrow>
    rn_code x = (App_disconnect # cs) # code \<Longrightarrow> client_disconnect cl = (effs, tasks, cl') \<Longrightarrow>
    program_step P lc ls kMax R x
      (x\<lparr>rn_system := client_now (cl', tasks @ InUserCode # stack, log @ effs) effs (rn_system x),
         rn_code := cs # code, rn_done := rn_done x @ [App_disconnect]\<rparr>)"
| pg_stop: "sy_client (rn_system x) = (cl, InUserCode # stack, log) \<Longrightarrow>
    rn_code x = (App_stop # cs) # code \<Longrightarrow> sy_server (rn_system x) = (s, slog) \<Longrightarrow> RpcServer_stop s = (acts, s') \<Longrightarrow>
    program_step P lc ls kMax R x
      (x\<lparr>rn_system := server_now (s', slog @ map (Pair None) acts) (map (Pair None) acts) (rn_system x),
         rn_code := cs # code, rn_done := rn_done x @ [App_stop]\<rparr>)"
| pg_quit: "sy_client (rn_system x) = (cl, InUserCode # stack, log) \<Longrightarrow> rn_code x = (App_quit # cs) # code \<Longrightarrow>
    program_step P lc ls kMax R x (x\<lparr>rn_code := cs # code, rn_done := rn_done x @ [App_quit]\<rparr>)"
| pg_return: "sy_client (rn_system x) = (cl, InUserCode # stack, log) \<Longrightarrow> rn_code x = [] # code \<Longrightarrow>
    program_step P lc ls kMax R x (x\<lparr>rn_system := client_now (cl, stack, log) [] (rn_system x), rn_code := code\<rparr>)"

subsection \<open>The beginning\<close>

text \<open>The end of every \<open>main\<close>: the callbacks are set and the client connects.\<close>

definition client_main :: "('c, 'k) outcome option" where
  "client_main = do {
     cl \<leftarrow> setConnectionCallback True RpcClient_new;
     cl \<leftarrow> setConnectionErrorCallback True cl;
     Some (client_connect cl)
   }"

text \<open>A server that its \<open>main\<close> has configured and started, and a program that has just called \<open>loop.loop()\<close>.\<close>

definition server_ready ::
  "bool \<Rightarrow> nat \<Rightarrow> ('h \<Rightarrow> string \<Rightarrow> RpcResult \<Rightarrow> bool) \<Rightarrow> ('c, 'h, 'w) server \<Rightarrow> bool" where
  "server_ready ls kMax R s \<longleftrightarrow>
     (\<exists>w. (server_step_from (\<lambda>_ _. False) R ls kMax)\<^sup>*\<^sup>* (RpcServer_new w, []) (s, []))"

definition program_start ::
  "(('c, 'd) peer, 'h, 'w) server \<Rightarrow> 'a \<Rightarrow> ('c, 'd, 'k, 'h, 'w, 'a) running option" where
  "program_start s app = map_option (\<lambda>(effs, tasks, cl).
     \<lparr>rn_system = \<lparr>sy_client = (cl, tasks, effs), sy_server = (s, []), sy_toServer = [], sy_toClient = [], sy_received = []\<rparr>,
      rn_code = [], rn_app = app, rn_done = []\<rparr>) client_main"

definition program_reachable ::
  "('k, 'a) program \<Rightarrow> bool \<Rightarrow> bool \<Rightarrow> nat \<Rightarrow> ('h \<Rightarrow> string \<Rightarrow> RpcResult \<Rightarrow> bool) \<Rightarrow> (('c, 'd) peer, 'h, 'w) server \<Rightarrow> 'a \<Rightarrow>
     ('c, 'd, 'k, 'h, 'w, 'a) running \<Rightarrow> bool" where
  "program_reachable P lc ls kMax R s app x \<longleftrightarrow>
     (\<exists>x0. program_start s app = Some x0 \<and> (program_step P lc ls kMax R)\<^sup>*\<^sup>* x0 x)"

lemma ready_step:
  assumes "server_ready ls kMax R s" and "server_step_from (\<lambda>_ _. False) R ls kMax (s, []) (s', [])"
  shows "server_ready ls kMax R s'"
  using assms unfolding server_ready_def by (metis rtranclp.rtrancl_into_rtrancl)

lemma ready_steps:
  "server_ready ls kMax R (RpcServer_new w)"
  "server_ready ls kMax R s \<Longrightarrow> sv_taskPool s = None \<Longrightarrow> server_configure kMax s s' \<Longrightarrow> server_ready ls kMax R s'"
  "server_ready ls kMax R s \<Longrightarrow> sv_taskPool s = None \<Longrightarrow> server_ready ls kMax R (RpcServer_start created s)"
proof -
  show "server_ready ls kMax R (RpcServer_new w)" by (auto simp: server_ready_def)
qed (erule ready_step, rule sv_configure sv_start; simp add: base_loop_free_def)+

lemma system_server_steps:
  assumes "(server_step_from (\<lambda>_ _. False) R ls kMax)\<^sup>*\<^sup>* (RpcServer_new w, []) c"
  shows "(system_step lc ls kMax R)\<^sup>*\<^sup>* (system_new w)
    ((system_new w)\<lparr>sy_server := c, sy_toClient := reply_frames (snd c)\<rparr>)"
  using assms
proof (induction rule: rtranclp_induct)
  case base
  then show ?case by (simp add: system_new_def)
next
  case (step c d)
  obtain s log s' log' where c: "c = (s, log)" "d = (s', log')" by (metis surj_pair)
  then obtain acts where log': "log' = log @ acts" using server_step_log step.hyps(2) by blast
  let ?y = "(system_new w)\<lparr>sy_server := c, sy_toClient := reply_frames (snd c)\<rparr>"
  have "system_step lc ls kMax R ?y (server_now (s', log @ acts) acts ?y)"
    by (rule sy_server_moves) (use step.hyps(2) c log' in simp_all)
  also have "server_now (s', log @ acts) acts ?y = (system_new w)\<lparr>sy_server := d, sy_toClient := reply_frames (snd d)\<rparr>"
    by (simp add: server_now_def c log')
  finally show ?case by (rule rtranclp.rtrancl_into_rtrancl[OF step.IH])
qed

lemma client_main_eq:
  "client_main = Some ([TcpConnect], [], (RpcClient_new :: ('c, 'k) client)\<lparr>cl_connectionCallback := True,
     cl_connectionErrorCallback := True, cl_status := kConnecting, cl_hasConnectAttempted := True\<rparr>)"
  by (simp add: client_main_def setConnectionCallback_def setConnectionErrorCallback_def client_connect_def RpcClient_new_def)

lemma client_main_steps:
  assumes "client_main = Some (effs, tasks, cl)" and y: "sy_client y = (RpcClient_new, [], [])"
  shows "(system_step lc ls kMax R)\<^sup>*\<^sup>* y (client_now (cl, tasks, effs) effs y)"
proof -
  let ?F = "\<lambda>_ _. False"
  obtain cl1 cl2 where set1: "setConnectionCallback True (RpcClient_new :: ('a, 'b) client) = Some cl1"
    and set2: "setConnectionErrorCallback True cl1 = Some cl2" and conn: "client_connect cl2 = (effs, tasks, cl)"
    using assms(1) by (auto simp: client_main_def split: Option.bind_splits)
  let ?y1 = "client_now (cl1, [], []) [] y" and ?y2 = "client_now (cl2, [], []) [] (client_now (cl1, [], []) [] y)"
  have "client_step_from ?F lc kMax (RpcClient_new, [], []) (cl1, [], [])"
    using st_api[of "[]", OF _ api_set_connection[OF set1]] by fastforce
  then have s1: "system_step lc ls kMax R y ?y1" using sy_client_moves[OF y, of lc kMax cl1 "[]" "[]"] by simp
  have "client_step_from ?F lc kMax (cl1, [], []) (cl2, [], [])"
    using st_api[of "[]", OF _ api_set_error[OF set2]] by fastforce
  then have s2: "system_step lc ls kMax R ?y1 ?y2" using sy_client_moves[of ?y1 cl1 "[]" "[]" lc kMax cl2 "[]" "[]"] by simp
  have "client_step_from ?F lc kMax (cl2, [], []) (cl, tasks, effs)"
    using st_api[of "[]" lc kMax cl2 effs tasks cl ?F "[]"] api_connect[of lc kMax cl2, unfolded conn] by simp
  then have s3: "system_step lc ls kMax R ?y2 (client_now (cl, tasks, effs) effs ?y2)"
    using sy_client_moves[of ?y2 cl2 "[]" "[]" lc kMax cl tasks effs] by simp
  have "client_now (cl, tasks, effs) effs ?y2 = client_now (cl, tasks, effs) effs y"
    by (simp add: client_now_def)
  note last = s3[unfolded this]
  show ?thesis
    by (rule rtranclp.rtrancl_into_rtrancl[OF rtranclp.rtrancl_into_rtrancl[OF r_into_rtranclp]]) (rule s1 s2 last)+
qed

lemma program_start_reachable:
  fixes x :: "('c, 'd, 'k, 'h, 'w, 'a) running"
  assumes "server_ready ls kMax R s" and "program_start s app = Some x"
  shows "system_reachable lc ls kMax R (rn_system x)" and "issued (snd (snd (sy_client (rn_system x)))) = []"
proof -
  obtain w where "(server_step_from (\<lambda>_ _. False) R ls kMax)\<^sup>*\<^sup>* (RpcServer_new w, []) (s, [])"
    using assms(1) by (auto simp: server_ready_def)
  note steps = system_server_steps[OF this, of lc, simplified]
  obtain effs tasks cl where main: "client_main = Some (effs, tasks, cl)"
    and x: "rn_system x = \<lparr>sy_client = (cl, tasks, effs), sy_server = (s, []), sy_toServer = [], sy_toClient = [], sy_received = []\<rparr>"
    using assms(2) by (auto simp: program_start_def)
  let ?y = "(system_new w :: ('c, 'd, 'k, 'h, 'w) system)\<lparr>sy_server := (s, []), sy_toClient := []\<rparr>"
  have "effs = [TcpConnect]" using main by (simp add: client_main_eq)
  then show "issued (snd (snd (sy_client (rn_system x)))) = []" by (simp add: x)
  have "rn_system x = client_now (cl, tasks, effs) effs ?y"
    using \<open>effs = [TcpConnect]\<close> by (simp add: x client_now_def system_new_def)
  moreover have "(system_step lc ls kMax R)\<^sup>*\<^sup>* ?y (client_now (cl, tasks, effs) effs ?y)"
    by (rule client_main_steps[OF main]) (simp add: system_new_def)
  ultimately have "(system_step lc ls kMax R)\<^sup>*\<^sup>* (system_new w) (rn_system x)"
    using rtranclp_trans[OF steps] by simp
  then show "system_reachable lc ls kMax R (rn_system x)" unfolding system_reachable_def by blast
qed

subsection \<open>Programs are runs of the system\<close>

lemma program_step_system:
  assumes "program_step P lc ls kMax R x x'"
  shows "(system_step lc ls kMax R)\<^sup>*\<^sup>* (rn_system x) (rn_system x')"
  using assms
proof (cases rule: program_step.cases)
  case (pg_world y)
  then show ?thesis by simp
next
  case (pg_frame cl log fs conn bs fs' effs tasks cl')
  then show ?thesis using sy_client_receives[OF pg_frame(2-5)] by auto
next
  case (pg_event cl log effs tasks cl')
  from sy_client_moves[OF pg_event(2) st_event[OF pg_event(3)]] show ?thesis using pg_event(1) by auto
next
  case (pg_task cl t stack log up effs tasks cl' b code app)
  from sy_client_moves[OF pg_task(2) st_task[OF pg_task(3,4)]] show ?thesis using pg_task(1) by auto
next
  case (pg_call cl stack log k cs code service meth payload up rid effs tasks cl')
  from sy_client_moves[OF pg_call(2) st_api[OF _ api_call]] pg_call(5) show ?thesis
    unfolding pg_call(1) client_call4_def by auto
next
  case (pg_disconnect cl stack log cs code effs tasks cl')
  have "client_api lc kMax cl (effs, tasks, cl')" unfolding pg_disconnect(4)[symmetric] by (rule api_disconnect)
  from sy_client_moves[OF pg_disconnect(2) st_api[OF _ this]] show ?thesis using pg_disconnect(1) by auto
next
  case (pg_stop cl stack log cs code s slog acts s')
  from sy_server_moves[OF pg_stop(4) sv_stop[OF pg_stop(5)]] show ?thesis using pg_stop(1) by auto
next
  case pg_quit
  then show ?thesis by simp
next
  case (pg_return cl stack log code)
  from sy_client_moves[OF pg_return(2), of lc kMax cl stack "[]"] show ?thesis
    using pg_return(1) by (auto simp: st_return)
qed

text \<open>Only calls issue ids.\<close>

lemma message_silent: "client_onRpcMessage le kMax conn msg cl = (effs, tasks, cl') \<Longrightarrow> silent_effects effs"
  by (auto simp: client_onRpcMessage_def split: if_splits option.splits prod.splits)

lemma task_silent: "run_task le up t cl = (effs, tasks, cl') \<Longrightarrow> (\<And>k r. t \<noteq> DoCallback k r) \<Longrightarrow> silent_effects effs"
proof (cases t)
  case (ResendLoop conn items)
  assume "run_task le up t cl = (effs, tasks, cl')"
  with ResendLoop show ?thesis
    by (cases items) (auto simp: resend_one_def Let_def split: if_splits option.splits prod.splits)
qed auto

lemma task_issued: "run_task le up t cl = (effs, tasks, cl') \<Longrightarrow> issued effs = []"
  using task_silent[of le up t cl effs tasks cl'] by (cases t) (auto simp: silent_effects_def)

text \<open>The request a place of the program makes.\<close>

definition site_request :: "('k, 'a) program \<Rightarrow> 'k \<Rightarrow> u64 \<Rightarrow> RpcRequest" where
  "site_request P k rid = (case pg_site P k of (service, meth, payload) \<Rightarrow>
     \<lparr>rq_requestId = rid, rq_service = service, rq_method = meth, rq_payload = payload\<rparr>)"

lemma program_step_cases [consumes 3]:
  assumes "program_step P lc ls kMax R x x'" and "sy_client (rn_system x) = (cl, stack, log)"
    and "sy_client (rn_system x') = (cl', stack', log')"
  obtains (other) "issued log' = issued log"
  | (call) k up rid effs tasks a where "client_call lc kMax up True a cl = Some (rid, effs, tasks, cl')"
      "stack' = tasks @ stack" "log' = log @ effs" "issued effs = [(rid, k)]"
      "call_request (a\<lparr>ca_requestId := rid\<rparr>) = site_request P k rid"
  using assms(1)
proof (cases rule: program_step.cases)
  case (pg_world y)
  with assms(2,3) other show thesis by auto
next
  case (pg_frame cl log fs conn bs fs' effs tasks cl')
  with assms(2,3) message_silent[OF pg_frame(5)] other show thesis by (auto simp: silent_effects_def)
next
  case (pg_event cl log effs tasks cl')
  with assms(2,3) own_event[OF pg_event(3)] other show thesis by (auto simp: own_failures_def silent_effects_def)
next
  case (pg_task cl t stack log up effs tasks cl' b code app)
  with assms(2,3) task_issued[OF pg_task(4)] other show thesis by auto
next
  case (pg_call cl0 stack0 log0 k cs code service meth payload up rid effs tasks cl1)
  let ?a = "call_args_default service meth payload k (cl_defaultTimeout cl) cl"
  have eqs: "cl0 = cl" "InUserCode # stack0 = stack" "log0 = log" "cl1 = cl'" "stack' = tasks @ stack" "log' = log @ effs"
    using pg_call(1,2) assms(2,3) by simp_all
  have run: "client_call lc kMax up True ?a cl = Some (rid, effs, tasks, cl')"
    using pg_call(5) unfolding client_call4_def eqs .
  have req: "call_request (?a\<lparr>ca_requestId := rid\<rparr>) = site_request P k rid"
    using pg_call(4) by (simp add: call_request_def call_args_default_def site_request_def)
  have "issued effs = [(rid, k)]"
    using own_call[OF run] by (auto simp: call_args_default_def own_failures_def silent_effects_def)
  from call[OF run eqs(5,6) this req] show thesis .
next
  case (pg_disconnect cl stack log cs code effs tasks cl')
  with assms(2,3) own_disconnect[of cl] other show thesis by (auto simp: own_failures_def silent_effects_def)
next
  case (pg_stop cl stack log cs code s slog acts s')
  with assms(2,3) other show thesis by auto
next
  case pg_quit
  with assms(2,3) other show thesis by auto
next
  case (pg_return cl stack log code)
  with assms(2,3) other show thesis by auto
qed

text \<open>Every request is sent as its place in the program makes it.\<close>

definition program_inv ::
  "('k, 'a) program \<Rightarrow> bool \<Rightarrow> bool \<Rightarrow> nat \<Rightarrow> ('h \<Rightarrow> string \<Rightarrow> RpcResult \<Rightarrow> bool) \<Rightarrow> ('c, 'd, 'k, 'h, 'w, 'a) running \<Rightarrow> bool" where
  "program_inv P lc ls kMax R x \<longleftrightarrow> system_reachable lc ls kMax R (rn_system x) \<and>
     (case sy_client (rn_system x) of (cl, stack, log) \<Rightarrow>
        below_wrap log \<longrightarrow> (\<forall>(rid, k) \<in> set (issued log). carries rid (site_request P k rid) (cl, stack, log)))"

lemma program_inv_step:
  assumes step: "program_step P lc ls kMax R x x'" and inv: "program_inv P lc ls kMax R x"
  shows "program_inv P lc ls kMax R x'"
proof -
  obtain cl stack log cl' stack' log' where c: "sy_client (rn_system x) = (cl, stack, log)" "sy_client (rn_system x') = (cl', stack', log')"
    by (metis prod_cases3)
  note run = program_step_system[OF step]
  have reach: "system_reachable lc ls kMax R (rn_system x)" using inv by (simp add: program_inv_def)
  then have "system_reachable lc ls kMax R (rn_system x')"
    using run unfolding system_reachable_def by (metis rtranclp_trans)
  moreover have "carries rid (site_request P k rid) (cl', stack', log')"
    if wrap: "below_wrap log'" and new: "(rid, k) \<in> set (issued log')" for rid k
  proof -
    have steps: "(client_step lc kMax)\<^sup>*\<^sup>* (cl, stack, log) (cl', stack', log')"
      using system_steps_client[OF run] by (simp add: c)
    have creach: "client_reachable lc kMax (cl, stack, log)" using system_reachable_client[OF reach] by (simp add: c)
    have wrap': "below_wrap (snd (snd (cl', stack', log')))" using wrap by simp
    then have "below_wrap log" using steps_below_wrap[OF steps] by simp
    then have old: "carries rid (site_request P k rid) (cl', stack', log')" if "(rid, k) \<in> set (issued log)"
      using that inv carries_run[OF steps client_reachable_inv[OF creach] wrap'] by (auto simp: program_inv_def c)
    from step c show ?thesis
    proof (cases rule: program_step_cases)
      case other
      then show ?thesis using old new by simp
    next
      case (call k' up rid' effs tasks a)
      have "carries rid' (site_request P k' rid') (cl', stack', log')"
        using called(2)[OF creach call(1)] wrap unfolding call(2,3,5) by blast
      then show ?thesis using new old call(3,4) by auto
    qed
  qed
  ultimately show ?thesis by (auto simp: program_inv_def c)
qed

definition program_init ::
  "bool \<Rightarrow> nat \<Rightarrow> ('h \<Rightarrow> string \<Rightarrow> RpcResult \<Rightarrow> bool) \<Rightarrow> ('c, 'd, 'k, 'h, 'w, 'a) running \<Rightarrow> bool" where
  "program_init ls kMax R x \<longleftrightarrow> (\<exists>s app. server_ready ls kMax R s \<and> program_start s app = Some x)"

lemma program_inv_init: "program_init ls kMax R x \<Longrightarrow> program_inv P lc ls kMax R x"
  using program_start_reachable by (fastforce simp: program_inv_def program_init_def split: prod.split)

interpretation program: invariant_system "program_init ls kMax R" "program_step P lc ls kMax R" "program_inv P lc ls kMax R"
  for P lc ls kMax R
  by unfold_locales (auto intro: program_inv_init program_inv_step)

lemma program_inv_reachable:
  assumes "server_ready ls kMax R s" and "program_reachable P lc ls kMax R s app x"
  shows "program_inv P lc ls kMax R x"
proof -
  obtain x0 where "program_start s app = Some x0" "(program_step P lc ls kMax R)\<^sup>*\<^sup>* x0 x"
    using assms(2) by (auto simp: program_reachable_def)
  moreover from this assms(1) have "program_init ls kMax R x0" by (auto simp: program_init_def)
  ultimately show ?thesis by (intro program.inv_reachable)
qed

subsection \<open>What the callbacks of a program get\<close>

text \<open>The method tables stay those the server was started with.\<close>

lemma steps_tables:
  "(server_step ls kMax)\<^sup>*\<^sup>* (s, log) c \<Longrightarrow> sv_status s \<noteq> kNotStarted \<Longrightarrow> same_tables s (fst c) \<and> sv_status (fst c) \<noteq> kNotStarted"
proof (induction rule: rtranclp_induct)
  case (step c d)
  then show ?case
    using step_tables[of ls kMax "fst c" "snd c" "fst d" "snd d"] same_tables_trans by (metis prod.collapse)
qed simp

lemma program_steps_system:
  "(program_step P lc ls kMax R)\<^sup>*\<^sup>* x x' \<Longrightarrow> (system_step lc ls kMax R)\<^sup>*\<^sup>* (rn_system x) (rn_system x')"
  by (induction rule: rtranclp_induct) (auto dest: program_step_system)

lemma program_tables:
  assumes "program_reachable P lc ls kMax R s app x" and "sv_status s \<noteq> kNotStarted"
  shows "same_tables s (fst (sy_server (rn_system x)))"
proof -
  obtain x0 where x0: "program_start s app = Some x0" "(program_step P lc ls kMax R)\<^sup>*\<^sup>* x0 x"
    using assms(1) by (auto simp: program_reachable_def)
  have "sy_server (rn_system x0) = (s, [])" using x0(1) by (auto simp: program_start_def)
  then show ?thesis
    using steps_tables[OF _ assms(2)] system_steps_server[OF program_steps_system[OF x0(2)]] by simp
qed

lemma program_answers:
  assumes ready: "server_ready ls kMax R s" "sv_status s \<noteq> kNotStarted" and run: "program_reachable P lc ls kMax R s app x"
    and x: "sy_client (rn_system x) = (cl, stack, log)" and wrap: "below_wrap log" and r: "CalledBack k r \<in> set log"
  shows "local_failure r \<or> answers R kMax s (site_request P k (rs_requestId r)) r"
proof -
  note inv = program_inv_reachable[OF ready(1) run]
  have reach: "system_reachable lc ls kMax R (rn_system x)" using inv by (simp add: program_inv_def)
  have "client_reachable lc kMax (cl, stack, log)" using system_reachable_client[OF reach] by (simp add: x)
  then have "flow_ok (cl, stack, log)" using client_reachable_parts(3) wrap by blast
  moreover have "(rs_requestId r, k) \<in># calls_of effect_call log" using r by (force simp: calls_of_def)
  ultimately have "(rs_requestId r, k) \<in># mset (issued log)" by (simp add: flow_ok_def)
  then have "carries (rs_requestId r) (site_request P k (rs_requestId r)) (cl, stack, log)"
    using inv wrap by (auto simp: program_inv_def x)
  from answer_to_call[OF system_reachable_inv[OF reach] x this r refl] show ?thesis
    unfolding answers_cong(2)[OF program_tables[OF run ready(2)]] .
qed

text \<open>What holds of the variables of the application at first and is kept by its callbacks holds always; of a response the
  callback may use what is known of every response that was delivered.\<close>

lemma program_app:
  assumes "(program_step P lc ls kMax R)\<^sup>*\<^sup>* x0 x" and "Q (rn_app x0)"
    and "\<And>k r. CalledBack k r \<in> set (snd (snd (sy_client (rn_system x)))) \<Longrightarrow> G k r"
    and conn: "\<And>up a. Q a \<Longrightarrow> Q (snd (pg_onConnection P up a))" and err: "\<And>e a. Q a \<Longrightarrow> Q (snd (pg_onError P e a))"
    and resp: "\<And>k r a. Q a \<Longrightarrow> G k r \<Longrightarrow> Q (snd (pg_onResponse P k r a))"
  shows "Q (rn_app x)"
  using assms(1-3)
proof (induction rule: rtranclp_induct)
  case (step y z)
  obtain effs where log: "snd (snd (sy_client (rn_system z))) = snd (snd (sy_client (rn_system y))) @ effs"
    using step.hyps(2) by (cases rule: program_step.cases) auto
  then have Q: "Q (rn_app y)" using step by auto
  from step.hyps(2) show ?case
  proof (cases rule: program_step.cases)
    case (pg_task cl t stack log up effs tasks cl' b code app)
    then have app: "rn_app z = snd (run_callback P b t (rn_app y))" by simp
    show ?thesis
    proof (cases t)
      case (DoCallback k r)
      with pg_task have "CalledBack k r \<in> set (snd (snd (sy_client (rn_system z))))" by auto
      then have "G k r" by (rule step.prems(2))
      from resp[OF Q this] show ?thesis by (simp add: app DoCallback)
    qed (simp_all add: app Q conn err)
  qed (use Q in simp_all)
qed simp

text \<open>A success the server sends carries the payload of a successful result.\<close>

lemma answers_success:
  assumes "answers R kMax s rq r" and "rs_responseResult r = kSuccess"
  obtains res where "outcome_of R s rq res" "rr_result res = kSuccess" "rs_payload r = rr_payload res"
  using assms
  by (auto simp: answers_def fitted_result_def fitted_response_def RpcResponse_make_def Let_def split: if_splits)

lemma local_not_success: "local_failure r \<Longrightarrow> rs_responseResult r \<noteq> kSuccess"
  by (auto simp: local_failure_def failed_response_def RpcResponse_make_def dest!: arg_cong[of r _ rs_responseResult])

subsection \<open>Executing a schedule of a program\<close>

datatype ('c, 'd, 'k, 'h) program_ev =
  P_server "(('c, 'd) peer, 'h) server_event" | P_toServer 'c | P_toClient 'c | P_connection bool 'c | P_task bool | P_command | P_return

definition command_exec ::
  "('k, 'a) program \<Rightarrow> bool \<Rightarrow> nat \<Rightarrow> 'k command \<Rightarrow> ('c, 'd, 'k, 'h, 'w) system \<Rightarrow> ('c, 'd, 'k, 'h, 'w) system option" where
  "command_exec P lc kMax c y = (case sy_client y of (cl, stack, log) \<Rightarrow>
     (case c of
        App_call k \<Rightarrow> (case pg_site P k of (service, meth, payload) \<Rightarrow>
          map_option (\<lambda>(rid, effs, tasks, cl'). client_now (cl', tasks @ stack, log @ effs) effs y)
            (client_call4 lc kMax (\<lambda>_. True) True service meth payload k cl))
      | App_disconnect \<Rightarrow> (case client_disconnect cl of (effs, tasks, cl') \<Rightarrow>
          Some (client_now (cl', tasks @ stack, log @ effs) effs y))
      | App_stop \<Rightarrow> (case RpcServer_stop (fst (sy_server y)) of (acts, s') \<Rightarrow>
          Some (server_now (s', snd (sy_server y) @ map (Pair None) acts) (map (Pair None) acts) y))
      | App_quit \<Rightarrow> Some y
      | App_abort \<Rightarrow> None))"

fun program_exec ::
  "('k, 'a) program \<Rightarrow> bool \<Rightarrow> bool \<Rightarrow> nat \<Rightarrow> ('h \<Rightarrow> string \<Rightarrow> RpcResult \<Rightarrow> bool) \<Rightarrow> ('c, 'd, 'k, 'h) program_ev \<Rightarrow>
     ('c, 'd, 'k, 'h, 'w, 'a) running \<Rightarrow> ('c, 'd, 'k, 'h, 'w, 'a) running option" where
  "program_exec P lc ls kMax R (P_server e) x =
     map_option (\<lambda>y. x\<lparr>rn_system := y\<rparr>) (system_exec lc ls kMax R (Y_server e) (rn_system x))"
| "program_exec P lc ls kMax R (P_toServer conn) x =
     map_option (\<lambda>y. x\<lparr>rn_system := y\<rparr>) (system_exec lc ls kMax R (Y_toServer conn) (rn_system x))"
| "program_exec P lc ls kMax R (P_toClient conn) x =
     map_option (\<lambda>y. x\<lparr>rn_system := y\<rparr>) (system_exec lc ls kMax R (Y_toClient conn) (rn_system x))"
| "program_exec P lc ls kMax R (P_connection up conn) x = (case sy_client (rn_system x) of (cl, stack, log) \<Rightarrow>
     if stack \<noteq> [] \<or> \<not> cl_hasConnectAttempted cl then None
     else case onConnection (\<lambda>_. up) conn cl of (effs, tasks, cl') \<Rightarrow>
       Some (x\<lparr>rn_system := client_now (cl', tasks, log @ effs) effs (rn_system x)\<rparr>))"
| "program_exec P lc ls kMax R (P_task b) x = (case sy_client (rn_system x) of (cl, stack, log) \<Rightarrow>
     (case stack of
        [] \<Rightarrow> None
      | t # stack \<Rightarrow>
          if t = InUserCode then None
          else case run_task lc (\<lambda>_. True) t cl of (effs, tasks, cl') \<Rightarrow>
            (case run_callback P b t (rn_app x) of (code, app) \<Rightarrow>
               Some (x\<lparr>rn_system := client_now (cl', tasks @ stack, log @ effs) effs (rn_system x),
                 rn_code := code @ rn_code x, rn_app := app\<rparr>))))"
| "program_exec P lc ls kMax R P_command x = (case sy_client (rn_system x) of (cl, stack, log) \<Rightarrow>
     (case rn_code x of
        (c # cs) # code \<Rightarrow>
          if stack = [] \<or> hd stack \<noteq> InUserCode then None
          else map_option (\<lambda>y. x\<lparr>rn_system := y, rn_code := cs # code, rn_done := rn_done x @ [c]\<rparr>)
            (command_exec P lc kMax c (rn_system x))
      | _ \<Rightarrow> None))"
| "program_exec P lc ls kMax R P_return x = (case sy_client (rn_system x) of (cl, stack, log) \<Rightarrow>
     (case rn_code x of
        [] # code \<Rightarrow>
          if stack = [] \<or> hd stack \<noteq> InUserCode then None
          else Some (x\<lparr>rn_system := client_now (cl, tl stack, log) [] (rn_system x), rn_code := code\<rparr>)
      | _ \<Rightarrow> None))"

lemma command_exec_step:
  assumes x: "sy_client (rn_system x) = (cl, InUserCode # stack, log)" and code: "rn_code x = (c # cs) # code"
    and exec: "command_exec P lc kMax c (rn_system x) = Some y"
  shows "program_step P lc ls kMax R x (x\<lparr>rn_system := y, rn_code := cs # code, rn_done := rn_done x @ [c]\<rparr>)"
proof (cases c)
  case (App_call k)
  obtain service meth payload where site: "pg_site P k = (service, meth, payload)" by (metis prod_cases3)
  with exec x App_call obtain rid effs tasks cl' where
    "client_call4 lc kMax (\<lambda>_. True) True service meth payload k cl = Some (rid, effs, tasks, cl')"
    "y = client_now (cl', tasks @ InUserCode # stack, log @ effs) effs (rn_system x)"
    by (auto simp: command_exec_def)
  with pg_call[OF x _ site] code App_call show ?thesis by simp
next
  case App_disconnect
  with exec x obtain effs tasks cl' where "client_disconnect cl = (effs, tasks, cl')"
    "y = client_now (cl', tasks @ InUserCode # stack, log @ effs) effs (rn_system x)"
    by (auto simp: command_exec_def split: prod.splits)
  with pg_disconnect[OF x] code App_disconnect show ?thesis by simp
next
  case App_stop
  obtain s slog where s: "sy_server (rn_system x) = (s, slog)" by fastforce
  with exec x App_stop obtain acts s' where "RpcServer_stop s = (acts, s')"
    "y = server_now (s', slog @ map (Pair None) acts) (map (Pair None) acts) (rn_system x)"
    by (auto simp: command_exec_def split: prod.splits)
  with pg_stop[OF x _ s] code App_stop show ?thesis by simp
next
  case App_quit
  with exec x have "y = rn_system x" by (simp add: command_exec_def)
  then have "x\<lparr>rn_system := y, rn_code := cs # code, rn_done := rn_done x @ [c]\<rparr> =
      x\<lparr>rn_code := cs # code, rn_done := rn_done x @ [App_quit]\<rparr>"
    using App_quit by (cases x) simp
  with pg_quit[OF x] code App_quit show ?thesis by simp
qed (use exec x in \<open>simp add: command_exec_def\<close>)

lemma program_exec_step:
  assumes "program_exec P lc ls kMax R e x = Some x'"
  shows "program_step P lc ls kMax R x x'"
proof -
  obtain cl stack log where x: "sy_client (rn_system x) = (cl, stack, log)" by (metis prod_cases3)
  show ?thesis
  proof (cases e)
    case (P_server se)
    with assms obtain y where y: "system_exec lc ls kMax R (Y_server se) (rn_system x) = Some y" "x' = x\<lparr>rn_system := y\<rparr>" by auto
    moreover have "sy_client y = sy_client (rn_system x)" using y(1) by (auto split: if_splits)
    ultimately show ?thesis using pg_world[OF system_exec_step] by blast
  next
    case (P_toServer conn)
    with assms obtain y where y: "system_exec lc ls kMax R (Y_toServer conn) (rn_system x) = Some y" "x' = x\<lparr>rn_system := y\<rparr>" by auto
    moreover have "sy_client y = sy_client (rn_system x)" using y(1) by (auto simp: case_prod_unfold split: if_splits)
    ultimately show ?thesis using pg_world[OF system_exec_step] by blast
  next
    case (P_toClient conn)
    with assms x obtain bs fs where frame: "take_frame conn (sy_toClient (rn_system x)) = Some (bs, fs)" and "stack = []"
      by (auto split: if_splits)
    obtain effs tasks cl' where "client_onRpcMessage lc kMax conn bs cl = (effs, tasks, cl')" by (metis prod_cases3)
    moreover from this have "x' = x\<lparr>rn_system := client_now (cl', tasks, log @ effs) effs ((rn_system x)\<lparr>sy_toClient := fs\<rparr>)\<rparr>"
      using assms P_toClient x frame by (auto split: if_splits)
    ultimately show ?thesis
      using take_frame_split[OF frame] pg_frame[of x cl log] x \<open>stack = []\<close> by blast
  next
    case (P_connection up conn)
    obtain effs tasks cl' where op: "onConnection (\<lambda>_. up) conn cl = (effs, tasks, cl')" by (metis prod_cases3)
    with assms x P_connection have x': "stack = []" "cl_hasConnectAttempted cl"
      "x' = x\<lparr>rn_system := client_now (cl', tasks, log @ effs) effs (rn_system x)\<rparr>"
      by (auto split: if_splits)
    from ev_connection[OF x'(2), of "\<lambda>_ _. False" lc kMax "\<lambda>_. up" conn] op
    have "client_event (\<lambda>_ _. False) lc kMax cl (effs, tasks, cl')" by simp
    with pg_event[of x cl log] x x' show ?thesis by simp
  next
    case (P_task b)
    with assms x obtain t rest where "stack = t # rest" "t \<noteq> InUserCode" by (auto split: list.splits if_splits)
    moreover obtain effs tasks cl' code app where "run_task lc (\<lambda>_. True) t cl = (effs, tasks, cl')"
      "run_callback P b t (rn_app x) = (code, app)"
      by (metis prod_cases3 surj_pair)
    ultimately show ?thesis using assms x P_task pg_task[of x cl t rest log] by auto
  next
    case P_command
    with assms x obtain c cs code rest y where "rn_code x = (c # cs) # code" "stack = InUserCode # rest"
      "command_exec P lc kMax c (rn_system x) = Some y"
      "x' = x\<lparr>rn_system := y, rn_code := cs # code, rn_done := rn_done x @ [c]\<rparr>"
      by (auto split: list.splits if_splits) (metis list.exhaust_sel)
    with command_exec_step x show ?thesis by blast
  next
    case P_return
    with assms x obtain code rest where "rn_code x = [] # code" "stack = InUserCode # rest"
      "x' = x\<lparr>rn_system := client_now (cl, rest, log) [] (rn_system x), rn_code := code\<rparr>"
      by (auto split: list.splits if_splits) (metis list.exhaust_sel list.sel(3))
    with pg_return x show ?thesis by blast
  qed
qed

fun program_run ::
  "('k, 'a) program \<Rightarrow> bool \<Rightarrow> bool \<Rightarrow> nat \<Rightarrow> ('h \<Rightarrow> string \<Rightarrow> RpcResult \<Rightarrow> bool) \<Rightarrow> ('c, 'd, 'k, 'h) program_ev list \<Rightarrow>
     ('c, 'd, 'k, 'h, 'w, 'a) running \<Rightarrow> ('c, 'd, 'k, 'h, 'w, 'a) running option" where
  "program_run P lc ls kMax R [] x = Some x"
| "program_run P lc ls kMax R (e # es) x = Option.bind (program_exec P lc ls kMax R e x) (program_run P lc ls kMax R es)"

lemma program_run_steps: "program_run P lc ls kMax R es x = Some x' \<Longrightarrow> (program_step P lc ls kMax R)\<^sup>*\<^sup>* x x'"
proof (induction es arbitrary: x)
  case (Cons e es)
  then obtain z where "program_exec P lc ls kMax R e x = Some z" "program_run P lc ls kMax R es z = Some x'"
    by (auto split: Option.bind_splits)
  then show ?case by (intro converse_rtranclp_into_rtranclp[OF program_exec_step Cons.IH])
qed simp

lemma program_run_reachable:
  "program_start s app = Some x0 \<Longrightarrow> program_run P lc ls kMax R es x0 = Some x \<Longrightarrow> program_reachable P lc ls kMax R s app x"
  unfolding program_reachable_def using program_run_steps by blast

lemmas program_eval = program_start_def client_main_eq command_exec_def client_call4_def call_args_default_def

end
