(* ===== verification/Echo_Examples.thy ===== *)
theory Echo_Examples
  imports Example_Programs
begin

section \<open>The echo programs (src/examples)\<close>

text \<open>
  \<open>rpc_echo_server_example.cc\<close>, \<open>rpc_echo_client_example.cc\<close> and \<open>rpc_echo_example.cc\<close>: the server's handlers and
  its \<open>main\<close> up to \<open>loop.loop()\<close>, the callbacks of the clients as programs in the sense of \<open>Example_Programs\<close>. What
  is written to the standard streams is a list of lines. The sockets are in \<open>Example_Sockets\<close>.
\<close>

subsection \<open>The arguments\<close>

text \<open>\<open>stoi\<close> gives the number, or \<^const>\<open>None\<close> where \<open>std::stoi\<close> throws; a program starts with a port or ends with an exit
  code or an uncaught exception.\<close>

datatype startup = Port u16 | Exit int | Uncaught

definition echo_server_args :: "(string \<Rightarrow> int option) \<Rightarrow> string list \<Rightarrow> startup" where
  "echo_server_args stoi argv =
     (if length argv = 2 then
        (case stoi (argv ! 1) of
           None \<Rightarrow> Uncaught
         | Some val \<Rightarrow> if val < 0 \<or> val > 65535 then Exit 1 else Port (word_of_int val))
      else Port 0)"

definition echo_client_args :: "(string \<Rightarrow> int option) \<Rightarrow> string list \<Rightarrow> startup" where
  "echo_client_args stoi argv =
     (if length argv \<noteq> 3 then Exit 1
      else case stoi (argv ! 2) of
        None \<Rightarrow> Uncaught
      | Some val \<Rightarrow> if val < 1 \<or> val > 65535 then Exit 1 else Port (word_of_int val))"

text \<open>The narrowing to 16 bits never changes the port that was asked for.\<close>

lemma port_in_range: "0 \<le> val \<Longrightarrow> val \<le> 65535 \<Longrightarrow> uint (word_of_int val :: u16) = val"
  by (simp add: uint_word_of_int)

lemma echo_args_port:
  "echo_server_args stoi argv = Port p \<Longrightarrow> length argv = 2 \<Longrightarrow> stoi (argv ! 1) = Some (uint p)"
  "echo_client_args stoi argv = Port p \<Longrightarrow> stoi (argv ! 2) = Some (uint p) \<and> 0 < uint p"
  by (auto simp: echo_server_args_def echo_client_args_def port_in_range not_less split: if_splits option.splits)

subsection \<open>The echo server\<close>

text \<open>The three handlers give back the payload; the third one half a second later.\<close>

definition echo_result :: "string \<Rightarrow> RpcResult" where
  "echo_result payload = RpcResult_of_result kSuccess payload []"

definition echo_method :: "'w RpcHandler" where
  "echo_method payload w = (Some (echo_result payload), w)"

datatype echo_async = Async_echo | Async_echo_2

text \<open>An asynchronous handler is entered for the invocation \<open>i\<close>; \<open>canceled\<close> is what its token says at that moment. The second
  one only starts a timer; \<open>echo_timer\<close> is the function bound to it. The running timers are a list of
  invocations.\<close>

fun echo_invoke :: "echo_async \<Rightarrow> bool \<Rightarrow> nat \<Rightarrow> bool \<Rightarrow> ('c, echo_async, 'w) server \<times> nat list \<Rightarrow>
    ('c, echo_async, 'w) server \<times> nat list" where
  "echo_invoke Async_echo canceled i alive (s, timers) =
     (if canceled then (s, timers) else (async_reply i alive (echo_result (ac_payload (sv_calls s ! i))) s, timers))"
| "echo_invoke Async_echo_2 canceled i alive (s, timers) = (s, timers @ [i])"

definition echo_timer :: "bool \<Rightarrow> nat \<Rightarrow> bool \<Rightarrow> ('c, echo_async, 'w) server \<Rightarrow> ('c, echo_async, 'w) server" where
  "echo_timer canceled i alive s =
     (if canceled then s else async_reply i alive (echo_result (ac_payload (sv_calls s ! i))) s)"

text \<open>\<open>main\<close> of the server; \<^const>\<open>None\<close> is a failed assertion.\<close>

definition echo_server_main :: "'w \<Rightarrow> ('c, echo_async, 'w) server option" where
  "echo_server_main w = do {
     (registered, server) \<leftarrow> registerMethod ''service'' ''echo'' (Some echo_method) (RpcServer_new w);
     if \<not> registered then None else do {
       (registered, server) \<leftarrow> registerAsyncMethod ''service'' ''async_echo'' (Some Async_echo) server;
       if \<not> registered then None else do {
         (registered, server) \<leftarrow> registerAsyncMethod ''service'' ''async_echo_2'' (Some Async_echo_2) server;
         if \<not> registered then None else Some (RpcServer_start 0 server)
       }
     }
   }"

text \<open>What the asynchronous handlers may reply; the two functions above do no more than that.\<close>

definition echo_replies :: "echo_async \<Rightarrow> string \<Rightarrow> RpcResult \<Rightarrow> bool" where
  "echo_replies h payload res \<longleftrightarrow> res = echo_result payload"

lemma echo_invoke_step:
  assumes "call_begun s i" and "echo_invoke h canceled i alive (s, timers) = (s', timers')"
  shows "s' = s \<or> server_step_from M echo_replies ls kMax (s, log) (s', log)"
  using assms by (cases h) (auto split: if_splits intro!: sv_reply simp: echo_replies_def)

lemma echo_timer_step:
  assumes "call_begun s i"
  shows "echo_timer canceled i alive s = s \<or>
    server_step_from M echo_replies ls kMax (s, log) (echo_timer canceled i alive s, log)"
  using assms by (auto simp: echo_timer_def echo_replies_def intro!: sv_reply)

lemma echo_result_checked: "checked_result (Some (echo_result p)) = echo_result p"
  by (simp add: checked_result_def invalidRpcResult_def echo_result_def RpcResult_of_result_def word_le_nat_alt Let_def RpcResult_make_def)

lemma echo_server_tables:
  assumes "echo_server_main w = Some s"
  shows "sv_status s \<noteq> kNotStarted" and "table_find ''service'' ''echo'' (sv_syncHandlers s) = Some echo_method"
    and "table_find ''service'' ''async_echo'' (sv_syncHandlers s) = None" "table_find ''service'' ''async_echo_2'' (sv_syncHandlers s) = None"
    and "table_find ''service'' ''async_echo'' (sv_asyncHandlers s) = Some Async_echo"
    and "table_find ''service'' ''async_echo_2'' (sv_asyncHandlers s) = Some Async_echo_2"
  using assms
  by (auto simp: echo_server_main_def registerMethod_def registerAsyncMethod_def RpcServer_new_def registered_simps
      table_find_def table_insert_def RpcServer_start_def)

lemma echo_server_ready:
  assumes "echo_server_main w = Some s"
  shows "server_ready ls kMax R s"
proof -
  obtain s1 s2 s3 where r1: "registerMethod ''service'' ''echo'' (Some echo_method) (RpcServer_new w) = Some (True, s1)"
    and r2: "registerAsyncMethod ''service'' ''async_echo'' (Some Async_echo) s1 = Some (True, s2)"
    and r3: "registerAsyncMethod ''service'' ''async_echo_2'' (Some Async_echo_2) s2 = Some (True, s3)"
    and s: "s = RpcServer_start 0 s3"
    using assms by (auto simp: echo_server_main_def split: Option.bind_splits if_splits)
  have pool: "sv_taskPool (RpcServer_new w) = None" "sv_taskPool s1 = None" "sv_taskPool s2 = None" "sv_taskPool s3 = None"
    using r1 r2 r3
    by (auto simp: registerMethod_def registerAsyncMethod_def RpcServer_new_def split: if_splits prod.splits)
  note ready = ready_steps(2)[OF ready_steps(1) pool(1) cfg_method[OF r1]]
  note ready = ready_steps(2)[OF ready pool(2) cfg_async[OF r2]]
  note ready = ready_steps(2)[OF ready pool(3) cfg_async[OF r3]]
  show ?thesis unfolding s by (rule ready_steps(3)[OF ready pool(4)])
qed

text \<open>A successful answer of the echo server has the payload of the request.\<close>

lemma echo_outcome:
  assumes "outcome_of R s rq res" and "rr_result res = kSuccess"
    and "table_find (rq_service rq) (rq_method rq) (sv_syncHandlers s) = Some echo_method \<or>
      table_find (rq_service rq) (rq_method rq) (sv_syncHandlers s) = None \<and>
      table_find (rq_service rq) (rq_method rq) (sv_asyncHandlers s) \<noteq> None \<and> (\<forall>h p reply. R h p reply \<longrightarrow> reply = echo_result p)"
  shows "rr_payload res = rq_payload rq"
proof -
  have fail: "rr_result res \<noteq> kSuccess" if "res \<in> async_failures"
    using that by (auto simp: async_failures_def pool_refusals_def)
  have "rr_payload (echo_result p) = p" for p
    by (simp add: echo_result_def RpcResult_of_result_def Let_def)
  moreover have "res = echo_result (rq_payload rq)"
    using assms fail
    by (auto simp: outcome_of_def echo_method_def split: option.splits) (metis echo_result_checked)+
  ultimately show ?thesis by simp
qed

text \<open>So any program whose calls go to handlers that echo gets back what it sent.\<close>

lemma echo_program:
  assumes "server_ready ls kMax R s" "sv_status s \<noteq> kNotStarted" "program_reachable P lc ls kMax R s app x"
    and "sy_client (rn_system x) = (cl, stack, log)" "below_wrap log" "CalledBack k r \<in> set log"
    and success: "rs_responseResult r = kSuccess" and site: "pg_site P k = (service, meth, payload)"
    and table: "table_find service meth (sv_syncHandlers s) = Some echo_method \<or>
      table_find service meth (sv_syncHandlers s) = None \<and>
      table_find service meth (sv_asyncHandlers s) \<noteq> None \<and> (\<forall>h p reply. R h p reply \<longrightarrow> reply = echo_result p)"
  shows "rs_payload r = payload"
proof -
  let ?rq = "site_request P k (rs_requestId r)"
  have "answers R kMax s ?rq r" using program_answers[OF assms(1-6)] local_not_success success by blast
  then obtain res where res: "outcome_of R s ?rq res" "rr_result res = kSuccess" "rs_payload r = rr_payload res"
    using success by (rule answers_success)
  have "rr_payload res = rq_payload ?rq"
    using table by (intro echo_outcome[OF res(1,2)]) (simp add: site_request_def site)
  then show ?thesis by (simp add: res(3) site_request_def site)
qed

subsection \<open>The echo client\<close>

datatype line = Connected | ResponsePayload string | ResponseError string | ConnectError int

record echo_app =
  ea_callbackCnt :: int
  ea_out :: "line list"

text \<open>The three calls of the connection callback, each with its own, equal callback.\<close>

datatype echo_place = At_echo | At_async_echo | At_async_echo_2

fun echo_site :: "echo_place \<Rightarrow> string \<times> string \<times> string" where
  "echo_site At_echo = (''service'', ''echo'', ''Hello World'')"
| "echo_site At_async_echo = (''service'', ''async_echo'', ''Hello World async'')"
| "echo_site At_async_echo_2 = (''service'', ''async_echo_2'', ''Hello World async 2'')"

definition echo_onConnection :: "bool \<Rightarrow> echo_app \<Rightarrow> echo_place command list \<times> echo_app" where
  "echo_onConnection up app =
     (if up then ([App_call At_echo, App_call At_async_echo, App_call At_async_echo_2], app\<lparr>ea_out := ea_out app @ [Connected]\<rparr>)
      else ([App_quit], app))"

definition echo_onResponse :: "echo_place \<Rightarrow> RpcResponse \<Rightarrow> echo_app \<Rightarrow> echo_place command list \<times> echo_app" where
  "echo_onResponse k response app =
     (let app = app\<lparr>ea_out := ea_out app @
            [if rs_responseResult response = kSuccess then ResponsePayload (rs_payload response)
             else ResponseError (rs_errorMessage response)]\<rparr>;
          app = app\<lparr>ea_callbackCnt := ea_callbackCnt app + 1\<rparr>
      in (if ea_callbackCnt app = 3 then [App_disconnect] else [], app))"

definition echo_onError :: "int \<Rightarrow> echo_app \<Rightarrow> echo_place command list \<times> echo_app" where
  "echo_onError err app = ([App_abort], app\<lparr>ea_out := ea_out app @ [ConnectError err]\<rparr>)"

definition echo_client :: "(echo_place, echo_app) program" where
  "echo_client = \<lparr>pg_site = echo_site, pg_onConnection = echo_onConnection, pg_onResponse = echo_onResponse,
     pg_onError = echo_onError\<rparr>"

definition echo_app_new :: echo_app where
  "echo_app_new = \<lparr>ea_callbackCnt = 0, ea_out = []\<rparr>"

lemma echo_client_sel [simp]:
  "pg_site echo_client = echo_site" "pg_onConnection echo_client = echo_onConnection"
  "pg_onResponse echo_client = echo_onResponse" "pg_onError echo_client = echo_onError"
  by (simp_all add: echo_client_def)

text \<open>C9: the echo programs echo. In every run of the client program against the echo server, with any other clients, lost
  frames, cancelled or failing requests, a callback that gets a success gets exactly the payload its own call
  sent; so the only payloads the client ever prints are the three strings it sends.\<close>

theorem echo_client_echoes:
  assumes "echo_server_main w = Some s" and "program_reachable echo_client lc ls kMax echo_replies s echo_app_new x"
    and "sy_client (rn_system x) = (cl, stack, log)" and "below_wrap log"
  shows "(\<forall>k r. CalledBack k r \<in> set log \<longrightarrow> rs_responseResult r = kSuccess \<longrightarrow> rs_payload r = snd (snd (echo_site k))) \<and>
    (\<forall>p. ResponsePayload p \<in> set (ea_out (rn_app x)) \<longrightarrow> p \<in> {''Hello World'', ''Hello World async'', ''Hello World async 2''})"
proof
  note tables = echo_server_tables[OF assms(1)]
  have echo: "rs_payload r = snd (snd (echo_site k))"
    if "CalledBack k r \<in> set log" and success: "rs_responseResult r = kSuccess" for k r
    by (rule echo_program[OF echo_server_ready[OF assms(1)] tables(1) assms(2-4) that,
          where service = "fst (echo_site k)" and meth = "fst (snd (echo_site k))"])
      (use tables in \<open>cases k; simp add: echo_replies_def\<close>)+
  then show "\<forall>k r. CalledBack k r \<in> set log \<longrightarrow> rs_responseResult r = kSuccess \<longrightarrow> rs_payload r = snd (snd (echo_site k))"
    by blast
  let ?Q = "\<lambda>a. \<forall>p. ResponsePayload p \<in> set (ea_out a) \<longrightarrow> p \<in> {''Hello World'', ''Hello World async'', ''Hello World async 2''}"
  obtain x0 where x0: "program_start s echo_app_new = Some x0" "(program_step echo_client lc ls kMax echo_replies)\<^sup>*\<^sup>* x0 x"
    using assms(2) by (auto simp: program_reachable_def)
  from x0(2) show "?Q (rn_app x)"
  proof (rule program_app[where G = "\<lambda>k r. rs_responseResult r = kSuccess \<longrightarrow> rs_payload r = snd (snd (echo_site k))"])
    show "?Q (rn_app x0)" using x0(1) by (auto simp: program_start_def echo_app_new_def)
    show "rs_responseResult r = kSuccess \<longrightarrow> rs_payload r = snd (snd (echo_site k))"
      if "CalledBack k r \<in> set (snd (snd (sy_client (rn_system x))))" for k r
      using that echo by (simp add: assms(3))
    show "?Q (snd (pg_onResponse echo_client k r a))"
      if "?Q a" "rs_responseResult r = kSuccess \<longrightarrow> rs_payload r = snd (snd (echo_site k))" for k r a
      using that by (cases k) (auto simp: echo_onResponse_def Let_def)
  qed (auto simp: echo_onConnection_def echo_onError_def)
qed

text \<open>The variables of the client program and the commands it gives: every callback was counted, each connection
  leads to three calls, and the third callback to the disconnect.\<close>

definition is_call :: "'k command \<Rightarrow> bool" where
  "is_call c \<longleftrightarrow> (\<exists>k. c = App_call k)"

definition echo_inv :: "('c, 'd, echo_place, 'h, 'w, echo_app) running \<Rightarrow> bool" where
  "echo_inv x \<longleftrightarrow> (case sy_client (rn_system x) of (cl, stack, log) \<Rightarrow>
     ea_callbackCnt (rn_app x) = int (size (calls_of effect_call log)) \<and>
     length (issued log) + length (filter is_call (concat (rn_code x))) = 3 * count_list (ea_out (rn_app x)) Connected \<and>
     count_list (rn_done x @ concat (rn_code x)) App_disconnect = (if 3 \<le> ea_callbackCnt (rn_app x) then 1 else 0))"

lemma echo_inv_step:
  assumes "program_step echo_client lc ls kMax R x x'" and inv: "echo_inv x"
  shows "echo_inv x'"
  using assms(1)
proof (cases rule: program_step.cases)
  case (pg_world y)
  with inv show ?thesis by (simp add: echo_inv_def)
next
  case (pg_frame cl log fs conn bs fs' effs tasks cl')
  with inv message_silent[OF pg_frame(5)] show ?thesis by (simp add: echo_inv_def silent_effects_def)
next
  case (pg_event cl log effs tasks cl')
  with inv own_event[OF pg_event(3)] show ?thesis by (simp add: echo_inv_def own_failures_def silent_effects_def)
next
  case (pg_task cl t stack log up effs tasks cl' b code app)
  show ?thesis
  proof (cases t)
    case (DoCallback k r)
    with pg_task inv show ?thesis
      by (auto simp: echo_inv_def echo_onResponse_def Let_def calls_of_def is_call_def)
  next
    case (DoConnectionCallback conn)
    with pg_task inv show ?thesis
      by (cases b) (auto simp: echo_inv_def echo_onConnection_def is_call_def calls_of_def)
  next
    case (DoErrorCallback e)
    with pg_task inv show ?thesis
      by (auto simp: echo_inv_def echo_onError_def is_call_def calls_of_def)
  qed (use pg_task inv task_silent[OF pg_task(4)] in \<open>auto simp: echo_inv_def silent_effects_def\<close>)
next
  case (pg_call cl stack log k cs code service meth payload up rid effs tasks cl')
  obtain effs' where "effs = Issued rid k # effs'" "own_failures (effs', tasks, cl')"
    using own_call[OF pg_call(5)[unfolded client_call4_def]] by (auto simp: call_args_default_def)
  with pg_call inv show ?thesis
    by (auto simp: echo_inv_def is_call_def own_failures_def silent_effects_def calls_of_def)
next
  case (pg_disconnect cl stack log cs code effs tasks cl')
  with inv own_disconnect[of cl] show ?thesis
    by (simp add: echo_inv_def own_failures_def silent_effects_def is_call_def)
next
  case (pg_stop cl stack log cs code s slog acts s')
  with inv show ?thesis by (simp add: echo_inv_def is_call_def)
next
  case (pg_quit cl stack log cs code)
  with inv show ?thesis by (simp add: echo_inv_def is_call_def)
next
  case (pg_return cl stack log code)
  with inv show ?thesis by (simp add: echo_inv_def)
qed

lemma echo_inv_init: "program_start s echo_app_new = Some x \<Longrightarrow> echo_inv x"
  by (auto simp: program_start_def client_main_eq echo_inv_def echo_app_new_def calls_of_def)

interpretation echo: invariant_system "\<lambda>x. \<exists>s. program_start s echo_app_new = Some x" "program_step echo_client lc ls kMax R" echo_inv
  for lc ls kMax R
  by unfold_locales (auto intro: echo_inv_init echo_inv_step)

text \<open>C22: the echo client disconnects when, and only when, it is done. In every run in which the connection came up at
  most once, the callbacks are at most three, \<open>disconnect\<close> is called at most once, and when it has been
  called, all three calls have had their callback, one each, and nothing is pending: the disconnect
  cuts off no request.\<close>

theorem echo_client_disconnects:
  assumes "server_ready ls kMax R s" and "program_reachable echo_client lc ls kMax R s echo_app_new x"
    and "sy_client (rn_system x) = (cl, stack, log)" and "below_wrap log" and "count_list (ea_out (rn_app x)) Connected \<le> 1"
  shows "ea_callbackCnt (rn_app x) \<le> 3 \<and> count_list (rn_done x) App_disconnect \<le> 1 \<and>
    (App_disconnect \<in> set (rn_done x) \<longrightarrow> ea_callbackCnt (rn_app x) = 3 \<and>
       calls_of effect_call log = mset (issued log) \<and> cl_pendingRequests cl = [])"
proof -
  obtain x0 where "program_start s echo_app_new = Some x0" and run: "(program_step echo_client lc ls kMax R)\<^sup>*\<^sup>* x0 x"
    using assms(2) by (auto simp: program_reachable_def)
  then have "echo_inv x" using echo.inv_reachable[OF _ run] by blast
  then have cnt: "ea_callbackCnt (rn_app x) = int (size (calls_of effect_call log))" and three: "length (issued log) \<le> 3"
    and disc: "count_list (rn_done x) App_disconnect \<le> (if 3 \<le> ea_callbackCnt (rn_app x) then 1 else 0)"
    using assms(5) by (auto simp: echo_inv_def assms(3) split: if_splits)
  have "client_reachable lc kMax (cl, stack, log)"
    using program_inv_reachable[OF assms(1,2)] system_reachable_client assms(3) by (fastforce simp: program_inv_def)
  then have flow: "mset (issued log) = held_calls cl + calls_of task_call stack + calls_of effect_call log"
    using client_reachable_parts(3)[OF _ assms(4)] by (simp add: flow_ok_def)
  then have "length (issued log) = size (held_calls cl) + size (calls_of task_call stack) + size (calls_of effect_call log)"
    by (metis size_mset size_union)
  with three have le: "size (calls_of effect_call log) \<le> 3"
    and rest: "size (calls_of effect_call log) = 3 \<Longrightarrow> held_calls cl = {#} \<and> calls_of task_call stack = {#}"
    by simp_all
  have "ea_callbackCnt (rn_app x) = 3" if "App_disconnect \<in> set (rn_done x)"
    using that disc cnt le by (auto simp: count_list_0_iff split: if_splits)
  moreover have "cl_pendingRequests cl = []" if "held_calls cl = {#}"
    using that by (simp add: held_calls_def pending_calls_def)
  ultimately show ?thesis using cnt le rest flow disc by (auto split: if_splits)
qed

subsection \<open>The echo program (rpc_echo_example.cc)\<close>

text \<open>Server and client in one process. The server stops when the client's connection is gone.\<close>

definition echo_example_server :: "'w \<Rightarrow> ('c, 'h, 'w) server option" where
  "echo_example_server w = do {
     server \<leftarrow> server_setStopCompleteCallback True (RpcServer_new w);
     (res, server) \<leftarrow> registerMethod ''service'' ''method'' (Some echo_method) server;
     if \<not> res then None else Some (RpcServer_start 0 server)
   }"

definition example_onConnection :: "bool \<Rightarrow> line list \<Rightarrow> unit command list \<times> line list" where
  "example_onConnection up out = (if up then ([App_call ()], out) else ([App_stop], out))"

definition example_onResponse :: "unit \<Rightarrow> RpcResponse \<Rightarrow> line list \<Rightarrow> unit command list \<times> line list" where
  "example_onResponse k response out =
     ([App_disconnect],
      if rs_responseResult response = kSuccess then out @ [ResponsePayload (rs_payload response)]
      else if rs_responseResult response = kUnsuccess then out @ [ResponseError (rs_errorMessage response)]
      else out)"

definition example_onError :: "int \<Rightarrow> line list \<Rightarrow> unit command list \<times> line list" where
  "example_onError err out = ([App_abort], out)"

definition echo_example :: "(unit, line list) program" where
  "echo_example = \<lparr>pg_site = (\<lambda>_. (''service'', ''method'', ''hello world!'')), pg_onConnection = example_onConnection,
     pg_onResponse = example_onResponse, pg_onError = example_onError\<rparr>"

lemma echo_example_server_ready:
  assumes "echo_example_server w = Some (s :: ('c, 'h, 'w) server)"
  shows "server_ready ls kMax R s" and "sv_status s \<noteq> kNotStarted"
    and "table_find ''service'' ''method'' (sv_syncHandlers s) = Some echo_method"
proof -
  obtain s1 s2 :: "('c, 'h, 'w) server" where r1: "server_setStopCompleteCallback True (RpcServer_new w) = Some s1"
    and r2: "registerMethod ''service'' ''method'' (Some echo_method) s1 = Some (True, s2)" and s: "s = RpcServer_start 0 s2"
    using assms by (auto simp: echo_example_server_def split: Option.bind_splits if_splits)
  have pool: "sv_taskPool (RpcServer_new w :: ('c, 'h, 'w) server) = None" "sv_taskPool s1 = None" "sv_taskPool s2 = None"
    using r1 r2 by (auto simp: server_setStopCompleteCallback_def registerMethod_def RpcServer_new_def split: if_splits prod.splits)
  note ready = ready_steps(2)[OF ready_steps(1) pool(1) cfg_stop_callback[OF r1]]
  note ready = ready_steps(2)[OF ready pool(2) cfg_method[OF r2]]
  show "server_ready ls kMax R s" unfolding s by (rule ready_steps(3)[OF ready pool(3)])
  show "sv_status s \<noteq> kNotStarted" using pool(3) by (simp add: s RpcServer_start_def)
  show "table_find ''service'' ''method'' (sv_syncHandlers s) = Some echo_method"
    using r1 r2 pool(3)
    by (auto simp: s RpcServer_start_def server_setStopCompleteCallback_def registerMethod_def RpcServer_new_def registered_simps
        table_find_def table_insert_def)
qed

text \<open>The program prints its own payload or an error text, never anything else.\<close>

lemma echo_example_prints:
  assumes "echo_example_server w = Some s" and "program_reachable echo_example lc ls kMax R s [] x"
    and "below_wrap (snd (snd (sy_client (rn_system x))))"
  shows "\<forall>p. ResponsePayload p \<in> set (rn_app x) \<longrightarrow> p = ''hello world!''"
proof -
  note ready = echo_example_server_ready[OF assms(1)]
  obtain cl stack log where c: "sy_client (rn_system x) = (cl, stack, log)" by (metis prod_cases3)
  have wrap: "below_wrap log" using assms(3) by (simp add: c)
  have echo: "rs_payload r = ''hello world!''" if "CalledBack k r \<in> set log" "rs_responseResult r = kSuccess" for k r
    using ready(1,2) assms(2) c wrap that
    by (rule echo_program[where service = "''service''" and meth = "''method''"]) (simp_all add: ready(3) echo_example_def)
  obtain x0 where x0: "program_start s [] = Some x0" "(program_step echo_example lc ls kMax R)\<^sup>*\<^sup>* x0 x"
    using assms(2) by (auto simp: program_reachable_def)
  from x0(2) show ?thesis
    by (rule program_app[where G = "\<lambda>k r. rs_responseResult r = kSuccess \<longrightarrow> rs_payload r = ''hello world!''"])
      (use x0(1) echo c in \<open>auto simp: program_start_def echo_example_def example_onConnection_def example_onResponse_def example_onError_def\<close>)
qed

subsection \<open>A run of the echo programs\<close>

text \<open>The client connects and makes its three calls; the server answers all of them, and the client disconnects.\<close>

abbreviation calls_schedule :: "(nat, nat, echo_place, echo_async) program_ev list" where
  "calls_schedule \<equiv> [P_connection True 0, P_task True, P_command, P_command, P_command, P_return, P_task True, P_task True]"

abbreviation server_schedule :: "(nat, nat, echo_place, echo_async) program_ev list" where
  "server_schedule \<equiv> [P_toServer 0, P_toServer 0, P_toServer 0, P_server (E_reply 0 (echo_result ''Hello World async'')),
     P_server (E_reply 1 (echo_result ''Hello World async 2'')), P_server E_queued, P_server E_queued]"

abbreviation callbacks_schedule :: "(nat, nat, echo_place, echo_async) program_ev list" where
  "callbacks_schedule \<equiv> [P_toClient 0, P_task True, P_return, P_toClient 0, P_task True, P_return, P_toClient 0, P_task True, P_command]"

lemmas echo_eval = echo_server_main_def echo_client_def echo_onConnection_def echo_onResponse_def echo_app_new_def
  echo_result_def RpcResult_of_result_def echo_replies_def registerMethod_def echo_method_def invokeSyncHandler_eq
  fitted_result_def checked_result_def

lemma echo_run:
  "\<exists>(s :: ((nat, nat) peer, echo_async, unit) server) x0 x.
     echo_server_main () = Some s \<and> program_start s echo_app_new = Some x0 \<and>
     program_run echo_client True False 67108864 echo_replies (calls_schedule @ server_schedule @ callbacks_schedule) x0 = Some x \<and>
     rn_app x = \<lparr>ea_callbackCnt = 3, ea_out = [Connected, ResponsePayload ''Hello World'', ResponsePayload ''Hello World async'',
       ResponsePayload ''Hello World async 2'']\<rparr> \<and>
     rn_done x = [App_call At_echo, App_call At_async_echo, App_call At_async_echo_2, App_disconnect] \<and>
     length (issued (snd (snd (sy_client (rn_system x))))) = 3 \<and>
     CalledBack At_async_echo_2 (RpcResponse_make 3 kSuccess NO_ERROR ''Hello World async 2'' []) \<in> set (snd (snd (sy_client (rn_system x))))"
  by (simp add: program_eval echo_eval system_eval client_eval server_eval)

theorem echo_client_echoes_witness:
  "\<exists>(s :: ((nat, nat) peer, echo_async, unit) server) x k r. echo_server_main () = Some s \<and>
     program_reachable echo_client True False 67108864 echo_replies s echo_app_new x \<and>
     CalledBack k r \<in> set (snd (snd (sy_client (rn_system x)))) \<and> rs_responseResult r = kSuccess \<and>
     rs_payload r = snd (snd (echo_site k)) \<and> ResponsePayload ''Hello World'' \<in> set (ea_out (rn_app x))"
proof -
  obtain s :: "((nat, nat) peer, echo_async, unit) server" and x0 x where s: "echo_server_main () = Some s"
    and run: "program_start s echo_app_new = Some x0"
      "program_run echo_client True False 67108864 echo_replies (calls_schedule @ server_schedule @ callbacks_schedule) x0 = Some x"
    and x: "ResponsePayload ''Hello World'' \<in> set (ea_out (rn_app x))" "length (issued (snd (snd (sy_client (rn_system x))))) = 3"
      "CalledBack At_async_echo_2 (RpcResponse_make 3 kSuccess NO_ERROR ''Hello World async 2'' []) \<in> set (snd (snd (sy_client (rn_system x))))"
    using echo_run by fastforce
  note reach = program_run_reachable[OF run]
  obtain cl stack log where c: "sy_client (rn_system x) = (cl, stack, log)" by (metis prod_cases3)
  then have "below_wrap log" using x(2) by (simp add: below_wrap_def)
  from echo_client_echoes[OF s reach c this] x(3)
  have "rs_payload (RpcResponse_make 3 kSuccess NO_ERROR ''Hello World async 2'' []) = snd (snd (echo_site At_async_echo_2))"
    by (simp add: c RpcResponse_make_def)
  moreover have "rs_responseResult (RpcResponse_make 3 kSuccess NO_ERROR ''Hello World async 2'' []) = kSuccess"
    by (simp add: RpcResponse_make_def)
  ultimately show ?thesis using s reach x by blast
qed

theorem echo_client_disconnects_witness:
  "\<exists>(s :: ((nat, nat) peer, echo_async, unit) server) x. echo_server_main () = Some s \<and>
     program_reachable echo_client True False 67108864 echo_replies s echo_app_new x \<and>
     App_disconnect \<in> set (rn_done x) \<and> cl_pendingRequests (fst (sy_client (rn_system x))) = []"
proof -
  obtain s :: "((nat, nat) peer, echo_async, unit) server" and x0 x where s: "echo_server_main () = Some s"
    and run: "program_start s echo_app_new = Some x0"
      "program_run echo_client True False 67108864 echo_replies (calls_schedule @ server_schedule @ callbacks_schedule) x0 = Some x"
    and x: "rn_app x = \<lparr>ea_callbackCnt = 3, ea_out = [Connected, ResponsePayload ''Hello World'', ResponsePayload ''Hello World async'',
       ResponsePayload ''Hello World async 2'']\<rparr>" "App_disconnect \<in> set (rn_done x)"
      "length (issued (snd (snd (sy_client (rn_system x))))) = 3"
    using echo_run by fastforce
  note reach = program_run_reachable[OF run]
  obtain cl stack log where c: "sy_client (rn_system x) = (cl, stack, log)" by (metis prod_cases3)
  then have "below_wrap log" using x(3) by (simp add: below_wrap_def)
  from echo_client_disconnects[OF echo_server_ready[OF s] reach c this] x(1,2)
  have "cl_pendingRequests (fst (sy_client (rn_system x))) = []" by (simp add: c)
  with s reach x(2) show ?thesis by blast
qed

end
