(* ===== verification/Calculator_Example.thy ===== *)
theory Calculator_Example
  imports Example_Programs Calculator_Service Calculator_Client
begin

section \<open>The calculator program (src/examples/rpc_calculator_example.cc)\<close>

text \<open>
  One process with a calculator server and a calculator client: the client adds two numbers when it is connected, prints
  the result and disconnects; the loss of the connection stops the server. The watchdog timer, which
  ends a run by aborting the process, and the end of \<open>main\<close> are in \<open>Example_Sockets\<close>.
\<close>

definition calculator_server_main :: "bool \<Rightarrow> 'w \<Rightarrow> ('c, 'h, 'w) server option" where
  "calculator_server_main le w = do {
     server \<leftarrow> server_setStopCompleteCallback True (RpcServer_new w);
     (registered, server) \<leftarrow> registerCalculatorService le server;
     if \<not> registered then None else Some (RpcServer_start 0 server)
   }"

datatype sum_line = SumLine i32 | SumError string

text \<open>The one call, \<open>client.add(-7, 12, ...)\<close>, and its callback.\<close>

abbreviation sum_callback :: "unit rpc_callback" where
  "sum_callback \<equiv> wrapAddCallback ()"

definition sum_site :: "unit rpc_callback \<Rightarrow> string \<times> string \<times> string" where
  "sum_site k = (''Calculator'', ''Add'', operands_wire (- 7, 12))"

lemma sum_call:
  "calculator_add le kMax up inLoop (- 7) 12 () cl =
     (case sum_site sum_callback of (service, meth, payload) \<Rightarrow> client_call4 le kMax up inLoop service meth payload sum_callback cl)"
  by (simp add: calculator_add_def requestEncode_eq CalculatorProtocol_make_def sum_site_def)

definition sum_onConnection :: "bool \<Rightarrow> sum_line list \<Rightarrow> unit rpc_callback command list \<times> sum_line list" where
  "sum_onConnection up out = (if up then ([App_call sum_callback], out) else ([App_stop], out))"

definition sum_onResponse ::
  "bool \<Rightarrow> unit rpc_callback \<Rightarrow> RpcResponse \<Rightarrow> sum_line list \<Rightarrow> unit rpc_callback command list \<times> sum_line list" where
  "sum_onResponse le k response out =
     (case wrapped_argument le response of
        None \<Rightarrow> ([App_abort], out)
      | Some result \<Rightarrow>
          ([App_disconnect],
           if ar_status result = kSuccess then out @ [SumLine (ar_value result)]
           else if ar_status result = kUnsuccess then out @ [SumError (ar_errorMessage result)]
           else out))"

definition sum_onError :: "int \<Rightarrow> sum_line list \<Rightarrow> unit rpc_callback command list \<times> sum_line list" where
  "sum_onError err out = ([App_abort], out)"

definition sum_client :: "bool \<Rightarrow> (unit rpc_callback, sum_line list) program" where
  "sum_client le = \<lparr>pg_site = sum_site, pg_onConnection = sum_onConnection, pg_onResponse = sum_onResponse le,
     pg_onError = sum_onError\<rparr>"

lemma calculator_server_tables:
  assumes "calculator_server_main le w = Some (s :: ('c, 'h, 'w) server)"
  shows "server_ready ls kMax R s" and "sv_status s \<noteq> kNotStarted"
    and "table_find ''Calculator'' ''Add'' (sv_syncHandlers s) = Some (add_handler le)"
proof -
  obtain s1 s2 :: "('c, 'h, 'w) server" where r1: "server_setStopCompleteCallback True (RpcServer_new w) = Some s1"
    and r2: "registerCalculatorService le s1 = Some (True, s2)" and s: "s = RpcServer_start 0 s2"
    using assms by (auto simp: calculator_server_main_def split: Option.bind_splits if_splits)
  have pool: "sv_taskPool (RpcServer_new w :: ('c, 'h, 'w) server) = None" "sv_taskPool s1 = None" "sv_taskPool s2 = None"
    using r1 r2 by (auto simp: server_setStopCompleteCallback_def registerCalculatorService_def registerMethod_def RpcServer_new_def
        split: if_splits prod.splits)
  note ready = ready_steps(2)[OF ready_steps(1) pool(1) cfg_stop_callback[OF r1]]
  note ready = ready_steps(2)[OF ready pool(2) cfg_method[OF r2[unfolded registerCalculatorService_def]]]
  show "server_ready ls kMax R s" unfolding s by (rule ready_steps(3)[OF ready pool(3)])
  show "sv_status s \<noteq> kNotStarted" using pool(3) by (simp add: s RpcServer_start_def)
  show "table_find ''Calculator'' ''Add'' (sv_syncHandlers s) = Some (add_handler le)"
    using registerCalculatorService_table(1)[OF r2] pool(3) by (simp add: s RpcServer_start_def)
qed

text \<open>C24: the calculator program prints the right sum. In every run of the program, whatever the byte orders of client
  and server, and whatever other clients of the server do, a callback that gets a success gets the value 5, and
  the only sum the program prints is -7 + 12 = 5.\<close>

theorem calculator_example_sum:
  assumes "calculator_server_main ls w = Some s" and "program_reachable (sum_client lc) lc ls kMax R s [] x"
    and "sy_client (rn_system x) = (cl, stack, log)" and "below_wrap log"
  shows "(\<forall>k r. CalledBack k r \<in> set log \<longrightarrow> rs_responseResult r = kSuccess \<longrightarrow>
      wrapped_argument lc r = Some \<lparr>ar_status = kSuccess, ar_errorCode = NO_ERROR, ar_value = 5, ar_errorMessage = []\<rparr>) \<and>
    (\<forall>v. SumLine v \<in> set (rn_app x) \<longrightarrow> v = 5)"
proof
  note tables = calculator_server_tables[OF assms(1)]
  let ?sum = "\<lparr>ar_status = kSuccess, ar_errorCode = NO_ERROR, ar_value = 5, ar_errorMessage = []\<rparr>"
  have five: "wrapped_argument lc r = Some ?sum"
    if "CalledBack k r \<in> set log" and success: "rs_responseResult r = kSuccess" for k r
  proof -
    let ?rq = "site_request (sum_client lc) k (rs_requestId r)"
    have rq: "rq_service ?rq = ''Calculator''" "rq_method ?rq = ''Add''" "rq_payload ?rq = operands_wire (- 7, 12)"
      by (simp_all add: site_request_def sum_client_def sum_site_def)
    have "answers R kMax s ?rq r"
      using program_answers[OF tables(1,2) assms(2-4) that(1)] local_not_success success by blast
    then obtain res where "outcome_of R s ?rq res" "rs_payload r = rr_payload res"
      using success by (rule answers_success)
    moreover from this have "res = add_spec (Some (- 7, 12))"
      by (simp add: outcome_of_def rq tables(3) add_handler_def add_result_eq add_spec_checked operands_codec.dec_enc)
    ultimately show ?thesis
      using success by (simp add: wrapped_argument_eq add_spec_def result_codec.dec_enc)
  qed
  then show "\<forall>k r. CalledBack k r \<in> set log \<longrightarrow> rs_responseResult r = kSuccess \<longrightarrow> wrapped_argument lc r = Some ?sum" by blast
  obtain x0 where x0: "program_start s [] = Some x0" "(program_step (sum_client lc) lc ls kMax R)\<^sup>*\<^sup>* x0 x"
    using assms(2) by (auto simp: program_reachable_def)
  from x0(2) show "\<forall>v. SumLine v \<in> set (rn_app x) \<longrightarrow> v = 5"
  proof (rule program_app[where G = "\<lambda>k r. rs_responseResult r = kSuccess \<longrightarrow> wrapped_argument lc r = Some ?sum"])
    show "\<forall>v. SumLine v \<in> set (rn_app x0) \<longrightarrow> v = 5" using x0(1) by (auto simp: program_start_def)
    show "rs_responseResult r = kSuccess \<longrightarrow> wrapped_argument lc r = Some ?sum"
      if "CalledBack k r \<in> set (snd (snd (sy_client (rn_system x))))" for k r
      using that five by (simp add: assms(3))
    show "\<forall>v. SumLine v \<in> set (snd (pg_onResponse (sum_client lc) k r out)) \<longrightarrow> v = 5"
      if "\<forall>v. SumLine v \<in> set out \<longrightarrow> v = 5" "rs_responseResult r = kSuccess \<longrightarrow> wrapped_argument lc r = Some ?sum" for k r out
      using that
      by (cases "rs_responseResult r = kSuccess") (auto simp: sum_client_def sum_onResponse_def wrapped_argument_def)
  qed (auto simp: sum_client_def sum_onConnection_def sum_onError_def)
qed

subsection \<open>A run of the calculator program\<close>

abbreviation sum_schedule :: "(nat, nat, unit rpc_callback, nat) program_ev list" where
  "sum_schedule \<equiv> [P_connection True 0, P_task True, P_command, P_return, P_task True, P_task True, P_toServer 0,
     P_toClient 0, P_task True, P_command]"

lemmas sum_eval = calculator_server_main_def registerCalculatorService_def sum_client_def sum_site_def sum_onConnection_def
  sum_onResponse_def registerMethod_def wrapAddCallback_def invokeSyncHandler_eq add_handler_def add_result_eq
  operands_codec.dec_enc add_spec_def wrapped_argument_eq result_codec.dec_enc fitted_result_def checked_result_def

lemma sum_run:
  "\<exists>(s :: ((nat, nat) peer, nat, unit) server) x0 x.
     calculator_server_main False () = Some s \<and> program_start s [] = Some x0 \<and>
     program_run (sum_client True) True False 67108864 (\<lambda>_ _ _. False) sum_schedule x0 = Some x \<and>
     rn_app x = [SumLine 5] \<and> length (issued (snd (snd (sy_client (rn_system x))))) = 1"
  by (simp add: program_eval sum_eval system_eval client_eval server_eval)

theorem calculator_example_sum_witness:
  "\<exists>(s :: ((nat, nat) peer, nat, unit) server) x. calculator_server_main False () = Some s \<and>
     program_reachable (sum_client True) True False 67108864 (\<lambda>_ _ _. False) s [] x \<and>
     SumLine 5 \<in> set (rn_app x) \<and> (\<forall>v. SumLine v \<in> set (rn_app x) \<longrightarrow> v = 5)"
proof -
  obtain s :: "((nat, nat) peer, nat, unit) server" and x0 x where s: "calculator_server_main False () = Some s"
    and run: "program_start s [] = Some x0"
      "program_run (sum_client True) True False 67108864 (\<lambda>_ _ _. False) sum_schedule x0 = Some x"
    and x: "rn_app x = [SumLine 5]" "length (issued (snd (snd (sy_client (rn_system x))))) = 1"
    using sum_run by blast
  note reach = program_run_reachable[OF run]
  obtain cl stack log where c: "sy_client (rn_system x) = (cl, stack, log)" by (metis prod_cases3)
  then have "below_wrap log" using x(2) by (simp add: below_wrap_def)
  from calculator_example_sum[OF s reach c this] s reach x(1) show ?thesis by auto
qed

end
