(* ===== verification/Example_Sockets.thy ===== *)
theory Example_Sockets
  imports Echo_Examples Calculator_Example
begin

section \<open>How the example programs start\<close>

text \<open>
  The beginning of \<open>main\<close> in \<open>rpc_echo_server_example.cc\<close>, \<open>rpc_echo_example.cc\<close> and
  \<open>rpc_calculator_example.cc\<close>: the socket the server listens on is created, bound and asked for its address, before
  the server is set up and started; and the end of the calculator program. The system calls are parameters; \<open>ndebug\<close> says that the
  program is compiled with \<open>NDEBUG\<close>, where \<open>assert\<close> does not evaluate its argument.
\<close>

subsection \<open>The system calls\<close>

type_synonym sock_addr = "string \<times> u16"

record 'o sockets =
  os_socket :: "'o \<Rightarrow> int \<times> 'o"
  os_bind :: "int \<Rightarrow> sock_addr \<Rightarrow> 'o \<Rightarrow> int \<times> 'o"
  os_getsockname :: "int \<Rightarrow> sock_addr \<Rightarrow> 'o \<Rightarrow> int \<times> sock_addr \<times> 'o"
  os_close :: "int \<Rightarrow> 'o \<Rightarrow> 'o"

text \<open>How \<open>main\<close> gets on: it returns an exit code, an exception leaves it, an assertion fails, it calls \<open>std::abort\<close>,
  or it goes on with \<open>x\<close>.\<close>

datatype 'x progress = Returned int | Threw | Asserted | Aborted | Running 'x

text \<open>What POSIX says of the four calls, for the table of open descriptors and the addresses they are bound to: a new
  descriptor was not open and is not bound; a successful \<open>bind\<close> takes the given port, or some port for 0; a call that
  fails changes nothing; \<open>getsockname\<close> gives the address; \<open>close\<close> removes the descriptor.\<close>

definition posix :: "'o sockets \<Rightarrow> ('o \<Rightarrow> int \<rightharpoonup> sock_addr option) \<Rightarrow> bool" where
  "posix os fds \<longleftrightarrow>
     (\<forall>w fd w'. os_socket os w = (fd, w') \<longrightarrow>
        (if fd < 0 then fds w' = fds w else fds w fd = None \<and> fds w' = (fds w)(fd \<mapsto> None))) \<and>
     (\<forall>w fd ip port res w'. fds w fd = Some None \<longrightarrow> os_bind os fd (ip, port) w = (res, w') \<longrightarrow>
        (if res = 0 then \<exists>p. fds w' = (fds w)(fd \<mapsto> Some (ip, p)) \<and> p \<noteq> 0 \<and> (port = 0 \<or> p = port) else fds w' = fds w)) \<and>
     (\<forall>w fd addr a res addr' w'. fds w fd = Some (Some a) \<longrightarrow> os_getsockname os fd addr w = (res, addr', w') \<longrightarrow>
        fds w' = fds w \<and> (res = 0 \<longrightarrow> addr' = a)) \<and>
     (\<forall>w fd. fds (os_close os fd w) = (fds w)(fd := None))"

subsection \<open>The programs\<close>

definition echo_server_socket :: "'o sockets \<Rightarrow> u16 \<Rightarrow> 'o \<Rightarrow> (int \<times> sock_addr) progress \<times> 'o" where
  "echo_server_socket os port w =
     (let (serverFd, w) = os_socket os w; serverAddr = (''127.0.0.1'', port) in
      if serverFd < 0 then (Returned 1, w)
      else
        let (res, w) = os_bind os serverFd serverAddr w in
        if res \<noteq> 0 then (Returned 1, os_close os serverFd w)
        else
          let (res, serverAddr, w) = os_getsockname os serverFd serverAddr w in
          if res \<noteq> 0 then (Returned 1, os_close os serverFd w)
          else (Running (serverFd, serverAddr), w))"

definition calculator_socket :: "bool \<Rightarrow> 'o sockets \<Rightarrow> 'o \<Rightarrow> (int \<times> sock_addr) progress \<times> 'o" where
  "calculator_socket ndebug os w =
     (let (serverFd, w) = os_socket os w in
      if \<not> ndebug \<and> \<not> serverFd \<ge> 0 then (Asserted, w)
      else
        let serverAddr = (''127.0.0.1'', 0); (res, w) = os_bind os serverFd serverAddr w in
        if \<not> ndebug \<and> \<not> 0 = res then (Asserted, w)
        else
          let (res, serverAddr, w) = os_getsockname os serverFd serverAddr w in
          if \<not> ndebug \<and> \<not> 0 = res then (Asserted, w) else (Running (serverFd, serverAddr), w))"

text \<open>Here the calls themselves stand inside the assertions.\<close>

definition echo_example_socket :: "bool \<Rightarrow> 'o sockets \<Rightarrow> 'o \<Rightarrow> (int \<times> sock_addr) progress \<times> 'o" where
  "echo_example_socket ndebug os w =
     (let (serverFd, w) = os_socket os w in
      if \<not> ndebug \<and> \<not> serverFd \<ge> 0 then (Asserted, w)
      else
        let serverAddr = (''127.0.0.1'', 0) in
        if ndebug then (Running (serverFd, serverAddr), w)
        else
          let (res, w) = os_bind os serverFd serverAddr w in
          if \<not> 0 = res then (Asserted, w)
          else
            let (res, serverAddr, w) = os_getsockname os serverFd serverAddr w in
            if \<not> 0 = res then (Asserted, w) else (Running (serverFd, serverAddr), w))"

text \<open>\<open>main\<close> of the echo server up to the loop.\<close>

definition echo_server_program ::
  "(string \<Rightarrow> int option) \<Rightarrow> string list \<Rightarrow> 'o sockets \<Rightarrow> 'o \<Rightarrow> 'w \<Rightarrow>
     (('c, echo_async, 'w) server \<times> int \<times> sock_addr) progress \<times> 'o" where
  "echo_server_program stoi argv os w u =
     (case echo_server_args stoi argv of
        Exit n \<Rightarrow> (Returned n, w)
      | Uncaught \<Rightarrow> (Threw, w)
      | Port port \<Rightarrow>
          (case echo_server_socket os port w of
             (Running (serverFd, serverAddr), w) \<Rightarrow>
               (case echo_server_main u of
                  None \<Rightarrow> (Asserted, w)
                | Some server \<Rightarrow> (Running (server, serverFd, serverAddr), w))
           | (Returned n, w) \<Rightarrow> (Returned n, w)
           | (Threw, w) \<Rightarrow> (Threw, w)
           | (Asserted, w) \<Rightarrow> (Asserted, w)
           | (Aborted, w) \<Rightarrow> (Aborted, w)))"

subsection \<open>What becomes of the socket\<close>

lemma posix_laws:
  assumes "posix os fds"
  shows "os_socket os w = (fd, w') \<Longrightarrow> fd < 0 \<Longrightarrow> fds w' = fds w"
    and "os_socket os w = (fd, w') \<Longrightarrow> \<not> fd < 0 \<Longrightarrow> fds w fd = None \<and> fds w' = (fds w)(fd \<mapsto> None)"
    and "fds w fd = Some None \<Longrightarrow> os_bind os fd (ip, port) w = (0, w') \<Longrightarrow>
      \<exists>p. fds w' = (fds w)(fd \<mapsto> Some (ip, p)) \<and> p \<noteq> 0 \<and> (port = 0 \<or> p = port)"
    and "fds w fd = Some None \<Longrightarrow> os_bind os fd (ip, port) w = (res, w') \<Longrightarrow> res \<noteq> 0 \<Longrightarrow> fds w' = fds w"
    and "fds w fd = Some (Some a) \<Longrightarrow> os_getsockname os fd addr w = (res, addr', w') \<Longrightarrow>
      fds w' = fds w \<and> (res = 0 \<longrightarrow> addr' = a)"
    and "fds (os_close os fd w) = (fds w)(fd := None)"
proof -
  note laws = assms[unfolded posix_def]
  note socket = laws[THEN conjunct1, rule_format] and bind = laws[THEN conjunct2, THEN conjunct1, rule_format]
    and name = laws[THEN conjunct2, THEN conjunct2, THEN conjunct1, rule_format]
    and close = laws[THEN conjunct2, THEN conjunct2, THEN conjunct2, rule_format]
  show "os_socket os w = (fd, w') \<Longrightarrow> fd < 0 \<Longrightarrow> fds w' = fds w"
    and "os_socket os w = (fd, w') \<Longrightarrow> \<not> fd < 0 \<Longrightarrow> fds w fd = None \<and> fds w' = (fds w)(fd \<mapsto> None)"
    using socket[of w fd w'] by simp_all
  show "fds w fd = Some None \<Longrightarrow> os_bind os fd (ip, port) w = (0, w') \<Longrightarrow>
      \<exists>p. fds w' = (fds w)(fd \<mapsto> Some (ip, p)) \<and> p \<noteq> 0 \<and> (port = 0 \<or> p = port)"
    using bind[of w fd ip port 0 w'] by (simp only: simp_thms if_True)
  show "fds w fd = Some None \<Longrightarrow> os_bind os fd (ip, port) w = (res, w') \<Longrightarrow> res \<noteq> 0 \<Longrightarrow> fds w' = fds w"
    using bind[of w fd ip port res w'] by (simp only: simp_thms if_False)
  show "fds w fd = Some (Some a) \<Longrightarrow> os_getsockname os fd addr w = (res, addr', w') \<Longrightarrow>
      fds w' = fds w \<and> (res = 0 \<longrightarrow> addr' = a)"
    using name[of w fd a addr res addr' w'] by blast
  show "fds (os_close os fd w) = (fds w)(fd := None)" by (rule close)
qed

lemma echo_server_main_starts: "\<exists>s. echo_server_main w = Some s"
  by (simp add: echo_server_main_def registerMethod_def registerAsyncMethod_def RpcServer_new_def registered_simps
      table_find_def table_insert_def)

lemma echo_server_socket_outcome:
  assumes "posix os fds" and "echo_server_socket os port w = (r, w')"
  shows "(r = Returned 1 \<and> fds w' = fds w) \<or> (\<exists>fd p. r = Running (fd, (''127.0.0.1'', p)) \<and> fd \<ge> 0 \<and> fds w fd = None \<and>
    fds w' = (fds w)(fd \<mapsto> Some (''127.0.0.1'', p)) \<and> p \<noteq> 0 \<and> (port = 0 \<or> p = port))"
proof -
  note laws = posix_laws[OF assms(1)]
  obtain fd w1 where socket: "os_socket os w = (fd, w1)" by fastforce
  show ?thesis
  proof (cases "fd < 0")
    case True
    with assms(2) socket laws(1)[OF socket] show ?thesis by (simp add: echo_server_socket_def)
  next
    case False
    note fd = laws(2)[OF socket False]
    then have closed: "(fds w1)(fd := None) = fds w" and at: "fds w1 fd = Some None" by auto
    obtain res w2 where bind: "os_bind os fd (''127.0.0.1'', port) w1 = (res, w2)" by fastforce
    show ?thesis
    proof (cases "res = 0")
      case True
      from laws(3)[OF at bind[unfolded True]] obtain p where
        p: "fds w2 = (fds w1)(fd \<mapsto> Some (''127.0.0.1'', p))" "p \<noteq> 0" "port = 0 \<or> p = port" by blast
      obtain res' addr w3 where name: "os_getsockname os fd (''127.0.0.1'', port) w2 = (res', addr, w3)" by (metis prod_cases3)
      from laws(5)[OF _ name, of "(''127.0.0.1'', p)"] p(1) have
        w3: "fds w3 = fds w2" "res' = 0 \<longrightarrow> addr = (''127.0.0.1'', p)" by simp_all
      show ?thesis
      proof (cases "res' = 0")
        case True
        with assms(2) socket False bind \<open>res = 0\<close> name w3 p fd show ?thesis
          by (intro disjI2 exI[of _ fd] exI[of _ p]) (simp add: echo_server_socket_def)
      next
        case no: False
        with assms(2) socket False bind \<open>res = 0\<close> name have "r = Returned 1" "w' = os_close os fd w3"
          by (simp_all add: echo_server_socket_def)
        with closed p(1) w3(1) show ?thesis by (simp add: laws(6))
      qed
    next
      case no: False
      with assms(2) socket False bind have "r = Returned 1" "w' = os_close os fd w2" by (simp_all add: echo_server_socket_def)
      with closed laws(4)[OF at bind no] show ?thesis by (simp add: laws(6))
    qed
  qed
qed

text \<open>C40: The echo server starts or leaves nothing behind. On any system that behaves as POSIX says, its \<open>main\<close> either goes
  on with one new open descriptor, bound to the loopback address and the port that was asked for, or a port of the
  system's choice when none or 0 was asked for, and the address it prints is that one; or it ends with exit code 1 or
  with the exception of \<open>std::stoi\<close>, and then exactly the descriptors are open that were open before. No assertion
  fails.\<close>

theorem echo_server_starts_or_cleans_up:
  fixes r :: "(('c, echo_async, 'w) server \<times> int \<times> sock_addr) progress"
  assumes "posix os fds" and "echo_server_program stoi argv os w u = (r, w')"
  shows "case r of
      Running (server, fd, addr) \<Rightarrow> echo_server_main u = Some server \<and>
        fds w fd = None \<and> fds w' = (fds w)(fd \<mapsto> Some addr) \<and> fst addr = ''127.0.0.1'' \<and> snd addr \<noteq> 0 \<and>
        echo_server_args stoi argv \<in> {Port 0, Port (snd addr)}
    | Returned n \<Rightarrow> n = 1 \<and> fds w' = fds w
    | Threw \<Rightarrow> length argv = 2 \<and> stoi (argv ! 1) = None \<and> w' = w
    | _ \<Rightarrow> False"
proof (cases "echo_server_args stoi argv")
  case (Port port)
  obtain r1 w1 where socket: "echo_server_socket os port w = (r1, w1)" by fastforce
  obtain server :: "('c, echo_async, 'w) server" where "echo_server_main u = Some server"
    using echo_server_main_starts[of u] by (rule exE)
  with echo_server_socket_outcome[OF assms(1) socket] assms(2) Port socket show ?thesis
    by (auto simp: echo_server_program_def)
next
  case (Exit n)
  with assms(2) show ?thesis by (auto simp: echo_server_program_def echo_server_args_def split: if_splits option.splits)
next
  case Uncaught
  with assms(2) show ?thesis by (auto simp: echo_server_program_def echo_server_args_def split: if_splits option.splits)
qed

text \<open>The two programs with server and client in one process start in the same way when assertions are compiled in:
  the same calls in the same order with the same outcome. With \<open>NDEBUG\<close> the echo example makes none of the
  calls that stand inside its assertions: it goes on with a socket that is not bound and with port 0 as the address
  for its client, whatever the system would have answered.\<close>

lemma example_sockets_agree:
  "echo_example_socket False os w = calculator_socket False os w \<and>
   echo_example_socket True os w = (Running (fst (os_socket os w), (''127.0.0.1'', 0)), snd (os_socket os w))"
  by (simp add: echo_example_socket_def calculator_socket_def Let_def split: prod.split)

subsection \<open>How the calculator program ends\<close>

text \<open>The promise that is fulfilled when the server has stopped, and whether the loop was told to quit. Fulfilling a
  promise twice throws (\<^const>\<open>None\<close>). Once the loop has ended, \<open>main\<close> waits for the promise; \<open>waited\<close> says that
  another thread fulfils it in that time. The watchdog is a timer of the loop: its time and what it does.\<close>

record calculator_main =
  cm_ready :: bool
  cm_quit :: bool

definition calculator_stopComplete :: "calculator_main \<Rightarrow> calculator_main option" where
  "calculator_stopComplete c = (if cm_ready c then None else Some (c\<lparr>cm_ready := True, cm_quit := True\<rparr>))"

definition calculator_watchdog :: "milliseconds \<times> unit rpc_callback command list" where
  "calculator_watchdog = (3000, [App_abort])"

definition calculator_end :: "bool \<Rightarrow> calculator_main \<Rightarrow> unit progress" where
  "calculator_end waited c = (if \<not> (cm_ready c \<or> waited) then Aborted else Returned 0)"

definition stop_callbacks :: "nat \<Rightarrow> calculator_main option" where
  "stop_callbacks n = ((\<lambda>c. Option.bind c calculator_stopComplete) ^^ n) (Some \<lparr>cm_ready = False, cm_quit = False\<rparr>)"

text \<open>The callback for the end of \<open>stop\<close> never throws, and the loop ends by it only when the server has stopped; the
  program then returns 0 without waiting.\<close>

lemma calculator_program_ends:
  assumes "server_reachable le kMax (s, log)"
  shows "\<exists>c. stop_callbacks (completions log) = Some c \<and>
    (cm_quit c \<longrightarrow> calculator_end False c = Returned 0 \<and> sv_status s = kStopped \<and> sv_tcpServerStopped s)"
proof -
  have inv: "life_inv (s, log)" using server_reachable_inv[OF assms] by (simp add: server_inv_def)
  then consider "completions log = 0" | "completions log = 1" "sv_status s = kStopped" "sv_tcpServerStopped s"
    by (cases "sv_status s"; cases "sv_stopCallback s") (auto simp: life_inv_def life_def)
  then show ?thesis
    by cases (simp_all add: stop_callbacks_def calculator_stopComplete_def calculator_end_def)
qed

subsection \<open>Concrete instances\<close>

text \<open>A system whose only free descriptor is 3, which refuses port 80 and gives port 40000 for 0.\<close>

definition small_os :: "(int \<rightharpoonup> sock_addr option) sockets" where
  "small_os = \<lparr>os_socket = (\<lambda>w. if w 3 = None then (3, w(3 \<mapsto> None)) else (-1, w)),
     os_bind = (\<lambda>fd (ip, port) w. if port = 80 then (-1, w) else (0, w(fd \<mapsto> Some (ip, if port = 0 then 40000 else port)))),
     os_getsockname = (\<lambda>fd addr w. case w fd of Some (Some a) \<Rightarrow> (0, a, w) | _ \<Rightarrow> (-1, addr, w)),
     os_close = (\<lambda>fd w. w(fd := None))\<rparr>"

lemma small_os_posix: "posix small_os (\<lambda>w. w)"
  by (auto simp: posix_def small_os_def split: if_splits)

theorem echo_server_starts_or_cleans_up_witness:
  "\<exists>server :: (nat, echo_async, unit) server.
     echo_server_program (\<lambda>_. None) [''server''] small_os Map.empty () =
       (Running (server, 3, (''127.0.0.1'', 40000)), [3 \<mapsto> Some (''127.0.0.1'', 40000)]) \<and>
     fst (echo_server_program (\<lambda>_. Some 80) [''server'', ''80''] small_os Map.empty () ::
       ((nat, echo_async, unit) server \<times> int \<times> sock_addr) progress \<times> _) = Returned 1 \<and>
     snd (echo_server_program (\<lambda>_. Some 80) [''server'', ''80''] small_os Map.empty () ::
       ((nat, echo_async, unit) server \<times> int \<times> sock_addr) progress \<times> _) = Map.empty"
proof -
  obtain server :: "(nat, echo_async, unit) server" where server: "echo_server_main () = Some server"
    using echo_server_main_starts[of "()"] by (rule exE)
  have run: "echo_server_program (\<lambda>_. None) [''server''] small_os Map.empty () =
      (Running (server, 3, (''127.0.0.1'', 40000)), [3 \<mapsto> Some (''127.0.0.1'', 40000)])"
    by (simp add: echo_server_program_def echo_server_args_def echo_server_socket_def small_os_def server)
  obtain w' where busy: "(echo_server_program (\<lambda>_. Some 80) [''server'', ''80''] small_os Map.empty () ::
      ((nat, echo_async, unit) server \<times> int \<times> sock_addr) progress \<times> _) = (Returned 1, w')"
    by (simp add: echo_server_program_def echo_server_args_def echo_server_socket_def small_os_def)
  from echo_server_starts_or_cleans_up[OF small_os_posix busy] run busy show ?thesis by auto
qed

end
