(* ===== verification/Spec2Isabelle.thy ===== *)
theory Spec2Isabelle
  imports Rpc_Message Task_Thread_Pool Cancellation_Registry Rpc_Server Rpc_Server_Runs Rpc_Server_Answers
    Rpc_Server_Replies Rpc_Client Rpc_Client_Invariant Rpc_Client_Runs Rpc_Client_Resend Rpc_Client_Calls
    Rpc_Client_Reconnect Rpc_Client_Completion Rpc_System Calculator_Protocol Calculator_Service Calculator_Client
    Example_Programs Echo_Examples Calculator_Example Example_Sockets
begin

text \<open>
  \<^bold>\<open>Verification of mini_rpc.\<close> The repository is an RPC library in C++ on top of the event-loop library
  \<open>mini_muduo\<close>, with a calculator as its first service. A client encodes a request (service, method, payload) with a fresh 64-bit
  id and sends it as one frame; the server decodes it, runs a synchronous handler at once or hands an asynchronous one to
  a pool of worker threads, and sends one response with the id of the request; the client finds the pending request by
  the id and calls its callback. Requests can be cancelled, time out, and be sent again after a reconnect. This development
  models the library and the calculator function by function and proves what they promise.

  \<^bold>\<open>The theories and what they model.\<close>
  \<^item> \<open>Rpc_Prelude\<close>: integers of the C++ code as words, their bytes in host memory of either byte order, reads and writes of
    buffers (out of bounds: \<^const>\<open>None\<close>), hash maps as association lists, and the two interfaces the components share:
    the locale \<open>wire_codec\<close> (encoder and decoder of a format) and \<open>invariant_system\<close> (a step relation with an invariant).
  \<^item> \<open>Rpc_Message\<close> (\<open>src/src/RpcMessage.cc\<close>): the byte-order helpers, \<open>loadString\<close>, \<open>decodeHead\<close>, and \<open>encode\<close> and \<open>decode\<close> of
    \<open>RpcRequest\<close>, \<open>RpcResponse\<close> and \<open>RpcCancel\<close>, statement by statement. The decoders accept exactly the encodings of valid
    messages (three interpretations of \<open>wire_codec\<close>), never read outside the message, and the formats round-trip between hosts.
  \<^item> \<open>Task_Thread_Pool\<close> (\<open>TaskThreadPool.cc\<close>): \<open>start\<close>, \<open>addTask\<close>, \<open>run\<close>, \<open>stop\<close>, one step per critical section, all
    interleavings of workers, submitters and the stopping thread. Every accepted task runs exactly once before the pool is
    stopped, tasks start in order, no wake-up is lost, and \<open>stop\<close> terminates under every schedule.
  \<^item> \<open>Cancellation_Registry\<close> (the class at the top of \<open>RpcServer.cc\<close>): the two-level map from connection and request id to a
    token, behind the locale \<open>request_registry\<close>; it refines a partial map, its limits hold, and a settled request stays settled.
  \<^item> \<open>Rpc_Server\<close> and \<open>Rpc_Server_Runs\<close> (\<open>RpcServer.cc\<close>): method tables, dispatch, synchronous and asynchronous invocation,
    replies, cancellation, configuration, \<open>start\<close> and \<open>stop\<close> as functions on one record, and the step relation of
    the loop, the workers, the handlers and the stop thread. One response at most per invocation, proper frames only, limits, cancelled requests
    stay unanswered, and \<open>stop\<close> completes once and only when everything has ended. \<open>Rpc_Server_Answers\<close> states what the server
    as a whole promises (\<open>answers\<close>: the responses a request may get, given the method tables) and shows that every frame of every run is
    such an answer to a request received on that connection. \<open>Rpc_Server_Replies\<close> follows one asynchronous request over a run: its registration,
    the first reply, which is the one that is kept, and the functor that sends it.
  \<^item> \<open>Rpc_Client\<close>, \<open>Rpc_Client_Invariant\<close>, \<open>Rpc_Client_Runs\<close> and \<open>Rpc_Client_Resend\<close> (\<open>RpcClient.cc\<close>): calls from the loop and from other threads,
    cancellation, time-outs, loss of the connection, resending, \<open>connect\<close>, \<open>disconnect\<close>. Callbacks of the application are
    called from inside the client's functions and may call the client again; the model makes the call stack
    explicit (type \<open>task\<close>). Each call gets its callback exactly once, requests and timers correspond, the
    limits hold, what happens to each request on each event is stated, and no request
    is sent more often than its resend limit allows or with another content than it was called with. The destructor
    leaves no timer behind. \<open>Rpc_Client_Calls\<close> gives the exact outcome of every call, with the reason and the text of each refusal, and
    \<open>Rpc_Client_Reconnect\<close> composes the rounds of \<open>checkReconnect\<close> and states what a reconnect does to the whole state.
    \<open>Rpc_Client_Completion\<close> shows that from every state all calls can be brought to their callback.
  \<^item> \<open>Rpc_System\<close>: a client, a server with any other peers, and connections that keep the order of frames and may lose them,
    as one step relation over the step relations of the two sides. Whatever happens, a callback gets a failure of the client itself or an answer of the
    server to exactly the request that was called, and the server receives a request no more often than its resend limit allows.
  \<^item> \<open>Calculator_Protocol\<close>, \<open>Calculator_Service\<close>, \<open>Calculator_Client\<close> (\<open>src/calculator\<close>): the payload formats, the handler of
    \<open>Add\<close> with its overflow check, and the typed client.
  \<^item> \<open>Example_Programs\<close>, \<open>Echo_Examples\<close>, \<open>Calculator_Example\<close> (\<open>src/examples\<close>): a program is the code it runs in the callbacks of the client; its runs
    are runs of the system. The echo programs echo, the echo client disconnects only when all its calls have been answered, and the calculator
    program prints the right sum. \<open>Example_Sockets\<close> is the start of the programs, with the system calls as parameters under laws
    POSIX states (\<open>posix\<close>): the echo server starts with a bound socket, or ends and leaves no descriptor behind; and
    the end of the calculator program, which returns only after the server has stopped.
  \<^item> This theory composes client and server: a call of a synchronous and of an asynchronous method, an addition, and a cancellation, from the
    client's public function through the bytes on the wire to the callback.

  \<^bold>\<open>State and effects.\<close> A class is a record, an operation a function from record to record with the list of actions it has
  on the outside (frames sent, connections closed, callbacks made). Failed assertions are \<^const>\<open>None\<close>. Undefined behaviour is a
  value of its own (\<^const>\<open>None\<close> of a buffer access, the action \<^const>\<open>Undefined\<close>, the effect \<^const>\<open>Broken\<close>), and shown not to occur. Threads
  and events are inductive step relations; executable versions of them (\<open>server_exec\<close>, \<open>client_exec\<close>, \<open>system_exec\<close>,
  \<open>program_exec\<close>) run the concrete schedules of the witnesses.

  \<^bold>\<open>Outside the repository.\<close> Connections are values of a type parameter; whether one is up (\<open>up\<close>), the
  clock (\<open>now\<close>), the byte order (\<open>le\<close>), the maximal frame \<open>kMax\<close> of the codec, the handlers and the application's callbacks are
  parameters or free choices of a step. Of the event loop the client model uses that \<open>runAfter\<close> and \<open>runEvery\<close> return
  ids that are not in use, that \<open>cancel\<close> stops a timer, that a one-shot timer is gone when it fires, and that functors run in the
  order they were queued; a timer may fire at any time after it was started. The framing of \<open>LengthHeaderCodec\<close>
  enters as its size limit and, in \<open>Rpc_System\<close>, by frames arriving whole, in order and at most once on a connection.

  \<^bold>\<open>Bounds.\<close> No fuel is used: all functions terminate. The properties of client runs are for fewer than
  \<open>2 ^ 64\<close> calls, where the request counter does not wrap. Sizes of buffers are natural numbers; sums of lengths are reduced modulo
  \<open>2 ^ 64\<close> where the code computes them with \<open>size_t\<close>. Durations and clock readings are unbounded integers.

  \<^bold>\<open>Granularity.\<close> An event of a loop is one step up to the next callback of the application. A call from another thread takes its
  id and enters the queue of the loop in one step, so queued calls are in the order of their ids; in the code two threads may enter in the other
  order. Registering an asynchronous request and handing it to the pool is one step of the loop, although workers may run between
  them. A hash map is iterated in the order of the list that stands for it.

  \<^bold>\<open>Findings.\<close> \<open>Rpc_Server_Replies.canceled_reply_misdelivered\<close>: a late reply of a cancelled request is delivered as
  the response to a new request that reuses the id. \<open>Task_Thread_Pool.concurrent_stop_returns_early\<close>: a second \<open>stop\<close> returns before the pool has
  stopped, against the comment in the header. \<open>Example_Sockets.example_sockets_agree\<close>: compiled with \<open>NDEBUG\<close>, \<open>rpc_echo_example.cc\<close> does not bind its socket.

  \<^bold>\<open>Not modelled.\<close> The transport (sockets, framing, reconnection policy of \<open>TcpClient\<close>), which is in \<open>mini_muduo\<close>; checks of the calling
  thread (\<open>assertInLoopThread\<close>); diagnostic output; the half-close callbacks, which only shut the connection down; the tests.
\<close>

section \<open>From the client to the server and back\<close>

text \<open>A call that is sent leaves its request pending under the id it returns.\<close>

lemma sent_call:
  assumes "client_call le kMax up True a cl = Some (rid, effs, tasks, cl')" and "Send conn bs \<in> set effs"
  obtains p where "bs = request_wire \<lparr>rq_requestId = rid, rq_service = ca_service a, rq_method = ca_method a,
      rq_payload = ca_payload a\<rparr>"
    and "request_valid \<lparr>rq_requestId = rid, rq_service = ca_service a, rq_method = ca_method a, rq_payload = ca_payload a\<rparr>"
    and "m_find (cl_pendingRequests cl') rid = Some p" "pr_callback p = ca_callback a"
    and "client_max kMax cl' = client_max kMax cl"
proof -
  let ?a = "a\<lparr>ca_requestId := cl_nextRequestId cl\<rparr>" and ?cl = "cl\<lparr>cl_nextRequestId := cl_nextRequestId cl + 1\<rparr>"
  have call: "rid = cl_nextRequestId cl" "effs = Issued rid (ca_callback a) # fst (callInLoop le kMax up ?a ?cl)"
    "cl' = snd (snd (callInLoop le kMax up ?a ?cl))"
    using assms(1) by (auto simp: client_call_def Let_def split: if_splits prod.splits)
  then have sent: "Send conn bs \<in> set (fst (callInLoop le kMax up ?a ?cl))" using assms(2) by simp
  have acc: "call_accepted kMax up ?a ?cl"
  proof (rule ccontr)
    assume "\<not> ?thesis"
    from callInLoop_refused[OF this, of le] sent show False by (auto simp: refuse_call_def)
  qed
  obtain conn' where valid: "request_valid (pending_request (ca_requestId ?a) (accepted_request ?a ?cl))"
    and res: "callInLoop le kMax up ?a ?cl =
      ([Send conn' (request_wire (pending_request (ca_requestId ?a) (accepted_request ?a ?cl)))], [],
       add_request (ca_requestId ?a) (accepted_request ?a ?cl) ?cl)"
    by (rule callInLoop_accepted[OF acc, where le = le])
  have "client_max kMax cl' = client_max kMax cl" "\<exists>p. m_find (cl_pendingRequests cl') rid = Some p \<and> pr_callback p = ca_callback a"
    unfolding call(1,3) res by (auto simp: add_request_def block_defs umap_simps)
  with that valid sent call(1) show thesis unfolding res by auto
qed

text \<open>A valid request for a synchronous method whose result fits is answered with that result.\<close>

lemma sync_request_answered:
  assumes "request_valid r" and "mx = effectiveMaxMessageSize kMax s" and "length (request_wire r) \<le> mx" and "mx \<le> UINT32_MAX"
    and "table_find (rq_service r) (rq_method r) (sv_syncHandlers s) = Some h"
    and "h (rq_payload r) (sv_world s) = (out, w)" and "up conn"
    and "22 + length (rr_payload (checked_result out)) + length (rr_errorMessage (checked_result out)) \<le> mx"
  shows "server_onRpcMessage le kMax up conn (request_wire r) s =
    ([SendFrame conn (response_wire (RpcResponse_make (rq_requestId r) (rr_result (checked_result out))
        (rr_errorCode (checked_result out)) (rr_payload (checked_result out)) (rr_errorMessage (checked_result out))))],
     s\<lparr>sv_world := w\<rparr>)"
  using assms checked_result_valid[of out]
  by (simp add: onRpcMessage_request server_dispatch_def registered_simps invokeSyncHandler_eq fitted_result_def
      fitted_response_fits frames_for_def)

text \<open>A response to a pending request reaches its callback.\<close>

lemma response_delivered:
  assumes "outcome_valid res ec payload err" and "22 + length payload + length err \<le> client_max kMax cl"
    and "22 + length payload + length err \<le> UINT32_MAX"
    and "m_find (cl_pendingRequests cl) rid = Some p"
  shows "client_onRpcMessage le kMax conn (response_wire (RpcResponse_make rid res ec payload err)) cl =
    ([], [DoCallback (pr_callback p) (RpcResponse_make rid res ec payload err)],
     erase_pending rid (cancel_timer (pr_timerId p) cl))"
proof -
  let ?r = "RpcResponse_make rid res ec payload err"
  have "takes_response kMax cl ?r"
    using assms(1-3)
    by (simp add: takes_response_def response_valid_make length_response_wire_eq) (simp add: RpcResponse_make_def)
  from onRpcMessage_response[OF this] assms(4) show ?thesis by (simp add: RpcResponse_make_def)
qed

text \<open>C4: a call of a synchronous method, from the client to the server and back, on hosts of any byte order. If the
  call has been sent, the server has the method, and request and result fit the limits on both sides, then the
  server answers the bytes of the request with one frame, and that frame makes the client call the callback of this
  very call with the checked result of the handler, run on the payload of the call; the request is no longer
  pending.\<close>

theorem sync_call_end_to_end:
  fixes s :: "('d, 'h, 'w) server"
  assumes "client_call le kMax up True a cl = Some (rid, effs, tasks, cl')" and "Send conn bs \<in> set effs"
    and "mx = effectiveMaxMessageSize kMax s" and "length bs \<le> mx" and "mx \<le> UINT32_MAX"
    and "table_find (ca_service a) (ca_method a) (sv_syncHandlers s) = Some h"
    and "h (ca_payload a) (sv_world s) = (out, w)" and "up_s sconn"
    and "22 + length (rr_payload (checked_result out)) + length (rr_errorMessage (checked_result out)) \<le>
      min mx (client_max kMax cl)"
  shows "\<exists>bs' cl''. server_onRpcMessage sle kMax up_s sconn bs s = ([SendFrame sconn bs'], s\<lparr>sv_world := w\<rparr>) \<and>
    client_onRpcMessage le kMax conn bs' cl' =
      ([], [DoCallback (ca_callback a) (RpcResponse_make rid (rr_result (checked_result out))
         (rr_errorCode (checked_result out)) (rr_payload (checked_result out)) (rr_errorMessage (checked_result out)))], cl'') \<and>
    m_find (cl_pendingRequests cl'') rid = None"
proof -
  let ?x = "checked_result out"
  let ?req = "\<lparr>rq_requestId = rid, rq_service = ca_service a, rq_method = ca_method a, rq_payload = ca_payload a\<rparr>"
  let ?r = "RpcResponse_make rid (rr_result ?x) (rr_errorCode ?x) (rr_payload ?x) (rr_errorMessage ?x)"
  obtain p where p: "bs = request_wire ?req" "request_valid ?req" "m_find (cl_pendingRequests cl') rid = Some p"
    "pr_callback p = ca_callback a" "client_max kMax cl' = client_max kMax cl"
    by (rule sent_call[OF assms(1,2)])
  have "server_onRpcMessage sle kMax up_s sconn bs s = ([SendFrame sconn (response_wire ?r)], s\<lparr>sv_world := w\<rparr>)"
    using sync_request_answered[of ?req mx kMax s h out w up_s sconn sle] assms p by simp
  moreover have "client_onRpcMessage le kMax conn (response_wire ?r) cl' =
      ([], [DoCallback (ca_callback a) ?r], erase_pending rid (cancel_timer (pr_timerId p) cl'))"
    using response_delivered[OF checked_result_valid, of out kMax cl' rid p le conn] assms(5,9) p by simp
  moreover have "m_find (cl_pendingRequests (erase_pending rid (cancel_timer (pr_timerId p) cl'))) rid = None"
    by (simp add: block_defs umap_simps)
  ultimately show ?thesis by blast
qed

text \<open>C5: a call of an asynchronous method, from the client to the server and back, whatever else the server does in
  between. The call has been sent, the server has the method and room for the request. The server sends nothing for
  the message but keeps an invocation of the handler with the payload of the call. After any run of the server in
  which that invocation was not replied to, its handler replies, and after any further run the functor this queued is
  executed while the request is still registered (neither cancelled nor its connection lost). Then exactly one frame is sent: it carries the
  checked first reply, later replies have no influence, and it makes the client call the callback of this very call
  with that result; the request is then neither registered in the server nor pending in the client.\<close>

theorem async_call_end_to_end:
  fixes s :: "('d, 'h, 'w) server"
  assumes "client_call le kMax up True a cl = Some (rid, effs, tasks, cl')" and "Send conn bs \<in> set effs"
    and "server_reachable sle kMax (s, log)" and "sv_status s \<noteq> kNotStarted"
    and "mx = effectiveMaxMessageSize kMax s" and "length bs \<le> mx" and "mx \<le> UINT32_MAX"
    and "table_find (ca_service a) (ca_method a) (sv_syncHandlers s) = None"
    and "table_find (ca_service a) (ca_method a) (sv_asyncHandlers s) = Some h" and "has_room sconn rid s"
    and "server_onRpcMessage sle kMax up_s sconn bs s = (acts, s1)" and "i = length (sv_calls s)"
    and "(server_step sle kMax)\<^sup>*\<^sup>* (s1, log) (s2, log2)" and "call_begun s2 i" and "\<not> ac_replied (sv_calls s2 ! i)"
    and "(server_step sle kMax)\<^sup>*\<^sup>* (async_reply i alive res s2, log2) (s3, log3)"
    and "sv_queue s3 = qs @ q # qs'" and "qr_call q = i" and "registry_lookup (sv_registry s3) sconn rid = Some tok"
    and "up_s' sconn" and "22 + length (rr_payload (checked_result (Some res))) + length (rr_errorMessage (checked_result (Some res))) \<le>
      min mx (client_max kMax cl)"
  shows "acts = [] \<and>
    sv_calls s1 = sv_calls s @ [\<lparr>ac_conn = sconn, ac_requestId = rid, ac_payload = ca_payload a, ac_handler = h, ac_replied = False\<rparr>] \<and>
    (\<exists>bs' s4 cl''. run_queued_reply sle kMax up_s' True q (s3\<lparr>sv_queue := qs @ qs'\<rparr>) = ([SendFrame sconn bs'], s4) \<and>
      registry_lookup (sv_registry s4) sconn rid = None \<and>
      client_onRpcMessage le kMax conn bs' cl' =
        ([], [DoCallback (ca_callback a) (RpcResponse_make rid (rr_result (checked_result (Some res)))
           (rr_errorCode (checked_result (Some res))) (rr_payload (checked_result (Some res)))
           (rr_errorMessage (checked_result (Some res))))], cl'') \<and>
      m_find (cl_pendingRequests cl'') rid = None)"
proof -
  let ?x = "checked_result (Some res)"
  let ?req = "\<lparr>rq_requestId = rid, rq_service = ca_service a, rq_method = ca_method a, rq_payload = ca_payload a\<rparr>"
  let ?r = "RpcResponse_make rid (rr_result ?x) (rr_errorCode ?x) (rr_payload ?x) (rr_errorMessage ?x)"
  obtain p where p: "bs = request_wire ?req" "request_valid ?req" "m_find (cl_pendingRequests cl') rid = Some p"
    "pr_callback p = ca_callback a" "client_max kMax cl' = client_max kMax cl"
    by (rule sent_call[OF assms(1,2)])
  have s1: "acts = []" "sv_calls s1 = sv_calls s @ [new_call sconn ?req h]"
    using async_request_registered[of ?req kMax s h sconn sle up_s] assms(5,6,8-11) p(1,2) by auto
  have "server_step sle kMax (s, log) (s1, log @ map (Pair None) acts)" using assms(4,11) by (rule sv_message) simp
  then have reach1: "server_reachable sle kMax (s1, log)"
    using server_reachable_steps[OF assms(3) r_into_rtranclp] s1(1) by simp
  have started1: "sv_status s1 \<noteq> kNotStarted" "effectiveMaxMessageSize kMax s1 = mx"
    using message_tables[OF assms(11)] assms(4,5) by (simp_all add: same_tables_def effectiveMaxMessageSize_def)
  note reach2 = server_reachable_steps[OF reach1 assms(13)] and keep2 = server_run_keeps[OF reach1 assms(13)]
  have i: "i < length (sv_calls s2)" using assms(14) by (simp add: call_begun_def)
  let ?s2 = "async_reply i alive res s2"
  have step: "server_step sle kMax (s2, log2) (?s2, log2)" using assms(14) by (rule sv_reply) simp
  have reach2': "server_reachable sle kMax (?s2, log2)" using server_reachable_steps[OF reach2] step by blast
  note keep3 = server_run_keeps[OF reach2' assms(16)] and reach3 = server_reachable_steps[OF reach2' assms(16)]
  have kept: "replied_with i ?x s3"
    using keep3(2) replied_with_first[OF i assms(15) async_inv_parts(2)[OF server_reachable_async[OF reach2]]] by blast
  have "calls_grow s1 s3"
    using keep2(1) calls_grow_reply keep3(1) calls_grow_trans by blast
  then have "ac_conn (sv_calls s3 ! i) = sconn" "ac_requestId (sv_calls s3 ! i) = rid"
    by (auto simp: calls_grow_def s1(2) assms(12) new_call_def nth_append)
  then have q: "qr_conn q = sconn" "qr_requestId q = rid" "qr_result q = ?x"
    using async_inv_parts(3)[OF server_reachable_async[OF reach3]] kept assms(17,18)
    by (auto simp: queue_ok_def replied_with_def)
  have "effectiveMaxMessageSize kMax s2 = mx" "sv_status s2 \<noteq> kNotStarted" using keep2(3) started1 by auto
  then have mx: "mx = effectiveMaxMessageSize kMax s3"
    using keep3(3) by (simp add: effectiveMaxMessageSize_def)
  obtain s4 where "run_queued_reply sle kMax up_s' True q (s3\<lparr>sv_queue := qs @ qs'\<rparr>) = ([SendFrame sconn (response_wire ?r)], s4)"
    "registry_lookup (sv_registry s4) sconn rid = None"
    using queued_reply_sends[OF reach3 assms(17) _ _ q(3) mx assms(7), of tok up_s'] assms(19-21) unfolding q(1,2) by auto
  moreover have "client_onRpcMessage le kMax conn (response_wire ?r) cl' =
      ([], [DoCallback (ca_callback a) ?r], erase_pending rid (cancel_timer (pr_timerId p) cl'))"
    using response_delivered[OF checked_result_valid, of "Some res" kMax cl' rid p le conn] assms(7,21) p by simp
  moreover have "m_find (cl_pendingRequests (erase_pending rid (cancel_timer (pr_timerId p) cl'))) rid = None"
    by (simp add: block_defs umap_simps)
  ultimately show ?thesis using s1 by (auto simp: new_call_def)
qed

text \<open>Starting the server keeps its methods and limits.\<close>

lemma RpcServer_start_frame:
  "sv_syncHandlers (RpcServer_start n s) = sv_syncHandlers s" "sv_world (RpcServer_start n s) = sv_world s"
  "sv_maxMessageSize (RpcServer_start n s) = sv_maxMessageSize s"
  by (simp_all add: RpcServer_start_def Let_def split: option.split)

lemma add_spec_length: "length (rr_payload (add_spec ops)) + length (rr_errorMessage (add_spec ops)) \<le> 19"
  by (simp add: add_spec_def RpcResult_make_def split: option.split prod.split)

text \<open>C7: the whole path of an addition. \<open>CalculatorClient::add\<close> on a client whose request is sent, and a server on
  which the calculator service was registered before it was started, with a message limit of at least 44 bytes: the server answers with one
  frame and the application's callback gets the mathematical sum of the two operands when it is an \<open>int32_t\<close>, and
  the business error "integer overflow" when it is not, whatever the byte orders of the two hosts.\<close>

theorem add_end_to_end:
  fixes s0 :: "('d, 'h, 'w) server"
  assumes "calculator_add le kMax up True a b cb cl = Some (rid, effs, tasks, cl')" and "Send conn bs \<in> set effs"
    and "registerCalculatorService sle s0 = Some (True, s1)" and "s = RpcServer_start threads s1"
    and "44 \<le> effectiveMaxMessageSize kMax s" and "effectiveMaxMessageSize kMax s \<le> UINT32_MAX"
    and "44 \<le> client_max kMax cl" and "up_s sconn"
  shows "\<exists>bs' r cl''. server_onRpcMessage sle kMax up_s sconn bs s = ([SendFrame sconn bs'], s) \<and>
    client_onRpcMessage le kMax conn bs' cl' = ([], [DoCallback (WrapAdd cb) r], cl'') \<and>
    (if INT32_MIN \<le> sint a + sint b \<and> sint a + sint b \<le> INT32_MAX
     then \<exists>v. wrapped_argument le r = Some \<lparr>ar_status = kSuccess, ar_errorCode = NO_ERROR, ar_value = v, ar_errorMessage = []\<rparr> \<and>
       sint v = sint a + sint b
     else wrapped_argument le r = Some \<lparr>ar_status = kUnsuccess, ar_errorCode = BUSINESS_ERROR, ar_value = 0,
       ar_errorMessage = ''integer overflow''\<rparr>)"
proof -
  let ?args = "call_args_default ''Calculator'' ''Add'' (operands_wire (a, b)) (WrapAdd cb) (cl_defaultTimeout cl) cl"
  let ?x = "add_spec (Some (a, b))"
  let ?r = "RpcResponse_make rid (rr_result ?x) (rr_errorCode ?x) (rr_payload ?x) (rr_errorMessage ?x)"
  have call: "client_call le kMax up True ?args cl = Some (rid, effs, tasks, cl')"
    using assms(1)
    by (simp add: calculator_add_def requestEncode_eq CalculatorProtocol_make_def client_call4_def wrapAddCallback_def)
  have args: "ca_service ?args = ''Calculator''" "ca_method ?args = ''Add''" "ca_payload ?args = operands_wire (a, b)"
    "ca_callback ?args = WrapAdd cb"
    by (simp_all add: call_args_default_def)
  let ?req = "\<lparr>rq_requestId = rid, rq_service = ''Calculator'', rq_method = ''Add'', rq_payload = operands_wire (a, b)\<rparr>"
  obtain p where p: "bs = request_wire ?req" "request_valid ?req"
    "m_find (cl_pendingRequests cl') rid = Some p" "pr_callback p = WrapAdd cb" "client_max kMax cl' = client_max kMax cl"
    by (rule sent_call[OF call assms(2), unfolded args])
  have table: "table_find ''Calculator'' ''Add'' (sv_syncHandlers s) = Some (add_handler sle)"
    using registerCalculatorService_table(1)[OF assms(3)] by (simp add: assms(4) RpcServer_start_frame)
  have out: "add_handler sle (operands_wire (a, b)) (sv_world s) = (Some ?x, sv_world s)"
    by (simp add: add_handler_def add_result_eq operands_codec.dec_enc)
  have len: "22 + length (rr_payload ?x) + length (rr_errorMessage ?x) \<le> 41"
    using add_spec_length[of "Some (a, b)"] by simp
  have "length bs = 44" by (simp add: p(1) length_request_wire_eq)
  then have "server_onRpcMessage sle kMax up_s sconn bs s = ([SendFrame sconn (response_wire ?r)], s)"
    using sync_request_answered[of ?req "effectiveMaxMessageSize kMax s" kMax s "add_handler sle" "Some ?x" "sv_world s" up_s sconn sle]
      assms(5,6,8) p(1,2) table out len
    by (simp add: add_spec_checked)
  moreover have "client_onRpcMessage le kMax conn (response_wire ?r) cl' =
      ([], [DoCallback (WrapAdd cb) ?r], erase_pending rid (cancel_timer (pr_timerId p) cl'))"
    using response_delivered[OF checked_result_valid[of "Some ?x"], of kMax cl' rid p le conn] len assms(7) p(3-5)
    by (simp add: add_spec_checked)
  moreover have "if INT32_MIN \<le> sint a + sint b \<and> sint a + sint b \<le> INT32_MAX
     then \<exists>v. wrapped_argument le ?r = Some \<lparr>ar_status = kSuccess, ar_errorCode = NO_ERROR, ar_value = v, ar_errorMessage = []\<rparr> \<and>
       sint v = sint a + sint b
     else wrapped_argument le ?r = Some \<lparr>ar_status = kUnsuccess, ar_errorCode = BUSINESS_ERROR, ar_value = 0,
       ar_errorMessage = ''integer overflow''\<rparr>"
    using sint_sum[of a b]
    by (auto simp: wrapped_argument_eq add_spec_def RpcResponse_make_def result_codec.dec_enc)
  ultimately show ?thesis by blast
qed

text \<open>C33: a cancellation reaches the server. When cancelling a pending request sends a message, the server that gets
  it and still has the request under way marks the request's token as cancelled and forgets the request, and sends
  nothing; the client's callback is called with \<open>REQUEST_CANCELED\<close>.\<close>

theorem cancel_end_to_end:
  fixes s :: "('d, 'h, 'w) server"
  assumes "m_find (cl_pendingRequests cl) rid = Some p"
    and "cancelInLoop le up now rid cl = (effs, tasks, cl')" and "Send conn bs \<in> set effs"
    and "11 \<le> effectiveMaxMessageSize kMax s" and "registry_lookup (sv_registry s) sconn rid = Some t"
  shows "tasks = [DoCallback (pr_callback p) (failed_response rid REQUEST_CANCELED ''rpc request canceled'')] \<and>
    (\<exists>s'. server_onRpcMessage sle kMax up_s sconn bs s = ([], s') \<and>
      isCanceled (sv_registry s') t \<and> registry_lookup (sv_registry s') sconn rid = None)"
proof -
  have "bs = cancel_wire \<lparr>cn_requestId = rid\<rparr>"
    using assms(1-3) by (auto simp: cancelInLoop_def sendCancel_def RpcCancel_encode_eq Let_def split: if_splits option.splits)
  then have "server_onRpcMessage sle kMax up_s sconn bs s = ([], cancelAsync sconn rid s)"
    using onRpcMessage_cancel[OF assms(4), of sle up_s sconn "\<lparr>cn_requestId = rid\<rparr>"] by simp
  moreover have "isCanceled (sv_registry (cancelAsync sconn rid s)) t"
    using assms(5) by (simp add: cancelAsync_def isCanceled_def canceled_registry_cancel)
  moreover have "registry_lookup (sv_registry (cancelAsync sconn rid s)) sconn rid = None"
    by (simp add: cancelAsync_def lookup_registry_cancel)
  moreover have "tasks = [DoCallback (pr_callback p) (failed_response rid REQUEST_CANCELED ''rpc request canceled'')]"
    using assms(1,2) by (simp add: cancelInLoop_def Let_def)
  ultimately show ?thesis by blast
qed

subsection \<open>Concrete instances\<close>

text \<open>A client that has just connected.\<close>

definition connected_client :: "(nat, 'k) client" where
  "connected_client = RpcClient_new\<lparr>cl_hasConnectAttempted := True, cl_status := kConnected, cl_conn := Some 0\<rparr>"

lemma connected_client_run:
  "client_run True 67108864 [C_connect, C_up 0, C_task, C_task] (RpcClient_new, [], []) =
     Some (connected_client, [], [TcpConnect])"
  by (simp add: client_eval connected_client_def)

lemma connected_call:
  "\<exists>cl'. client_call True 67108864 (\<lambda>_. True) True (call_of 7) connected_client =
     Some (1, [Issued 1 7, Send 0 (request_of 1)], [], cl')"
  by (simp add: client_eval connected_client_def)

theorem sync_call_end_to_end_witness:
  "\<exists>cl' bs' cl''. client_call True 67108864 (\<lambda>_. True) True (call_of 7) connected_client =
     Some (1, [Issued 1 7, Send 0 (request_of 1)], [], cl') \<and>
   server_onRpcMessage False 67108864 (\<lambda>_. True) 5 (request_of 1) echo_server = ([SendFrame 5 bs'], echo_server) \<and>
   client_onRpcMessage True 67108864 0 bs' cl' = ([], [DoCallback 7 (RpcResponse_make 1 kSuccess NO_ERROR ''p'' [])], cl'')"
proof -
  obtain cl' where call: "client_call True 67108864 (\<lambda>_. True) True (call_of 7) connected_client =
     Some (1, [Issued 1 7, Send 0 (request_of 1)], [], cl')"
    using connected_call by blast
  let ?out = "Some (RpcResult_make kSuccess NO_ERROR ''p'' [])"
  have res: "checked_result ?out = RpcResult_make kSuccess NO_ERROR ''p'' []"
    by (simp add: checked_result_def invalidRpcResult_def RpcResult_make_def word_le_nat_alt)
  have server: "table_find ''S'' ''m'' (sv_syncHandlers echo_server) = Some echo_handler"
    "67108864 = effectiveMaxMessageSize 67108864 echo_server" "echo_server\<lparr>sv_world := ()\<rparr> = echo_server"
    by (simp_all add: registerMethod_def RpcServer_new_def registered_simps table_find_def table_insert_def
        effectiveMaxMessageSize_def)
  have fits: "length (request_of 1) \<le> 67108864"
    "22 + length (rr_payload (checked_result ?out)) + length (rr_errorMessage (checked_result ?out)) \<le>
       min 67108864 (client_max 67108864 (connected_client :: (nat, nat) client))"
    by (simp_all only: res) (simp_all add: length_request_wire_eq client_max_def connected_client_def RpcClient_new_def)
  have "\<exists>bs' cl''. server_onRpcMessage False 67108864 (\<lambda>_. True) 5 (request_of 1) echo_server =
        ([SendFrame 5 bs'], echo_server\<lparr>sv_world := ()\<rparr>) \<and>
      client_onRpcMessage True 67108864 0 bs' cl' = ([], [DoCallback 7 (RpcResponse_make 1 (rr_result (checked_result ?out))
         (rr_errorCode (checked_result ?out)) (rr_payload (checked_result ?out)) (rr_errorMessage (checked_result ?out)))], cl'') \<and>
      m_find (cl_pendingRequests cl'') 1 = None"
    using sync_call_end_to_end[OF call _ server(2) fits(1) _ _ _ _ fits(2), of 0 echo_handler "()" "\<lambda>_. True" 5 False] server(1)
    by simp
  then have "\<exists>bs' cl''. server_onRpcMessage False 67108864 (\<lambda>_. True) 5 (request_of 1) echo_server = ([SendFrame 5 bs'], echo_server) \<and>
      client_onRpcMessage True 67108864 0 bs' cl' = ([], [DoCallback 7 (RpcResponse_make 1 kSuccess NO_ERROR ''p'' [])], cl'')"
    unfolding server(3) res RpcResult_make_sel by blast
  with call show ?thesis by blast
qed

text \<open>A server with one asynchronous method that gets a request.\<close>

lemma async_started_run:
  "\<exists>s s1 :: (nat, nat, unit) server. server_run False 67108864 [E_async ''S'' ''m'' 0, E_start 0] (RpcServer_new (), []) = Some (s, []) \<and>
     sv_status s \<noteq> kNotStarted \<and> effectiveMaxMessageSize 67108864 s = 67108864 \<and> table_find ''S'' ''m'' (sv_syncHandlers s) = None \<and>
     table_find ''S'' ''m'' (sv_asyncHandlers s) = Some 0 \<and> has_room 5 1 s \<and> sv_calls s = [] \<and>
     server_onRpcMessage False 67108864 (\<lambda>_. True) 5 (request_of 1) s = ([], s1) \<and> sv_taskPool s1 = None \<and>
     sv_calls s1 = [\<lparr>ac_conn = 5, ac_requestId = 1, ac_payload = ''p'', ac_handler = 0, ac_replied = False\<rparr>] \<and>
     registry_lookup (sv_registry s1) 5 1 = Some 0 \<and> sv_queue s1 = []"
  by (simp add: server_eval has_room_def effectiveMaxMessageSize_def registry_lookup_def table_find_def table_insert_def register_call_def)

theorem async_call_end_to_end_witness:
  "\<exists>cl' (s :: (nat, nat, unit) server) s1 q bs' s4 cl''.
     client_call True 67108864 (\<lambda>_. True) True (call_of 7) connected_client = Some (1, [Issued 1 7, Send 0 (request_of 1)], [], cl') \<and>
     server_run False 67108864 [E_async ''S'' ''m'' 0, E_start 0] (RpcServer_new (), []) = Some (s, []) \<and>
     server_onRpcMessage False 67108864 (\<lambda>_. True) 5 (request_of 1) s = ([], s1) \<and>
     sv_queue (async_reply 0 True (reply_with ''x'') s1) = [q] \<and>
     run_queued_reply False 67108864 (\<lambda>_. True) True q ((async_reply 0 True (reply_with ''x'') s1)\<lparr>sv_queue := []\<rparr>) =
       ([SendFrame 5 bs'], s4) \<and>
     client_onRpcMessage True 67108864 0 bs' cl' = ([], [DoCallback 7 (RpcResponse_make 1 kSuccess NO_ERROR ''x'' [])], cl'')"
proof -
  let ?out = "Some (reply_with ''x'')"
  obtain cl' where call: "client_call True 67108864 (\<lambda>_. True) True (call_of 7) connected_client =
     Some (1, [Issued 1 7, Send 0 (request_of 1)], [], cl')"
    using connected_call by blast
  have res: "checked_result ?out = reply_with ''x''"
    by (simp add: checked_result_def invalidRpcResult_def RpcResult_make_def word_le_nat_alt)
  obtain s s1 :: "(nat, nat, unit) server" where
    s: "server_run False 67108864 [E_async ''S'' ''m'' 0, E_start 0] (RpcServer_new (), []) = Some (s, [])"
      "sv_status s \<noteq> kNotStarted" "effectiveMaxMessageSize 67108864 s = 67108864" "table_find ''S'' ''m'' (sv_syncHandlers s) = None"
      "table_find ''S'' ''m'' (sv_asyncHandlers s) = Some 0" "has_room 5 1 s" "sv_calls s = []"
    and s1: "server_onRpcMessage False 67108864 (\<lambda>_. True) 5 (request_of 1) s = ([], s1)" "sv_taskPool s1 = None"
    "sv_calls s1 = [\<lparr>ac_conn = 5, ac_requestId = 1, ac_payload = ''p'', ac_handler = 0, ac_replied = False\<rparr>]"
    "registry_lookup (sv_registry s1) 5 1 = Some 0" "sv_queue s1 = []"
    using async_started_run by blast
  let ?s2 = "async_reply 0 True (reply_with ''x'') s1"
  obtain q where q: "sv_queue ?s2 = [] @ q # []" "qr_call q = 0" "registry_lookup (sv_registry ?s2) 5 1 = Some 0"
    using s1(3-5) by (simp add: async_reply_def Let_def)
  have facts: "call_begun s1 0" "\<not> ac_replied (sv_calls s1 ! 0)" "length (request_of 1) \<le> 67108864" "(0 :: nat) = length (sv_calls s)"
    using s1(2,3) s(7) by (simp_all add: call_begun_def length_request_wire_eq)
  have fits: "22 + length (rr_payload (checked_result ?out)) + length (rr_errorMessage (checked_result ?out)) \<le>
       min 67108864 (client_max 67108864 (connected_client :: (nat, nat) client))"
    unfolding res by (simp add: client_max_def connected_client_def RpcClient_new_def RpcResult_make_def)
  have "table_find (ca_service (call_of 7)) (ca_method (call_of 7)) (sv_syncHandlers s) = None"
    "table_find (ca_service (call_of 7)) (ca_method (call_of 7)) (sv_asyncHandlers s) = Some 0"
    using s(4,5) by simp_all
  from async_call_end_to_end[where up_s' = "\<lambda>_. True", OF call _ server_run_reachable[OF s(1)] s(2) s(3)[symmetric] facts(3) _ this s(6) s1(1)
      facts(4) rtranclp.rtrancl_refl facts(1,2) rtranclp.rtrancl_refl q TrueI fits, of 0]
  have "\<exists>bs' s4 cl''. run_queued_reply False 67108864 (\<lambda>_. True) True q (?s2\<lparr>sv_queue := [] @ []\<rparr>) = ([SendFrame 5 bs'], s4) \<and>
      client_onRpcMessage True 67108864 0 bs' cl' = ([], [DoCallback 7 (RpcResponse_make 1 (rr_result (checked_result ?out))
         (rr_errorCode (checked_result ?out)) (rr_payload (checked_result ?out)) (rr_errorMessage (checked_result ?out)))], cl'')"
    by simp blast
  then have "\<exists>bs' s4 cl''. run_queued_reply False 67108864 (\<lambda>_. True) True q (?s2\<lparr>sv_queue := []\<rparr>) = ([SendFrame 5 bs'], s4) \<and>
      client_onRpcMessage True 67108864 0 bs' cl' = ([], [DoCallback 7 (RpcResponse_make 1 kSuccess NO_ERROR ''x'' [])], cl'')"
    unfolding res RpcResult_make_sel append_Nil by blast
  with call s(1) s1(1) q(1) show ?thesis by (simp del: client_run.simps server_run.simps)
qed

theorem add_end_to_end_witness:
  "\<exists>effs cl' s1 bs bs' r cl''. calculator_add True 67108864 (\<lambda>_. True) True 2000000000 (- 7) (3 :: nat) connected_client =
       Some (1, effs, [], cl') \<and> Send 0 bs \<in> set effs \<and>
     registerCalculatorService False (RpcServer_new () :: (nat, nat, unit) server) = Some (True, s1) \<and>
     server_onRpcMessage False 67108864 (\<lambda>_. True) 5 bs (RpcServer_start 0 s1) = ([SendFrame 5 bs'], RpcServer_start 0 s1) \<and>
     client_onRpcMessage True 67108864 0 bs' cl' = ([], [DoCallback (WrapAdd 3) r], cl'') \<and>
     (\<exists>v. wrapped_argument True r = Some \<lparr>ar_status = kSuccess, ar_errorCode = NO_ERROR, ar_value = v, ar_errorMessage = []\<rparr> \<and>
        sint v = 1999999993)"
proof -
  obtain effs cl' bs where call: "calculator_add True 67108864 (\<lambda>_. True) True 2000000000 (- 7) (3 :: nat) connected_client =
      Some (1, effs, [], cl')" "Send 0 bs \<in> set effs"
    by (simp add: calculator_add_def requestEncode_eq client_call4_def call_args_default_def client_eval connected_client_def)
  obtain s1 where reg: "registerCalculatorService False (RpcServer_new () :: (nat, nat, unit) server) = Some (True, s1)"
    by (simp add: registerCalculatorService_def registerMethod_def RpcServer_new_def registered_simps table_find_def table_insert_def)
  have max: "effectiveMaxMessageSize 67108864 (RpcServer_start 0 s1) = 67108864"
    using registerCalculatorService_table(3)[OF reg]
    by (simp add: effectiveMaxMessageSize_def RpcServer_start_frame RpcServer_new_def)
  have "client_max 67108864 (connected_client :: (nat, nat rpc_callback) client) = 67108864"
    by (simp add: client_max_def connected_client_def RpcClient_new_def)
  moreover have "sint (2000000000 :: i32) + sint (- 7 :: i32) = 1999999993" by simp
  ultimately show ?thesis
    using add_end_to_end[OF call reg refl, where threads = 0 and up_s = "\<lambda>_. True" and sconn = 5] call reg
    by (simp add: max) blast
qed

theorem cancel_end_to_end_witness:
  "\<exists>(cl :: (nat, nat) client) effs tasks cl' (s :: (nat, nat, unit) server) log s'.
     cancelInLoop True (\<lambda>_. True) 0 1 cl = (effs, tasks, cl') \<and> Send 0 (cancel_wire \<lparr>cn_requestId = 1\<rparr>) \<in> set effs \<and>
     server_run False 67108864 [E_async ''S'' ''m'' 0, E_start 0, E_message 5 (request_of 1)] (RpcServer_new (), []) = Some (s, log) \<and>
     server_onRpcMessage False 67108864 (\<lambda>_. True) 5 (cancel_wire \<lparr>cn_requestId = 1\<rparr>) s = ([], s') \<and> isCanceled (sv_registry s') 0"
proof -
  obtain cl :: "(nat, nat) client" and effs tasks cl' p where
    cl: "m_find (cl_pendingRequests cl) 1 = Some p" "cancelInLoop True (\<lambda>_. True) 0 1 cl = (effs, tasks, cl')"
      "Send 0 (cancel_wire \<lparr>cn_requestId = 1\<rparr>) \<in> set effs"
  proof -
    obtain cl :: "(nat, nat) client" where "client_call True 67108864 (\<lambda>_. True) True (call_of 7) connected_client =
        Some (1, [Issued 1 7, Send 0 (request_of 1)], [], cl)" "cl_conn cl = Some 0" "\<exists>p. m_find (cl_pendingRequests cl) 1 = Some p"
      by (simp add: client_eval connected_client_def)
    then show thesis using that by (auto simp: cancelInLoop_def sendCancel_def RpcCancel_encode_eq Let_def block_defs)
  qed
  obtain s :: "(nat, nat, unit) server" and log where
    s: "server_run False 67108864 [E_async ''S'' ''m'' 0, E_start 0, E_message 5 (request_of 1)] (RpcServer_new (), []) = Some (s, log)"
      "registry_lookup (sv_registry s) 5 1 = Some 0" "11 \<le> effectiveMaxMessageSize 67108864 s"
    by (simp add: server_eval registry_lookup_def)
  from cancel_end_to_end[OF cl s(3,2), of False "\<lambda>_. True"] cl s show ?thesis by blast
qed

end
